(* ===== verification/Js_Prelude.thy ===== *)
theory Js_Prelude
  imports Main "HOL-Library.Sublist"
begin

text \<open>
  Prelude of the development: the fact collections the component theories fill, the type
  synonyms shared by every model, the exception type of JavaScript and the generic lemmas on
  lists, association lists and results.

  A JavaScript computation that may throw is a value of \<open>jserr + 'a\<close>; \<open>Inl\<close> carries the
  thrown error. \<open>rbind\<close> sequences two such computations the way statement sequencing does: the
  second one does not run when the first one throws.
\<close>

named_theorems js_simps \<open>unfolding rules of the JavaScript operations\<close>

named_theorems js_laws \<open>algebraic laws of the JavaScript runtime model\<close>

datatype jserr =
    TypeError
  | SyntaxError
  | RangeError | ReferenceError
  | ErrorMsg string  \<comment> \<open>\<open>throw new Error(msg)\<close>\<close>
  | ThrowStr string  \<comment> \<open>\<open>throw 'msg'\<close>\<close>

type_synonym 'a result = "jserr + 'a"

definition rbind :: "'a result \<Rightarrow> ('a \<Rightarrow> 'b result) \<Rightarrow> 'b result" where
  "rbind r f = (case r of Inl e \<Rightarrow> Inl e | Inr x \<Rightarrow> f x)"

lemma rbind_simps [simp]:
  "rbind (Inl e) f = Inl e"
  "rbind (Inr x) f = f x"
  by (simp_all add: rbind_def)

lemma rbind_Inr_iff: "rbind r f = Inr y \<longleftrightarrow> (\<exists>x. r = Inr x \<and> f x = Inr y)"
  by (cases r) auto

lemma rbind_assoc [js_laws]: "rbind (rbind r f) g = rbind r (\<lambda>x. rbind (f x) g)"
  by (cases r) auto

lemma rbind_cong [fundef_cong]:
  "r = r' \<Longrightarrow> (\<And>x. r' = Inr x \<Longrightarrow> f x = f' x) \<Longrightarrow> rbind r f = rbind r' f'"
  by (cases r') auto

subsection \<open>Association lists in property order\<close>

type_synonym 'v props = "(string \<times> 'v) list"

fun lookup_prop :: "'v props \<Rightarrow> string \<Rightarrow> 'v option" where
  "lookup_prop [] k = None"
| "lookup_prop ((k', v) # ps) k = (if k = k' then Some v else lookup_prop ps k)"

fun replace_prop :: "string \<Rightarrow> 'v \<Rightarrow> 'v props \<Rightarrow> 'v props" where
  "replace_prop k v [] = []"
| "replace_prop k v ((k', v') # ps) =
     (if k = k' then (k, v) # ps else (k', v') # replace_prop k v ps)"

lemma lookup_prop_None_iff: "lookup_prop ps k = None \<longleftrightarrow> k \<notin> fst ` set ps"
  by (induction ps) (auto split: if_splits)

lemma lookup_prop_Some_in: "lookup_prop ps k = Some v \<Longrightarrow> (k, v) \<in> set ps"
  by (induction ps) (auto split: if_splits)

lemma lookup_prop_distinct:
  "distinct (map fst ps) \<Longrightarrow> (k, v) \<in> set ps \<Longrightarrow> lookup_prop ps k = Some v"
  by (induction ps) (auto simp: image_iff)

lemma lookup_prop_append:
  "lookup_prop (ps @ qs) k = (case lookup_prop ps k of None \<Rightarrow> lookup_prop qs k | Some v \<Rightarrow> Some v)"
  by (induction ps) auto

lemma lookup_replace_prop:
  "lookup_prop ps k \<noteq> None \<Longrightarrow> lookup_prop (replace_prop k v ps) = (lookup_prop ps)(k \<mapsto> v)"
  by (induction ps) (auto simp: fun_eq_iff split: if_splits)

lemma replace_prop_keys [simp]: "map fst (replace_prop k v ps) = map fst ps"
  by (induction ps) auto

subsection \<open>Lists\<close>

lemma takeWhile_append_stop:
  "(\<And>x. x \<in> set xs \<Longrightarrow> P x) \<Longrightarrow> (ys = [] \<or> \<not> P (hd ys)) \<Longrightarrow> takeWhile P (xs @ ys) = xs"
  by (cases ys) (auto simp: takeWhile_append takeWhile_eq_all_conv[THEN iffD2])

lemma dropWhile_append_stop:
  "(\<And>x. x \<in> set xs \<Longrightarrow> P x) \<Longrightarrow> (ys = [] \<or> \<not> P (hd ys)) \<Longrightarrow> dropWhile P (xs @ ys) = ys"
  by (cases ys) (auto simp: dropWhile_append)

end
