(* ===== verification/Js_Number.thy ===== *)
theory Js_Number
  imports Js_Prelude Complex_Main
begin

text \<open>
  The Number type of JavaScript: IEEE 754 binary64 values. A finite value is the rational it
  denotes (the two zeros are identified: no code of the repository divides by a zero or tests its
  sign); \<open>to_double\<close> rounds an exact rational result to the nearest binary64 value, ties to the
  even significand, overflowing to an infinity. Addition and subtraction are the exact operation
  followed by that rounding. The lemmas show that integer arithmetic is exact up to
  \<open>2 ^ 53\<close> in magnitude, which is what the counters of the monitor rely on.
\<close>

datatype jsnum = NaN | Infin bool | Fin rat  \<comment> \<open>\<open>Infin True\<close> is \<open>-Infinity\<close>\<close>

function nbits :: "int \<Rightarrow> nat" where
  "nbits n = (if n \<le> 0 then 0 else Suc (nbits (n div 2)))"
  by pat_completeness auto
termination
  by (relation "measure nat") auto

declare nbits.simps [simp del]

text \<open>\<open>ilog2 x\<close> is the binary exponent of \<open>x\<close>, the floor of the binary logarithm of its magnitude.\<close>

definition ilog2 :: "rat \<Rightarrow> int" where
  "ilog2 x = (case quotient_of x of (a, b) \<Rightarrow>
     let k = int (nbits \<bar>a\<bar>) - int (nbits b)
     in if power_int 2 k \<le> \<bar>x\<bar> then k else k - 1)"

definition round_half_even :: "rat \<Rightarrow> int" where
  "round_half_even x =
     (let n = \<lfloor>x\<rfloor>; d = x - of_int n
      in if d < 1 / 2 then n else if 1 / 2 < d then n + 1 else if even n then n else n + 1)"

definition to_double :: "rat \<Rightarrow> jsnum" where
  "to_double x =
     (if x = 0 then Fin 0
      else let e = max (ilog2 x) (- 1022);
               y = of_int (round_half_even (x * power_int 2 (52 - e))) * power_int 2 (e - 52)
           in if 2 ^ 1024 \<le> \<bar>y\<bar> then Infin (x < 0) else Fin y)"

fun num_neg :: "jsnum \<Rightarrow> jsnum" where
  "num_neg NaN = NaN"
| "num_neg (Infin b) = Infin (\<not> b)"
| "num_neg (Fin x) = Fin (- x)"

fun num_add :: "jsnum \<Rightarrow> jsnum \<Rightarrow> jsnum" where
  "num_add NaN _ = NaN"
| "num_add _ NaN = NaN"
| "num_add (Infin a) (Infin b) = (if a = b then Infin a else NaN)"
| "num_add (Infin a) (Fin _) = Infin a"
| "num_add (Fin _) (Infin b) = Infin b"
| "num_add (Fin x) (Fin y) = to_double (x + y)"

definition num_sub :: "jsnum \<Rightarrow> jsnum \<Rightarrow> jsnum" where
  "num_sub a b = num_add a (num_neg b)"

fun num_less :: "jsnum \<Rightarrow> jsnum \<Rightarrow> bool" where
  "num_less NaN _ = False"
| "num_less _ NaN = False"
| "num_less (Infin a) (Infin b) = (a \<and> \<not> b)"
| "num_less (Infin a) (Fin _) = a"
| "num_less (Fin _) (Infin b) = (\<not> b)"
| "num_less (Fin x) (Fin y) = (x < y)"

fun num_eq :: "jsnum \<Rightarrow> jsnum \<Rightarrow> bool" where
  "num_eq NaN _ = False"
| "num_eq _ NaN = False"
| "num_eq a b = (a = b)"

text \<open>Integers, and the range in which integer arithmetic is exact.\<close>

abbreviation num_of_int :: "int \<Rightarrow> jsnum" where
  "num_of_int n \<equiv> Fin (of_int n)"

definition safe_int :: "int \<Rightarrow> bool" where
  "safe_int n \<longleftrightarrow> \<bar>n\<bar> \<le> 2 ^ 53"

subsection \<open>Exactness of integer arithmetic\<close>

lemma nbits_0 [simp]: "nbits 0 = 0"
  by (simp add: nbits.simps)

lemma nbits_1 [simp]: "nbits 1 = 1"
  by (simp add: nbits.simps)

lemma nbits_upper: "n < 2 ^ nbits n"
proof (induction n rule: nbits.induct)
  case (1 n)
  then show ?case
    by (cases "n \<le> 0") (auto simp: nbits.simps[of n])
qed

lemma nbits_pos: "0 < n \<Longrightarrow> 0 < nbits n"
  by (simp add: nbits.simps[of n])

lemma nbits_lower: "0 < n \<Longrightarrow> 2 ^ (nbits n - 1) \<le> n"
proof (induction n rule: nbits.induct)
  case (1 n)
  show ?case
  proof (cases "n = 1")
    case False
    with 1 have ih: "2 ^ (nbits (n div 2) - 1) \<le> n div 2" and pos: "0 < nbits (n div 2)"
      by (auto intro: nbits_pos)
    have "(2::int) ^ nbits (n div 2) = 2 * 2 ^ (nbits (n div 2) - 1)"
      using pos by (cases "nbits (n div 2)") auto
    also have "\<dots> \<le> n" using ih by linarith
    finally show ?thesis using 1(2) by (simp add: nbits.simps[of n])
  qed simp
qed

lemma nbits_le:
  assumes "n < 2 ^ k"
  shows "nbits n \<le> k"
proof (cases "n \<le> 0")
  case False
  then have "2 ^ (nbits n - 1) < (2::int) ^ k"
    using nbits_lower[of n] assms by linarith
  then have "nbits n - 1 < k"
    by (rule power_less_imp_less_exp[rotated]) simp
  then show ?thesis by simp
qed (simp add: nbits.simps)

lemma ilog2_of_int:
  assumes "n \<noteq> 0"
  shows "ilog2 (of_int n) = int (nbits \<bar>n\<bar>) - 1"
proof -
  let ?m = "nbits \<bar>n\<bar>"
  have "2 ^ (?m - 1) \<le> \<bar>n\<bar>"
    using assms by (intro nbits_lower) simp
  then have "(2::rat) ^ (?m - 1) \<le> \<bar>of_int n\<bar>"
    by (metis of_int_abs of_int_le_iff of_int_numeral of_int_power)
  moreover have "power_int (2::rat) (int ?m - 1) = 2 ^ (?m - 1)"
    using nbits_pos[of "\<bar>n\<bar>"] assms
    by (simp add: power_int_def nat_diff_distrib)
  moreover have "quotient_of (of_int n) = (n, 1)"
    by (simp add: of_int_rat quotient_of_Fract)
  ultimately show ?thesis
    by (simp add: ilog2_def)
qed

lemma round_half_even_of_int [simp]: "round_half_even (of_int n) = n"
  by (simp add: round_half_even_def)

lemma power_int_of_nat: "power_int (x::rat) (int k) = x ^ k"
  by (simp add: power_int_def)

lemma to_double_safe_aux:
  assumes "n \<noteq> 0" "x = of_int n" "e = ilog2 x" "0 \<le> e"
    and "x * power_int 2 (52 - e) = of_int m" "\<bar>n\<bar> < 2 ^ 1024"
  shows "to_double x = Fin x"
proof -
  have "of_int m * power_int 2 (e - 52) = x * (power_int 2 (52 - e) * power_int 2 (e - 52))"
    using assms(5) by (simp add: mult.assoc)
  also have "power_int (2::rat) (52 - e) * power_int 2 (e - 52) = 1"
    by (simp flip: power_int_add)
  finally have y: "of_int m * power_int 2 (e - 52) = x" by simp
  have "\<bar>x\<bar> < 2 ^ 1024"
    using assms(2,6) by (metis of_int_abs of_int_less_iff of_int_numeral of_int_power)
  then show ?thesis
    using assms(1-5) y by (simp add: to_double_def max_def Let_def)
qed

theorem to_double_safe_int:
  assumes "safe_int n"
  shows "to_double (of_int n) = Fin (of_int n)"
proof (cases "n = 0")
  case False
  have pow: "(2::int) ^ 53 < 2 ^ 1024" by (rule power_strict_increasing) simp_all
  let ?b = "nbits \<bar>n\<bar>"
  have b: "0 < ?b" using False by (intro nbits_pos) simp
  have e: "ilog2 (of_int n) = int ?b - 1" using False by (rule ilog2_of_int)
  have lim: "\<bar>n\<bar> < 2 ^ 1024" using assms pow unfolding safe_int_def by linarith
  show ?thesis
  proof (cases "\<bar>n\<bar> < 2 ^ 53")
    case True
    then have "?b \<le> 53" by (rule nbits_le)
    then have "power_int (2::rat) (52 - (int ?b - 1)) = 2 ^ (53 - ?b)"
      by (simp add: power_int_of_nat[symmetric] of_nat_diff)
    then have "of_int n * power_int (2::rat) (52 - (int ?b - 1)) = of_int (n * 2 ^ (53 - ?b))"
      by simp
    from to_double_safe_aux[OF False refl _ _ this lim] e b show ?thesis by simp
  next
    case big: False
    with assms have n: "n = 2 ^ 53 \<or> n = - (2 ^ 53)"
      unfolding safe_int_def by linarith
    then have "\<bar>n\<bar> = 2 ^ 53" by auto
    then have "?b = 54"
      using nbits_upper[of "\<bar>n\<bar>"] nbits_le[of "\<bar>n\<bar>" 54] power_less_imp_less_exp[of "2::int" 53 ?b]
      by simp
    then have "ilog2 (of_int n) = 53"
      using e by simp
    then have *: "of_int n * power_int (2::rat) (52 - 53) = of_int (n div 2)"
      using n by (auto simp: power_int_def)
    show ?thesis
      using to_double_safe_aux[OF False refl refl _ _ lim, of "n div 2"] * \<open>ilog2 (of_int n) = 53\<close>
      by simp
  qed
qed (simp add: to_double_def)

lemma num_add_int [js_laws]:
  "safe_int (a + b) \<Longrightarrow> num_add (num_of_int a) (num_of_int b) = num_of_int (a + b)"
  using to_double_safe_int[of "a + b"] by simp

lemma num_sub_int [js_laws]:
  "safe_int (a - b) \<Longrightarrow> num_sub (num_of_int a) (num_of_int b) = num_of_int (a - b)"
  using to_double_safe_int[of "a - b"] by (simp add: num_sub_def)

text \<open>The evaluation of \<open>to_double\<close> takes the short way on safe integers.\<close>

lemma safe_int_pow: "\<bar>n\<bar> \<le> 9007199254740992 \<Longrightarrow> safe_int n"
  by (simp add: safe_int_def)

lemma to_double_code [code]:
  "to_double x =
     (if x = of_int \<lfloor>x\<rfloor> \<and> \<bar>\<lfloor>x\<rfloor>\<bar> \<le> 9007199254740992 then Fin x
      else let e = max (ilog2 x) (- 1022);
               y = of_int (round_half_even (x * power_int 2 (52 - e))) * power_int 2 (e - 52)
           in if 2 ^ 1024 \<le> \<bar>y\<bar> then Infin (x < 0) else Fin y)"
proof (cases "x = of_int \<lfloor>x\<rfloor> \<and> \<bar>\<lfloor>x\<rfloor>\<bar> \<le> 9007199254740992")
  case True
  then have "to_double x = Fin x" using to_double_safe_int[of "\<lfloor>x\<rfloor>"] by (metis safe_int_pow)
  then show ?thesis unfolding if_P[OF True] .
next
  case False
  then have "x \<noteq> 0" by auto
  then show ?thesis unfolding if_not_P[OF False] to_double_def by (simp only: if_False)
qed

end
