(* ===== verification/Js_Text.thy ===== *)
theory Js_Text
  imports Js_Number
begin

text \<open>
  Strings of JavaScript and the conversions between strings and numbers. A string is the list of
  bytes of its UTF-8 text (a lone 16-bit unit is encoded by itself), so equality,
  concatenation, splitting at an ASCII separator and searching for an ASCII text are the operations
  of the source. The conversions follow the standard: \<open>num_to_string\<close> is Number::toString (the
  shortest digits that read back as the same number), \<open>str_to_number\<close> is StringToNumber.
\<close>

definition is_digit :: "char \<Rightarrow> bool" where
  "is_digit c \<longleftrightarrow> 48 \<le> (of_char c :: int) \<and> (of_char c :: int) \<le> 57"

definition digit_val :: "char \<Rightarrow> int" where
  "digit_val c = (of_char c :: int) - 48"

definition digit_char :: "int \<Rightarrow> char" where
  "digit_char d = char_of (48 + d)"

function int_digits :: "int \<Rightarrow> string" where
  "int_digits n =
     (if n < 10 then [digit_char n] else int_digits (n div 10) @ [digit_char (n mod 10)])"
  by pat_completeness auto
termination
  by (relation "measure nat") auto

declare int_digits.simps [simp del]

definition digits_to_int :: "string \<Rightarrow> int" where
  "digits_to_int s = foldl (\<lambda>a c. 10 * a + digit_val c) 0 s"

subsection \<open>Number to string\<close>

text \<open>\<open>dec_point x\<close> is the \<open>n\<close> with \<open>10 ^ (n - 1) \<le> x < 10 ^ n\<close>, for a positive \<open>x\<close>.\<close>

fun dec_up :: "nat \<Rightarrow> rat \<Rightarrow> int" where
  "dec_up 0 x = 0"
| "dec_up (Suc f) x = (if x < 1 then 0 else 1 + dec_up f (x / 10))"

fun dec_down :: "nat \<Rightarrow> rat \<Rightarrow> int" where
  "dec_down 0 x = 0"
| "dec_down (Suc f) x = (if 1 \<le> 10 * x then 0 else dec_down f (10 * x) - 1)"

definition dec_point :: "rat \<Rightarrow> int" where
  "dec_point x = (if 1 \<le> x then dec_up 400 x else dec_down 400 x)"

text \<open>The digits \<open>s\<close> of the shortest decimal of at most 17 digits that rounds to \<open>x\<close>.\<close>

fun shortest_digits :: "nat \<Rightarrow> nat \<Rightarrow> int \<Rightarrow> rat \<Rightarrow> nat \<times> int \<times> int" where
  "shortest_digits 0 k n x = (k, n, round_half_even (x * power_int 10 (int k - n)))"
| "shortest_digits (Suc f) k n x =
     (let s = round_half_even (x * power_int 10 (int k - n))
      in if to_double (of_int s * power_int 10 (n - int k)) = Fin x
         then (if s = 10 ^ k then (k, n + 1, 10 ^ (k - 1)) else (k, n, s))
         else shortest_digits f (Suc k) n x)"

definition exp_suffix :: "int \<Rightarrow> string" where
  "exp_suffix e = ''e'' @ (if e < 0 then ''-'' else ''+'') @ int_digits \<bar>e\<bar>"

definition pos_to_string :: "rat \<Rightarrow> string" where
  "pos_to_string x =
     (if x = of_int \<lfloor>x\<rfloor> \<and> x \<le> 2 ^ 53 then int_digits \<lfloor>x\<rfloor>
      else let (k, n, s) = shortest_digits 16 1 (dec_point x) x; ds = int_digits s
           in if int k \<le> n \<and> n \<le> 21 then ds @ replicate (nat n - k) (CHR ''0'')
              else if 0 < n \<and> n \<le> 21 then take (nat n) ds @ ''.'' @ drop (nat n) ds
              else if - 6 < n \<and> n \<le> 0 then ''0.'' @ replicate (nat (- n)) (CHR ''0'') @ ds
              else if k = 1 then ds @ exp_suffix (n - 1)
              else take 1 ds @ ''.'' @ drop 1 ds @ exp_suffix (n - 1))"

fun num_to_string :: "jsnum \<Rightarrow> string" where
  "num_to_string NaN = ''NaN''"
| "num_to_string (Infin neg) = (if neg then ''-Infinity'' else ''Infinity'')"
| "num_to_string (Fin x) = (if x < 0 then ''-'' @ pos_to_string (- x) else pos_to_string x)"

subsection \<open>String to number\<close>

definition scan_digits :: "string \<Rightarrow> string \<times> string" where
  "scan_digits s = (takeWhile is_digit s, dropWhile is_digit s)"

text \<open>
  The exponent part of a decimal: absent (\<open>0\<close>, nothing read), or \<open>e\<close>, an optional sign and at
  least one digit; \<open>None\<close> where the digits are missing.
\<close>

definition scan_exp :: "string \<Rightarrow> (int \<times> string) option" where
  "scan_exp s =
     (case s of [] \<Rightarrow> Some (0, [])
      | c # t \<Rightarrow>
          if c = CHR ''e'' \<or> c = CHR ''E'' then
            (let sg = (case t of c' # t' \<Rightarrow> if c' = CHR ''-'' then - 1 else 1 | [] \<Rightarrow> 1);
                 u = (case t of c' # t' \<Rightarrow> if c' = CHR ''-'' \<or> c' = CHR ''+'' then t' else t | [] \<Rightarrow> t);
                 (ds, r) = scan_digits u
             in if ds = [] then None else Some (sg * digits_to_int ds, r))
          else Some (0, s))"

definition dec_value :: "string \<Rightarrow> string \<Rightarrow> int \<Rightarrow> rat" where
  "dec_value ip fp e = of_int (digits_to_int (ip @ fp)) * power_int 10 (e - int (length fp))"

definition is_space :: "char \<Rightarrow> bool" where
  "is_space c \<longleftrightarrow> c = CHR '' '' \<or> (9 \<le> (of_char c :: int) \<and> (of_char c :: int) \<le> 13)"

definition trim :: "string \<Rightarrow> string" where
  "trim s = rev (dropWhile is_space (rev (dropWhile is_space s)))"

text \<open>StrUnsignedDecimalLiteral, the whole text: \<open>Infinity\<close>, \<open>12\<close>, \<open>12.\<close>, \<open>1.5e3\<close>, \<open>.5\<close>.\<close>

definition unsigned_decimal :: "string \<Rightarrow> jsnum" where
  "unsigned_decimal s =
     (if s = ''Infinity'' then Infin False
      else let (ip, r) = scan_digits s;
               (fp, r') = (case r of c # t \<Rightarrow> if c = CHR ''.'' then scan_digits t else ([], r) | [] \<Rightarrow> ([], r))
           in if ip = [] \<and> fp = [] then NaN
              else case scan_exp r' of Some (e, []) \<Rightarrow> to_double (dec_value ip fp e) | _ \<Rightarrow> NaN)"

definition radix_val :: "char \<Rightarrow> int" where
  "radix_val c = (let n = (of_char c :: int) in
     if is_digit c then n - 48 else if 97 \<le> n \<and> n \<le> 122 then n - 87
     else if 65 \<le> n \<and> n \<le> 90 then n - 55 else 99)"

definition radix_integer :: "int \<Rightarrow> string \<Rightarrow> jsnum" where
  "radix_integer b s =
     (if s = [] \<or> \<not> list_all (\<lambda>c. radix_val c < b) s then NaN
      else to_double (of_int (foldl (\<lambda>a c. b * a + radix_val c) 0 s)))"

definition str_to_number :: "string \<Rightarrow> jsnum" where
  "str_to_number s0 =
     (let s = trim s0 in
      case s of [] \<Rightarrow> Fin 0
      | c # t \<Rightarrow>
          if c = CHR ''0'' \<and> t \<noteq> [] \<and> hd t \<in> set ''xX'' then radix_integer 16 (tl t)
          else if c = CHR ''0'' \<and> t \<noteq> [] \<and> hd t \<in> set ''oO'' then radix_integer 8 (tl t)
          else if c = CHR ''0'' \<and> t \<noteq> [] \<and> hd t \<in> set ''bB'' then radix_integer 2 (tl t)
          else if c = CHR ''+'' then unsigned_decimal t
          else if c = CHR ''-'' then num_neg (unsigned_decimal t)
          else unsigned_decimal s)"

subsection \<open>Searching and splitting\<close>

fun index_of_from :: "nat \<Rightarrow> string \<Rightarrow> string \<Rightarrow> int" where
  "index_of_from i p s =
     (if prefix p s then int i
      else case s of [] \<Rightarrow> - 1 | _ # t \<Rightarrow> index_of_from (Suc i) p t)"

declare index_of_from.simps [simp del]

text \<open>\<open>s.indexOf(p)\<close>.\<close>

definition index_of :: "string \<Rightarrow> string \<Rightarrow> int" where
  "index_of s p = index_of_from 0 p s"

text \<open>\<open>s.split(c)\<close> for a one-character separator.\<close>

fun split_on :: "char \<Rightarrow> string \<Rightarrow> string list" where
  "split_on c [] = [[]]"
| "split_on c (x # xs) =
     (if x = c then [] # split_on c xs
      else case split_on c xs of [] \<Rightarrow> [[x]] | w # ws \<Rightarrow> (x # w) # ws)"

subsection \<open>Decimal digits read back\<close>

lemma of_char_digit_char: "0 \<le> d \<Longrightarrow> d < 10 \<Longrightarrow> (of_char (digit_char d) :: int) = 48 + d"
  by (simp add: digit_char_def)

lemma is_digit_digit_char [simp]: "0 \<le> d \<Longrightarrow> d < 10 \<Longrightarrow> is_digit (digit_char d)"
  by (simp add: is_digit_def of_char_digit_char)

lemma digit_val_digit_char [simp]: "0 \<le> d \<Longrightarrow> d < 10 \<Longrightarrow> digit_val (digit_char d) = d"
  by (simp add: digit_val_def of_char_digit_char)

lemma digit_char_inj: "0 \<le> d \<Longrightarrow> d < 10 \<Longrightarrow> 0 \<le> e \<Longrightarrow> e < 10 \<Longrightarrow> digit_char d = digit_char e \<longleftrightarrow> d = e"
  using digit_val_digit_char by metis

lemma int_digits_all_digits: "0 \<le> n \<Longrightarrow> c \<in> set (int_digits n) \<Longrightarrow> is_digit c"
proof (induction n rule: int_digits.induct)
  case (1 n)
  then show ?case
    by (cases "n < 10") (auto simp: int_digits.simps[of n])
qed

lemma digits_to_int_snoc: "digits_to_int (s @ [c]) = 10 * digits_to_int s + digit_val c"
  by (simp add: digits_to_int_def)

lemma digits_to_int_int_digits [simp]: "0 \<le> n \<Longrightarrow> digits_to_int (int_digits n) = n"
proof (induction n rule: int_digits.induct)
  case (1 n)
  show ?case
  proof (cases "n < 10")
    case True
    with 1 show ?thesis by (simp add: int_digits.simps[of n] digits_to_int_def)
  next
    case False
    with 1 show ?thesis by (simp add: int_digits.simps[of n] digits_to_int_snoc)
  qed
qed

lemma int_digits_nonempty [simp]: "int_digits n \<noteq> []"
  by (subst int_digits.simps) simp

lemma hd_int_digits_zero: "0 \<le> n \<Longrightarrow> hd (int_digits n) = CHR ''0'' \<Longrightarrow> n = 0"
proof (induction n rule: int_digits.induct)
  case (1 n)
  have z: "CHR ''0'' = digit_char 0" by code_simp
  show ?case
  proof (cases "n < 10")
    case True
    with 1 z show ?thesis by (simp add: int_digits.simps[of n] digit_char_inj)
  next
    case False
    with 1 have "n div 10 = 0" by (simp add: int_digits.simps[of n])
    with False show ?thesis by simp
  qed
qed

lemma int_digits_inj: "0 \<le> m \<Longrightarrow> 0 \<le> n \<Longrightarrow> int_digits m = int_digits n \<longleftrightarrow> m = n"
  using digits_to_int_int_digits by metis

lemma length_int_digits_single: "0 \<le> n \<Longrightarrow> length (int_digits n) = 1 \<longleftrightarrow> n < 10"
  by (subst int_digits.simps) simp

lemma num_to_string_int:
  "safe_int n \<Longrightarrow> num_to_string (num_of_int n) =
     (if n < 0 then ''-'' @ int_digits (- n) else int_digits n)"
proof -
  assume s: "safe_int n"
  then have "of_int n \<le> (of_int (2 ^ 53) :: rat)" "of_int (- n) \<le> (of_int (2 ^ 53) :: rat)"
    unfolding of_int_le_iff safe_int_def by simp_all
  then show ?thesis
    by (auto simp: pos_to_string_def floor_minus simp flip: of_int_minus)
qed

lemma scan_digits_append:
  "(\<And>c. c \<in> set ds \<Longrightarrow> is_digit c) \<Longrightarrow> (r = [] \<or> \<not> is_digit (hd r)) \<Longrightarrow> scan_digits (ds @ r) = (ds, r)"
  by (cases r) (simp_all add: scan_digits_def takeWhile_append_stop dropWhile_append_stop)

subsection \<open>Splitting and joining lines\<close>

lemma split_on_nonempty [simp]: "split_on c s \<noteq> []"
  by (induction s) (auto split: list.splits)

lemma split_on_no_sep: "c \<notin> set s \<Longrightarrow> split_on c s = [s]"
  by (induction s) auto

lemma split_on_append:
  "c \<notin> set l \<Longrightarrow> split_on c (l @ c # rest) = l # split_on c rest"
  by (induction l) auto

lemma split_on_lines:
  "(\<And>l. l \<in> set ls \<Longrightarrow> c \<notin> set l) \<Longrightarrow> split_on c (concat (map (\<lambda>l. l @ [c]) ls)) = ls @ [[]]"
  by (induction ls) (auto simp: split_on_append)

lemma byte_range: "0 \<le> (of_char c :: int)" "(of_char c :: int) < 256"
proof -
  have "(of_char c :: int) = int (of_char c)" by (metis of_nat_of_char)
  moreover have "of_char c < (256 :: nat)" by (rule nat_of_char_less_256)
  ultimately show "0 \<le> (of_char c :: int)" "(of_char c :: int) < 256" by linarith+
qed

end
