(* ===== verification/Js_Value.thy ===== *)
theory Js_Value
  imports Js_Text
begin

text \<open>
  Values of JavaScript as the repository's code uses them: primitives, plain objects and arrays.
  An object is its list of own enumerable properties in the order \<open>for (k in o)\<close> visits them:
  array indices in ascending order, then the other keys in the order of their creation. An array is
  an object whose index keys are its elements, so a hole is an absent key. Keys are never names
  that \<open>Object.prototype\<close> defines. The operators (\<open>typeof\<close>, truth, \<open>+\<close>, \<open>-\<close>,
  \<open>==\<close>, property read and write) follow the conversion rules of the standard. Property writes
  return the changed object; a write to a primitive changes nothing, and a read or write on
  \<open>undefined\<close> or \<open>null\<close> throws.
\<close>

datatype okind = Plain | Array

datatype jsval =
    Undef
  | Null
  | BoolV bool
  | NumV jsnum
  | StrV string
  | Obj okind "(string \<times> jsval) list"

abbreviation IntV :: "int \<Rightarrow> jsval" where
  "IntV n \<equiv> NumV (num_of_int n)"

fun own_props :: "jsval \<Rightarrow> (string \<times> jsval) list" where
  "own_props (Obj _ ps) = ps"
| "own_props _ = []"

lemma props_size [termination_simp]:
  "(k :: string, v :: jsval) \<in> set ps \<Longrightarrow> size v < Suc (size_list (size_prod (\<lambda>_. 0) size) ps)"
  by (rule le_imp_less_Suc, rule size_list_estimation'[of "(k, v)"]) simp_all

lemma own_props_size [termination_simp]: "(k, v) \<in> set (own_props w) \<Longrightarrow> size v < size w"
  using props_size by (cases w) auto

subsection \<open>Loops over the properties\<close>

text \<open>
  \<open>for (var k in o) body\<close>: the body sees the key and the value the property has, and threads the
  loop's state; a throw leaves the loop. (No loop of the repository changes the object it visits.)
\<close>

fun for_props :: "(string \<times> 'v) list \<Rightarrow> (string \<Rightarrow> 'v \<Rightarrow> 's \<Rightarrow> 's result) \<Rightarrow> 's \<Rightarrow> 's result" where
  "for_props [] f s = Inr s"
| "for_props ((k, v) # ps) f s = rbind (f k v s) (for_props ps f)"

lemma for_props_cong [fundef_cong]:
  assumes "ps = ps'" "s = s'" "\<And>k v s. (k, v) \<in> set ps' \<Longrightarrow> f k v s = f' k v s"
  shows "for_props ps f s = for_props ps' f' s'"
proof -
  have "(\<And>k v s. (k, v) \<in> set ps' \<Longrightarrow> f k v s = f' k v s) \<Longrightarrow> for_props ps' f s' = for_props ps' f' s'"
    by (induction ps' arbitrary: s') (auto simp: rbind_def split: sum.splits)
  with assms show ?thesis by simp
qed

lemma for_props_append: "for_props (ps @ qs) f s = rbind (for_props ps f s) (for_props qs f)"
  by (induction ps arbitrary: s) (auto simp: rbind_def split: sum.splits)

text \<open>An invariant of the loop, with the properties visited so far.\<close>

lemma for_props_invariant:
  assumes "for_props ps f s = Inr t" "P [] s"
    and "\<And>qs k v u u'. P qs u \<Longrightarrow> (k, v) \<in> set ps \<Longrightarrow> f k v u = Inr u' \<Longrightarrow> P (qs @ [(k, v)]) u'"
  shows "P ps t"
proof -
  have "for_props rs f u = Inr t \<Longrightarrow> P qs u \<Longrightarrow> set rs \<subseteq> set ps \<Longrightarrow> P (qs @ rs) t" for qs rs u
  proof (induction rs arbitrary: qs u)
    case (Cons r rs)
    obtain k v where r: "r = (k, v)" by (cases r)
    with Cons.prems obtain u' where u': "f k v u = Inr u'" "for_props rs f u' = Inr t"
      by (auto simp: rbind_Inr_iff)
    then have "P (qs @ [(k, v)]) u'" using Cons.prems r assms(3) by auto
    then have "P ((qs @ [(k, v)]) @ rs) t"
      using Cons.IH[OF u'(2), of "qs @ [(k, v)]"] Cons.prems(3) by auto
    then show ?case using r by simp
  qed simp
  from this[of ps s "[]"] assms(1,2) show ?thesis by simp
qed

lemma for_props_total:
  assumes "P s" "\<And>k v u. P u \<Longrightarrow> (k, v) \<in> set ps \<Longrightarrow> \<exists>u'. f k v u = Inr u' \<and> P u'"
  shows "\<exists>t. for_props ps f s = Inr t \<and> P t"
  using assms
proof (induction ps arbitrary: s)
  case (Cons p ps)
  obtain k v where p: "p = (k, v)" by (cases p)
  have "\<exists>u'. f k v s = Inr u' \<and> P u'" using Cons.prems(1) by (rule Cons.prems(2)) (simp add: p)
  then obtain u where u: "f k v s = Inr u" "P u" by blast
  from u(2) have "\<exists>t. for_props ps f u = Inr t \<and> P t"
    by (rule Cons.IH) (rule Cons.prems(2), simp_all)
  with p u show ?case by simp
qed simp

subsection \<open>Property reads and writes\<close>

text \<open>A canonical array index: the decimal text of an integer below \<open>2 ^ 32 - 1\<close>.\<close>

definition is_index :: "string \<Rightarrow> bool" where
  "is_index k \<longleftrightarrow> k \<noteq> [] \<and> list_all is_digit k \<and> k = int_digits (digits_to_int k)
     \<and> digits_to_int k < 4294967295"

fun insert_index :: "string \<Rightarrow> 'v \<Rightarrow> (string \<times> 'v) list \<Rightarrow> (string \<times> 'v) list" where
  "insert_index k v [] = [(k, v)]"
| "insert_index k v ((k', v') # ps) =
     (if is_index k' \<and> digits_to_int k' < digits_to_int k
      then (k', v') # insert_index k v ps else (k, v) # (k', v') # ps)"

definition put_prop :: "string \<Rightarrow> 'v \<Rightarrow> (string \<times> 'v) list \<Rightarrow> (string \<times> 'v) list" where
  "put_prop k v ps =
     (if lookup_prop ps k \<noteq> None then replace_prop k v ps
      else if is_index k then insert_index k v ps else ps @ [(k, v)])"

definition arr_length :: "(string \<times> 'v) list \<Rightarrow> int" where
  "arr_length ps = fold max (map (\<lambda>(k, _). if is_index k then digits_to_int k + 1 else 0) ps) 0"

fun js_get :: "jsval \<Rightarrow> string \<Rightarrow> jsval result" where
  "js_get Undef k = Inl TypeError"
| "js_get Null k = Inl TypeError"
| "js_get (BoolV b) k = Inr Undef"
| "js_get (NumV n) k = Inr Undef"
| "js_get (StrV s) k =
     Inr (if k = ''length'' then IntV (int (length s))
          else if is_index k \<and> digits_to_int k < int (length s) then StrV [s ! nat (digits_to_int k)]
          else Undef)"
| "js_get (Obj kd ps) k =
     Inr (if kd = Array \<and> k = ''length'' then IntV (arr_length ps)
          else case lookup_prop ps k of None \<Rightarrow> Undef | Some v \<Rightarrow> v)"

fun js_put :: "jsval \<Rightarrow> string \<Rightarrow> jsval \<Rightarrow> jsval result" where
  "js_put Undef k v = Inl TypeError"
| "js_put Null k v = Inl TypeError"
| "js_put (Obj kd ps) k v = Inr (Obj kd (put_prop k v ps))"
| "js_put w k v = Inr w"

text \<open>An object literal: the properties are created from left to right.\<close>

definition mk_obj :: "(string \<times> jsval) list \<Rightarrow> jsval" where
  "mk_obj ps = Obj Plain (fold (\<lambda>(k, v). put_prop k v) ps [])"

definition mk_arr :: "jsval list \<Rightarrow> jsval" where
  "mk_arr vs = Obj Array (map (\<lambda>(i, v). (int_digits (int i), v)) (enumerate 0 vs))"

subsection \<open>Conversions and operators\<close>

fun typeof :: "jsval \<Rightarrow> string" where
  "typeof Undef = ''undefined''"
| "typeof Null = ''object''"
| "typeof (BoolV _) = ''boolean''"
| "typeof (NumV _) = ''number''"
| "typeof (StrV _) = ''string''"
| "typeof (Obj _ _) = ''object''"

fun truthy :: "jsval \<Rightarrow> bool" where
  "truthy Undef = False"
| "truthy Null = False"
| "truthy (BoolV b) = b"
| "truthy (NumV n) = (n \<noteq> NaN \<and> n \<noteq> Fin 0)"
| "truthy (StrV s) = (s \<noteq> [])"
| "truthy (Obj _ _) = True"

fun join_with :: "string \<Rightarrow> string list \<Rightarrow> string" where
  "join_with sep [] = []"
| "join_with sep [x] = x"
| "join_with sep (x # xs) = x @ sep @ join_with sep xs"

fun to_str :: "jsval \<Rightarrow> string" where
  "to_str Undef = ''undefined''"
| "to_str Null = ''null''"
| "to_str (BoolV b) = (if b then ''true'' else ''false'')"
| "to_str (NumV n) = num_to_string n"
| "to_str (StrV s) = s"
| "to_str (Obj kd ps) =
     (case kd of Plain \<Rightarrow> ''[object Object]''
      | Array \<Rightarrow>
         (let es = map (\<lambda>(k, v). (k, if v = Undef \<or> v = Null then [] else to_str v)) ps
          in join_with '','' (map (\<lambda>i. case lookup_prop es (int_digits (int i)) of None \<Rightarrow> [] | Some s \<Rightarrow> s)
                                 [0 ..< nat (arr_length ps)])))"

fun to_number :: "jsval \<Rightarrow> jsnum" where
  "to_number Undef = NaN"
| "to_number Null = Fin 0"
| "to_number (BoolV b) = Fin (if b then 1 else 0)"
| "to_number (NumV n) = n"
| "to_number (StrV s) = str_to_number s"
| "to_number (Obj kd ps) = str_to_number (to_str (Obj kd ps))"

fun to_primitive :: "jsval \<Rightarrow> jsval" where
  "to_primitive (Obj kd ps) = StrV (to_str (Obj kd ps))"
| "to_primitive v = v"

fun is_StrV :: "jsval \<Rightarrow> bool" where
  "is_StrV (StrV _) = True"
| "is_StrV _ = False"

definition js_add :: "jsval \<Rightarrow> jsval \<Rightarrow> jsval" where
  "js_add a b =
     (let p = to_primitive a; q = to_primitive b
      in if is_StrV p \<or> is_StrV q then StrV (to_str p @ to_str q)
         else NumV (num_add (to_number p) (to_number q)))"

definition js_sub :: "jsval \<Rightarrow> jsval \<Rightarrow> jsval" where
  "js_sub a b = NumV (num_sub (to_number a) (to_number b))"

text \<open>
  \<open>a == b\<close>. Two objects are compared by identity; the model compares objects of separate
  origin only, which are never identical.
\<close>

fun js_eq :: "jsval \<Rightarrow> jsval \<Rightarrow> bool" where
  "js_eq Undef b = (b = Undef \<or> b = Null)"
| "js_eq Null b = (b = Undef \<or> b = Null)"
| "js_eq (StrV s) (StrV t) = (s = t)"
| "js_eq (Obj _ _) (Obj _ _) = False"
| "js_eq (StrV s) (Obj kd ps) = (s = to_str (Obj kd ps))"
| "js_eq (Obj kd ps) (StrV s) = (s = to_str (Obj kd ps))"
| "js_eq a b = (if b = Undef \<or> b = Null then False else num_eq (to_number a) (to_number b))"

subsection \<open>Laws of property reads and writes\<close>

text \<open>
  What the code relies on in an object: reading after a write gives the written value and leaves
  every other key alone, and a write keeps the representation invariant.
\<close>

locale prop_map =
  fixes put :: "string \<Rightarrow> 'v \<Rightarrow> 'm \<Rightarrow> 'm"
    and look :: "'m \<Rightarrow> string \<Rightarrow> 'v option"
    and inv :: "'m \<Rightarrow> bool"
  assumes look_put: "look (put k v m) = (look m)(k \<mapsto> v)"
    and inv_put: "inv m \<Longrightarrow> inv (put k v m)"
begin

lemma look_put_same: "look (put k v m) k = Some v"
  by (simp add: look_put)

lemma look_put_other: "k' \<noteq> k \<Longrightarrow> look (put k v m) k' = look m k'"
  by (simp add: look_put)

lemma look_fold_put:
  "look (fold (\<lambda>(k, v). put k v) ps m) = look m ++ map_of (rev ps)"
proof (induction ps arbitrary: m)
  case (Cons p ps)
  then show ?case
    by (cases p) (simp add: look_put map_add_def fun_eq_iff split: option.splits)
qed simp

lemma inv_fold_put: "inv m \<Longrightarrow> inv (fold (\<lambda>(k, v). put k v) ps m)"
  by (induction ps arbitrary: m) (auto simp: inv_put)

lemma put_commute_look: "k \<noteq> k' \<Longrightarrow> look (put k v (put k' v' m)) = look (put k' v' (put k v m))"
  by (simp add: look_put fun_upd_twist)

end

text \<open>The order in which the properties of an object stand.\<close>

definition key_before :: "string \<Rightarrow> string \<Rightarrow> bool" where
  "key_before k k' \<longleftrightarrow> (is_index k' \<longrightarrow> is_index k \<and> digits_to_int k < digits_to_int k')"

definition wf_props :: "(string \<times> 'v) list \<Rightarrow> bool" where
  "wf_props ps \<longleftrightarrow> distinct (map fst ps) \<and> sorted_wrt key_before (map fst ps)"

lemma is_index_inj: "is_index k \<Longrightarrow> is_index k' \<Longrightarrow> digits_to_int k = digits_to_int k' \<Longrightarrow> k = k'"
  by (metis is_index_def)

lemma lookup_insert_index:
  "lookup_prop ps k = None \<Longrightarrow> lookup_prop (insert_index k v ps) = (lookup_prop ps)(k \<mapsto> v)"
  by (induction ps) (auto simp: fun_eq_iff split: if_splits)

lemma lookup_put_prop: "lookup_prop (put_prop k v ps) = (lookup_prop ps)(k \<mapsto> v)"
  unfolding put_prop_def
  by (auto simp: lookup_replace_prop lookup_insert_index lookup_prop_append fun_eq_iff split: option.splits)

lemma set_insert_index: "set (insert_index k v ps) = insert (k, v) (set ps)"
  by (induction ps) (auto split: if_splits)

lemma keys_insert_index: "fst ` set (insert_index k v ps) = insert k (fst ` set ps)"
  by (simp add: set_insert_index)

lemma wf_insert_index:
  "is_index k \<Longrightarrow> k \<notin> fst ` set ps \<Longrightarrow> wf_props ps \<Longrightarrow> wf_props (insert_index k v ps)"
proof (induction ps)
  case (Cons p ps)
  obtain k' v' where p: "p = (k', v')" by (cases p)
  with Cons have ih: "wf_props (insert_index k v ps)" by (auto simp: wf_props_def)
  show ?case
  proof (cases "is_index k' \<and> digits_to_int k' < digits_to_int k")
    case True
    with Cons.prems p ih show ?thesis
      using keys_insert_index[of k v ps]
      by (auto simp: wf_props_def key_before_def image_iff)
  next
    case False
    have "key_before k k''" if "k'' \<in> fst ` set ((k', v') # ps)" for k''
    proof (cases "is_index k'")
      case True
      with False Cons.prems p have "digits_to_int k < digits_to_int k'"
        using is_index_inj[of k k'] by fastforce
      with that Cons.prems p True show ?thesis
        by (fastforce simp: wf_props_def key_before_def)
    next
      case no: False
      with that Cons.prems p show ?thesis
        by (auto simp: wf_props_def key_before_def)
    qed
    with False Cons.prems p show ?thesis
      by (auto simp: wf_props_def)
  qed
qed (simp add: wf_props_def)

lemma wf_put_prop: "wf_props ps \<Longrightarrow> wf_props (put_prop k v ps)"
  unfolding put_prop_def
  by (auto simp: lookup_prop_None_iff intro!: wf_insert_index)
     (auto simp: wf_props_def sorted_wrt_append key_before_def)

interpretation obj: prop_map put_prop lookup_prop wf_props
  by unfold_locales (auto simp: lookup_put_prop wf_put_prop)

lemma js_get_mk_obj:
  "js_get (mk_obj ps) k = Inr (case map_of (rev ps) k of None \<Rightarrow> Undef | Some v \<Rightarrow> v)"
proof -
  have "lookup_prop ([] :: (string \<times> jsval) list) = Map.empty" by auto
  then show ?thesis by (simp add: mk_obj_def obj.look_fold_put)
qed

text \<open>Well-formed values: the invariant holds of every object inside.\<close>

fun wf_val :: "jsval \<Rightarrow> bool" where
  "wf_val (Obj kd ps) = (wf_props ps \<and> list_all (\<lambda>(k, v). wf_val v) ps)"
| "wf_val _ = True"

lemma wf_val_lookup: "wf_val (Obj kd ps) \<Longrightarrow> lookup_prop ps k = Some v \<Longrightarrow> wf_val v"
  by (auto simp: list_all_iff dest: lookup_prop_Some_in)

lemma put_prop_set: "set (put_prop k v ps) \<subseteq> insert (k, v) (set ps)"
proof -
  have "set (replace_prop k v ps) \<subseteq> insert (k, v) (set ps)" for ps
    by (induction ps) (auto split: if_splits)
  then show ?thesis by (auto simp: put_prop_def set_insert_index)
qed

lemma wf_val_put: "wf_val v \<Longrightarrow> wf_val (Obj kd ps) \<Longrightarrow> wf_val (Obj kd (put_prop k v ps))"
  using put_prop_set[of k v ps] by (fastforce simp: wf_put_prop list_all_iff)

lemma js_put_wf: "js_put w k v = Inr w' \<Longrightarrow> wf_val w \<Longrightarrow> wf_val v \<Longrightarrow> wf_val w'"
  by (cases w) (auto simp del: wf_val.simps intro: wf_val_put)

lemma js_get_put:
  "k \<noteq> ''length'' \<Longrightarrow> js_get (Obj kd (put_prop k v ps)) k' =
     (if k' = k then Inr v
      else if kd = Array \<and> k' = ''length'' then js_get (Obj kd (put_prop k v ps)) ''length''
      else js_get (Obj kd ps) k')"
  by (simp add: lookup_put_prop)

text \<open>The value under a key, \<open>undefined\<close> if there is none; the form the loops use.\<close>

definition at_key :: "(string \<times> jsval) list \<Rightarrow> string \<Rightarrow> jsval" where
  "at_key ps k = (case lookup_prop ps k of None \<Rightarrow> Undef | Some v \<Rightarrow> v)"

lemma js_get_plain [simp]: "js_get (Obj Plain ps) k = Inr (at_key ps k)"
  by (simp add: at_key_def)

declare js_get.simps(6) [simp del]

lemma at_key_put [simp]: "at_key (put_prop k v ps) k' = (if k' = k then v else at_key ps k')"
  by (simp add: at_key_def lookup_put_prop)

end
