(* ===== verification/Js_Json.thy ===== *)
theory Js_Json
  imports Js_Value
begin

text \<open>
  \<open>JSON.stringify\<close> and \<open>JSON.parse\<close>. The printer follows the standard's SerializeJSONValue
  (undefined properties are left out, undefined or missing elements and non-finite numbers print as
  \<open>null\<close>); the reader is a recursive descent over the grammar of JSON, with fuel that
  \<open>parse_fuel_enough\<close> shows to be sufficient. The main result is the round trip
  \<open>json_round_trip\<close> on values whose numbers are safe integers.
\<close>

subsection \<open>Printing\<close>

definition hex_char :: "int \<Rightarrow> char" where
  "hex_char d = (if d < 10 then digit_char d else char_of (87 + d))"

definition esc_char :: "char \<Rightarrow> string" where
  "esc_char c =
     (if c = CHR 0x22 then [CHR 0x5C, CHR 0x22]
      else if c = CHR 0x5C then [CHR 0x5C, CHR 0x5C]
      else if c = CHR 0x08 then [CHR 0x5C, CHR ''b'']
      else if c = CHR 0x0C then [CHR 0x5C, CHR ''f'']
      else if c = CHR 0x0A then [CHR 0x5C, CHR ''n'']
      else if c = CHR 0x0D then [CHR 0x5C, CHR ''r'']
      else if c = CHR 0x09 then [CHR 0x5C, CHR ''t'']
      else if (of_char c :: int) < 32
        then [CHR 0x5C, CHR ''u'', CHR ''0'', CHR ''0'', hex_char (of_char c div 16), hex_char (of_char c mod 16)]
      else [c])"

definition json_quote :: "string \<Rightarrow> string" where
  "json_quote s = [CHR 0x22] @ concat (map esc_char s) @ [CHR 0x22]"

fun json_num :: "jsnum \<Rightarrow> string" where
  "json_num (Fin x) = num_to_string (Fin x)"
| "json_num _ = ''null''"

definition json_member :: "string \<times> string option \<Rightarrow> string list" where
  "json_member p = (case p of (k, None) \<Rightarrow> [] | (k, Some t) \<Rightarrow> [json_quote k @ '':'' @ t])"

fun stringify :: "jsval \<Rightarrow> string option" where
  "stringify Undef = None"
| "stringify Null = Some ''null''"
| "stringify (BoolV b) = Some (if b then ''true'' else ''false'')"
| "stringify (NumV n) = Some (json_num n)"
| "stringify (StrV s) = Some (json_quote s)"
| "stringify (Obj kd ps) =
     (let es = map (\<lambda>(k, v). (k, stringify v)) ps
      in case kd of
        Plain \<Rightarrow> Some (''{'' @ join_with '','' (concat (map json_member es)) @ ''}'')
      | Array \<Rightarrow> Some (''['' @ join_with '',''
          (map (\<lambda>i. case lookup_prop es (int_digits (int i)) of Some (Some t) \<Rightarrow> t | _ \<Rightarrow> ''null'')
               [0 ..< nat (arr_length ps)]) @ '']''))"

subsection \<open>Parsing\<close>

definition is_json_ws :: "char \<Rightarrow> bool" where
  "is_json_ws c \<longleftrightarrow> c = CHR 0x20 \<or> c = CHR 0x09 \<or> c = CHR 0x0A \<or> c = CHR 0x0D"

definition skip_ws :: "string \<Rightarrow> string" where
  "skip_ws s = dropWhile is_json_ws s"

definition utf8_unit :: "int \<Rightarrow> string" where
  "utf8_unit n =
     (if n < 128 then [char_of n]
      else if n < 2048 then [char_of (192 + n div 64), char_of (128 + n mod 64)]
      else [char_of (224 + n div 4096), char_of (128 + n div 64 mod 64), char_of (128 + n mod 64)])"

definition unescape :: "char \<Rightarrow> char option" where
  "unescape c =
     (if c = CHR 0x22 \<or> c = CHR 0x5C \<or> c = CHR ''/'' then Some c
      else if c = CHR ''b'' then Some (CHR 0x08)
      else if c = CHR ''f'' then Some (CHR 0x0C)
      else if c = CHR ''n'' then Some (CHR 0x0A)
      else if c = CHR ''r'' then Some (CHR 0x0D)
      else if c = CHR ''t'' then Some (CHR 0x09)
      else None)"

definition hex_ok :: "char \<Rightarrow> bool" where
  "hex_ok c \<longleftrightarrow> radix_val c < 16"

definition add_front :: "string \<Rightarrow> (string \<times> string) option \<Rightarrow> (string \<times> string) option" where
  "add_front p r = map_option (\<lambda>(s, t). (p @ s, t)) r"

text \<open>The body of a string literal, after the opening quote.\<close>

function parse_str :: "string \<Rightarrow> (string \<times> string) option" where
  "parse_str s =
     (case s of [] \<Rightarrow> None
      | c # t \<Rightarrow>
          if c = CHR 0x22 then Some ([], t)
          else if c = CHR 0x5C then
            (case t of [] \<Rightarrow> None
             | e # u \<Rightarrow>
                 if e = CHR ''u'' then
                   (case u of h1 # h2 # h3 # h4 # r \<Rightarrow>
                      if list_all hex_ok [h1, h2, h3, h4] then
                        add_front (utf8_unit (((radix_val h1 * 16 + radix_val h2) * 16 + radix_val h3) * 16 + radix_val h4)) (parse_str r)
                      else None
                    | _ \<Rightarrow> None)
                 else (case unescape e of None \<Rightarrow> None | Some x \<Rightarrow> add_front [x] (parse_str u)))
          else if (of_char c :: int) < 32 then None
          else add_front [c] (parse_str t))"
  by pat_completeness auto
termination
  by (relation "measure length") auto

declare parse_str.simps [simp del]

definition parse_num :: "string \<Rightarrow> (jsval \<times> string) option" where
  "parse_num s =
     (let neg = (s \<noteq> [] \<and> hd s = CHR ''-'');
          (ip, r) = scan_digits (if neg then tl s else s)
      in if ip = [] \<or> (length ip \<noteq> 1 \<and> hd ip = CHR ''0'') then None
         else let dot = (r \<noteq> [] \<and> hd r = CHR ''.'');
                  (fp, r') = (if dot then scan_digits (tl r) else ([], r))
              in if dot \<and> fp = [] then None
                 else case scan_exp r' of None \<Rightarrow> None
                   | Some (e, r'') \<Rightarrow>
                       Some (NumV (to_double ((if neg then - 1 else 1) * dec_value ip fp e)), r''))"

definition parse_word :: "string \<Rightarrow> jsval \<Rightarrow> string \<Rightarrow> (jsval \<times> string) option" where
  "parse_word w v s = (if prefix w s then Some (v, drop (length w) s) else None)"

text \<open>
  \<open>parse_val\<close> reads a value; \<open>parse_members\<close> the members of an object after \<open>{\<close> or a
  comma, \<open>parse_elems\<close> the elements of an array after \<open>[\<close> or a comma, each with what was
  read before.
\<close>

fun parse_val :: "nat \<Rightarrow> string \<Rightarrow> (jsval \<times> string) option"
  and parse_members :: "nat \<Rightarrow> (string \<times> jsval) list \<Rightarrow> string \<Rightarrow> (jsval \<times> string) option"
  and parse_elems :: "nat \<Rightarrow> jsval list \<Rightarrow> string \<Rightarrow> (jsval \<times> string) option"
where
  "parse_val 0 s = None"
| "parse_val (Suc f) s =
     (case skip_ws s of [] \<Rightarrow> None
      | c # t \<Rightarrow>
          if c = CHR ''{'' then
            (case skip_ws t of [] \<Rightarrow> None
             | d # r \<Rightarrow> if d = CHR ''}'' then Some (Obj Plain [], r) else parse_members f [] (d # r))
          else if c = CHR ''['' then
            (case skip_ws t of [] \<Rightarrow> None
             | d # r \<Rightarrow> if d = CHR '']'' then Some (Obj Array [], r) else parse_elems f [] (d # r))
          else if c = CHR 0x22 then map_option (\<lambda>(x, r). (StrV x, r)) (parse_str t)
          else if c = CHR ''t'' then parse_word ''true'' (BoolV True) (c # t)
          else if c = CHR ''f'' then parse_word ''false'' (BoolV False) (c # t)
          else if c = CHR ''n'' then parse_word ''null'' Null (c # t)
          else parse_num (c # t))"
| "parse_members 0 acc s = None"
| "parse_members (Suc f) acc s =
     (case skip_ws s of [] \<Rightarrow> None
      | c # t \<Rightarrow>
          if c \<noteq> CHR 0x22 then None
          else case parse_str t of None \<Rightarrow> None
            | Some (k, r) \<Rightarrow>
                case skip_ws r of [] \<Rightarrow> None
                | d # r1 \<Rightarrow>
                    if d \<noteq> CHR '':'' then None
                    else case parse_val f r1 of None \<Rightarrow> None
                      | Some (v, r2) \<Rightarrow>
                          case skip_ws r2 of [] \<Rightarrow> None
                          | e # r3 \<Rightarrow>
                              if e = CHR '','' then parse_members f (put_prop k v acc) r3
                              else if e = CHR ''}'' then Some (Obj Plain (put_prop k v acc), r3)
                              else None)"
| "parse_elems 0 acc s = None"
| "parse_elems (Suc f) acc s =
     (case parse_val f s of None \<Rightarrow> None
      | Some (v, r) \<Rightarrow>
          case skip_ws r of [] \<Rightarrow> None
          | e # r' \<Rightarrow>
              if e = CHR '','' then parse_elems f (acc @ [v]) r'
              else if e = CHR '']'' then Some (mk_arr (acc @ [v]), r')
              else None)"

definition json_parse :: "string \<Rightarrow> jsval result" where
  "json_parse s =
     (case parse_val (2 * length s + 2) s of
        Some (v, r) \<Rightarrow> if skip_ws r = [] then Inr v else Inl SyntaxError
      | None \<Rightarrow> Inl SyntaxError)"

declare parse_val.simps [simp del] parse_members.simps [simp del] parse_elems.simps [simp del]

subsection \<open>The reader consumes its input, and its fuel is enough\<close>

lemma skip_ws_length: "length (skip_ws s) \<le> length s"
  by (simp add: skip_ws_def length_dropWhile_le)

lemma skip_ws_Cons_length: "skip_ws s = c # t \<Longrightarrow> length t < length s"
  using skip_ws_length[of s] by simp

lemma scan_digits_length: "scan_digits s = (d, r) \<Longrightarrow> length r + length d = length s"
  by (auto simp: scan_digits_def) (metis length_append takeWhile_dropWhile_id add.commute)

lemma scan_exp_length: "scan_exp s = Some (e, r) \<Longrightarrow> length r \<le> length s"
  by (auto simp: scan_exp_def Let_def dest!: scan_digits_length split: list.splits if_splits prod.splits)

lemma parse_num_length: "parse_num s = Some (v, r) \<Longrightarrow> length r < length s"
proof -
  assume a: "parse_num s = Some (v, r)"
  obtain ip q where ip: "scan_digits (if s \<noteq> [] \<and> hd s = CHR ''-'' then tl s else s) = (ip, q)"
    by fastforce
  obtain fp q' where fp: "(if q \<noteq> [] \<and> hd q = CHR ''.'' then scan_digits (tl q) else ([], q)) = (fp, q')"
    by fastforce
  from a ip fp have "ip \<noteq> []" and ex: "\<exists>e. scan_exp q' = Some (e, r)"
    by (auto simp: parse_num_def Let_def split: if_splits option.splits)
  moreover have "length q' \<le> length q"
    using fp scan_digits_length[of "tl q" fp q'] by (auto split: if_splits)
  moreover have "length q + length ip \<le> length s"
    using scan_digits_length[OF ip] by (auto split: if_splits)
  moreover have "length r \<le> length q'"
    using ex scan_exp_length by blast
  ultimately show ?thesis by (cases ip) auto
qed

lemma parse_str_step:
  "parse_str s = Some (x, r) \<Longrightarrow> length r < length s \<or> (\<exists>u y. parse_str u = Some (y, r) \<and> length u < length s)"
  by (subst (asm) parse_str.simps)
    (fastforce simp: add_front_def split: list.splits if_splits option.splits)

lemma parse_str_length: "parse_str s = Some (x, r) \<Longrightarrow> length r < length s"
proof (induction s arbitrary: x rule: measure_induct_rule[of length])
  case (less s)
  from parse_str_step[OF less.prems] less.IH show ?case by fastforce
qed

lemma parse_word_length: "parse_word w v s = Some (x, r) \<Longrightarrow> w \<noteq> [] \<Longrightarrow> length r < length s"
  by (auto simp: parse_word_def prefix_def split: if_splits)

lemma parse_length:
  "(\<forall>s v r. parse_val f s = Some (v, r) \<longrightarrow> length r < length s) \<and>
   (\<forall>acc s v r. parse_members f acc s = Some (v, r) \<longrightarrow> length r < length s) \<and>
   (\<forall>acc s v r. parse_elems f acc s = Some (v, r) \<longrightarrow> length r < length s)"
proof (induction f)
  case 0
  then show ?case by (simp add: parse_val.simps parse_members.simps parse_elems.simps)
next
  case (Suc f)
  have v: "length r < length s" if h: "parse_val (Suc f) s = Some (v, r)" for s v r
  proof -
    from h obtain c t where ct: "skip_ws s = c # t"
      by (auto simp: parse_val.simps split: list.splits)
    have le: "length (c # t) \<le> length s" using skip_ws_length[of s] ct by simp
    have "length r < length (c # t)"
    proof (cases "c = CHR ''{'' \<or> c = CHR ''[''")
      case True
      then obtain d u where du: "skip_ws t = d # u"
        using h ct by (auto simp: parse_val.simps split: list.splits)
      have "length r < length (d # u)"
        using h ct du True Suc.IH by (fastforce simp: parse_val.simps split: if_splits)
      then show ?thesis using skip_ws_length[of t] du by simp
    next
      case False
      then show ?thesis
        using h ct parse_word_length[of "''true''" "BoolV True" "c # t" v r]
          parse_word_length[of "''false''" "BoolV False" "c # t" v r]
          parse_word_length[of "''null''" Null "c # t" v r] parse_num_length[of "c # t" v r]
        by (auto simp: parse_val.simps dest!: parse_str_length split: if_splits)
    qed
    with le show ?thesis by simp
  qed
  have m: "length r < length s" if "parse_members (Suc f) acc s = Some (v, r)" for acc s v r
    using that Suc.IH
    by (fastforce simp: parse_members.simps dest!: skip_ws_Cons_length parse_str_length
        split: list.splits if_splits option.splits)
  have e: "length r < length s" if "parse_elems (Suc f) acc s = Some (v, r)" for acc s v r
    using that Suc.IH
    by (fastforce simp: parse_elems.simps dest!: skip_ws_Cons_length
        split: list.splits if_splits option.splits)
  from v m e show ?case by blast
qed

text \<open>More fuel never changes the result once there is twice the length of the input.\<close>

lemma parse_fuel_step:
  "(\<forall>s. 2 * length s + 1 \<le> f \<longrightarrow> parse_val (Suc f) s = parse_val f s) \<and>
   (\<forall>acc s. 2 * length s \<le> f \<longrightarrow> parse_members (Suc f) acc s = parse_members f acc s) \<and>
   (\<forall>acc s. 2 * length s + 2 \<le> f \<longrightarrow> parse_elems (Suc f) acc s = parse_elems f acc s)"
proof (induction f)
  case 0
  then show ?case by (simp add: parse_val.simps parse_members.simps skip_ws_def)
next
  case (Suc f)
  have ihv: "parse_val (Suc f) s = parse_val f s" if "2 * length s + 1 \<le> f" for s
    using Suc.IH that by blast
  have ihm: "parse_members (Suc f) acc s = parse_members f acc s" if "2 * length s \<le> f" for acc s
    using Suc.IH that by blast
  have ihe: "parse_elems (Suc f) acc s = parse_elems f acc s" if "2 * length s + 2 \<le> f" for acc s
    using Suc.IH that by blast
  have v: "parse_val (Suc (Suc f)) s = parse_val (Suc f) s" if l: "2 * length s + 1 \<le> Suc f" for s
  proof -
    have "parse_members (Suc f) [] (d # r) = parse_members f [] (d # r)"
         "parse_elems (Suc f) [] (d # r) = parse_elems f [] (d # r)"
      if "skip_ws s = c # t" "skip_ws t = d # r" for c t d r
      using l that skip_ws_Cons_length[OF that(1)] skip_ws_Cons_length[OF that(2)]
      by (auto intro!: ihm ihe)
    then show ?thesis
      by (simp add: parse_val.simps(2)[of "Suc f" s] parse_val.simps(2)[of f s] cong: list.case_cong if_cong
          split: list.split)
  qed
  have m: "parse_members (Suc (Suc f)) acc s = parse_members (Suc f) acc s" if l: "2 * length s \<le> Suc f" for acc s
  proof -
    have val: "parse_val (Suc f) r1 = parse_val f r1"
      if "skip_ws s = c # t" "parse_str t = Some (k, r)" "skip_ws r = d # r1" for c t k r d r1
      using l skip_ws_Cons_length[OF that(1)] parse_str_length[OF that(2)] skip_ws_Cons_length[OF that(3)]
      by (auto intro!: ihv)
    have mem: "parse_members (Suc f) a r3 = parse_members f a r3"
      if "skip_ws s = c # t" "parse_str t = Some (k, r)" "skip_ws r = d # r1"
        "parse_val f r1 = Some (v, r2)" "skip_ws r2 = e # r3" for c t k r d r1 v r2 e r3 a
      using l skip_ws_Cons_length[OF that(1)] parse_str_length[OF that(2)] skip_ws_Cons_length[OF that(3)]
        parse_length[of f] that(4) skip_ws_Cons_length[OF that(5)]
      by (intro ihm) fastforce
    show ?thesis
      by (simp add: parse_members.simps(2)[of "Suc f" acc s] parse_members.simps(2)[of f acc s] val mem
          split: list.split option.split)
  qed
  have e: "parse_elems (Suc (Suc f)) acc s = parse_elems (Suc f) acc s" if l: "2 * length s + 2 \<le> Suc f" for acc s
  proof -
    have val: "parse_val (Suc f) s = parse_val f s" using l by (intro ihv) simp
    have elm: "parse_elems (Suc f) a r3 = parse_elems f a r3"
      if "parse_val f s = Some (v, r2)" "skip_ws r2 = e # r3" for v r2 e r3 a
      using l parse_length[of f] that(1) skip_ws_Cons_length[OF that(2)]
      by (intro ihe) fastforce
    show ?thesis
      by (simp add: parse_elems.simps(2)[of "Suc f" acc s] parse_elems.simps(2)[of f acc s] val elm
          split: list.split option.split)
  qed
  from v m e show ?case by blast
qed

lemma parse_fuel_enough:
  assumes "2 * length s + 1 \<le> f" "f \<le> g"
  shows "parse_val g s = parse_val f s"
  using assms(2,1) parse_fuel_step by (induction g rule: dec_induct) (auto simp: le_Suc_eq)

subsection \<open>Reading back a printed string or number\<close>

lemma radix_val_hex_char: "0 \<le> d \<Longrightarrow> d < 16 \<Longrightarrow> radix_val (hex_char d) = d"
  by (auto simp: radix_val_def hex_char_def is_digit_def of_char_digit_char)

lemma radix_val_0 [simp]: "radix_val (CHR ''0'') = 0"
  by code_simp

lemma parse_str_esc: "parse_str (esc_char c @ s) = add_front [c] (parse_str s)"
proof (cases "(of_char c :: int) < 32")
  case True
  have range: "0 \<le> (of_char c :: int)" by (metis of_nat_of_char of_nat_0_le_iff)
  have u: "utf8_unit (of_char c) = [c]" using True by (simp add: utf8_unit_def)
  have "radix_val (hex_char (of_char c div 16)) = of_char c div 16"
       "radix_val (hex_char (of_char c mod 16)) = of_char c mod 16"
    using True range by (auto intro!: radix_val_hex_char)
  then have "(radix_val (hex_char (of_char c div 16)) * 16 + radix_val (hex_char (of_char c mod 16))) = of_char c"
    by simp
  with True u range show ?thesis
    by (subst parse_str.simps) (auto simp: esc_char_def unescape_def hex_ok_def radix_val_hex_char)
next
  case False
  then show ?thesis
    by (subst parse_str.simps) (auto simp: esc_char_def unescape_def)
qed

lemma parse_str_quote: "parse_str (concat (map esc_char s) @ CHR 0x22 # r) = Some (s, r)"
proof (induction s)
  case Nil
  show ?case by (subst parse_str.simps) simp
next
  case (Cons c s)
  then show ?case by (simp add: parse_str_esc add_front_def)
qed

text \<open>What may follow a value inside a printed text.\<close>

definition stops :: "string \<Rightarrow> bool" where
  "stops r \<longleftrightarrow> r = [] \<or> hd r \<in> {CHR '','', CHR ''}'', CHR '']''}"

lemma stops_digit: "stops r \<Longrightarrow> r = [] \<or> \<not> is_digit (hd r)"
  by (auto simp: stops_def is_digit_def)

lemma scan_exp_stops: "stops r \<Longrightarrow> scan_exp r = Some (0, r)"
  by (cases r) (auto simp: stops_def scan_exp_def)

lemma parse_num_nonneg:
  assumes "0 \<le> n" "safe_int n" "stops r"
  shows "parse_num (int_digits n @ r) = Some (IntV n, r)"
proof -
  have sd: "scan_digits (int_digits n @ r) = (int_digits n, r)"
    using assms int_digits_all_digits stops_digit by (intro scan_digits_append) auto
  have "is_digit (hd (int_digits n))"
    using assms(1) int_digits_all_digits[of n "hd (int_digits n)"] by simp
  then have neg: "hd (int_digits n @ r) \<noteq> CHR ''-''"
    by (auto simp: is_digit_def)
  have dot: "\<not> (r \<noteq> [] \<and> hd r = CHR ''.'')"
    using assms(3) by (auto simp: stops_def)
  have zero: "\<not> (length (int_digits n) \<noteq> 1 \<and> hd (int_digits n) = CHR ''0'')"
    using assms(1) hd_int_digits_zero[of n] length_int_digits_single[of n] by auto
  have "to_double (dec_value (int_digits n) [] 0) = num_of_int n"
    using assms(1,2) to_double_safe_int by (simp add: dec_value_def)
  then show ?thesis
    using sd neg dot zero scan_exp_stops[OF assms(3)] by (auto simp: parse_num_def Let_def)
qed

lemma parse_num_neg:
  assumes "n < 0" "safe_int n" "stops r"
  shows "parse_num (CHR ''-'' # int_digits (- n) @ r) = Some (IntV n, r)"
proof -
  have sd: "scan_digits (int_digits (- n) @ r) = (int_digits (- n), r)"
    using assms int_digits_all_digits[of "- n"] stops_digit by (intro scan_digits_append) auto
  have dot: "\<not> (r \<noteq> [] \<and> hd r = CHR ''.'')"
    using assms(3) by (auto simp: stops_def)
  have zero: "\<not> (length (int_digits (- n)) \<noteq> 1 \<and> hd (int_digits (- n)) = CHR ''0'')"
    using assms(1) hd_int_digits_zero[of "- n"] length_int_digits_single[of "- n"] by auto
  have "to_double (- dec_value (int_digits (- n)) [] 0) = num_of_int n"
    using assms(1,2) to_double_safe_int by (simp add: dec_value_def)
  then show ?thesis
    using sd dot zero scan_exp_stops[OF assms(3)] by (auto simp: parse_num_def Let_def)
qed

subsection \<open>Dense arrays and ordered objects are rebuilt as they were\<close>

lemma is_index_int_digits: "0 \<le> n \<Longrightarrow> n < 4294967295 \<Longrightarrow> is_index (int_digits n)"
  using int_digits_all_digits by (auto simp: is_index_def list_all_iff)

abbreviation arr_props :: "'v list \<Rightarrow> (string \<times> 'v) list" where
  "arr_props vs \<equiv> map (\<lambda>(i, v). (int_digits (int i), v)) (enumerate 0 vs)"

lemma arr_length_props: "length vs < 4294967295 \<Longrightarrow> arr_length (arr_props vs) = int (length vs)"
proof (induction vs rule: rev_induct)
  case (snoc v vs)
  then show ?case
    by (simp add: arr_length_def enumerate_append_eq is_index_int_digits)
qed (simp add: arr_length_def)

lemma distinct_arr_props: "distinct (map fst (arr_props vs))"
proof -
  have "map fst (arr_props vs) = map (int_digits \<circ> int) [0 ..< length vs]"
    by (rule nth_equalityI) (simp_all add: nth_enumerate_eq)
  moreover have "inj_on (int_digits \<circ> int) {0 ..< length vs}"
    by (auto simp: inj_on_def int_digits_inj)
  ultimately show ?thesis by (simp add: distinct_map)
qed

lemma lookup_arr_props:
  assumes "i < length vs"
  shows "lookup_prop (arr_props vs) (int_digits (int i)) = Some (vs ! i)"
proof (rule lookup_prop_distinct[OF distinct_arr_props])
  have "arr_props vs ! i = (int_digits (int i), vs ! i)"
    using assms by (simp add: nth_enumerate_eq)
  then show "(int_digits (int i), vs ! i) \<in> set (arr_props vs)"
    using assms by (metis length_enumerate length_map nth_mem)
qed

lemma put_prop_last: "wf_props (acc @ [(k, v)]) \<Longrightarrow> put_prop k v acc = acc @ [(k, v)]"
proof -
  assume wf: "wf_props (acc @ [(k, v)])"
  have "lookup_prop acc k = None"
    using wf by (auto simp: lookup_prop_None_iff wf_props_def)
  moreover have "insert_index k v acc = acc @ [(k, v)]" if "is_index k"
  proof -
    have "\<forall>k' \<in> fst ` set acc. is_index k' \<and> digits_to_int k' < digits_to_int k"
      using wf that by (auto simp: wf_props_def sorted_wrt_append key_before_def)
    then show ?thesis by (induction acc) auto
  qed
  ultimately show ?thesis by (auto simp: put_prop_def)
qed

lemma fold_put_prop_wf:
  "wf_props (acc @ ps) \<Longrightarrow> fold (\<lambda>(k, v). put_prop k v) ps acc = acc @ ps"
proof (induction ps arbitrary: acc)
  case (Cons p ps)
  obtain k v where p: "p = (k, v)" by (cases p)
  have "wf_props (acc @ [(k, v)])"
    using Cons.prems p by (auto simp: wf_props_def sorted_wrt_append)
  then have "put_prop k v acc = acc @ [(k, v)]" by (rule put_prop_last)
  with Cons p show ?case by simp
qed simp

subsection \<open>The round trip\<close>

text \<open>
  The values JSON can carry: no \<open>undefined\<close>, numbers that are safe integers, arrays without
  holes or extra properties.
\<close>

definition int_num :: "jsnum \<Rightarrow> bool" where
  "int_num n = (case n of Fin x \<Rightarrow> x = of_int \<lfloor>x\<rfloor> \<and> safe_int \<lfloor>x\<rfloor> | _ \<Rightarrow> False)"

fun json_ok :: "jsval \<Rightarrow> bool" where
  "json_ok Undef = False"
| "json_ok Null = True"
| "json_ok (BoolV b) = True"
| "json_ok (NumV n) = int_num n"
| "json_ok (StrV s) = True"
| "json_ok (Obj kd ps) =
     (list_all (\<lambda>(k, v). json_ok v) ps \<and>
      (case kd of Plain \<Rightarrow> wf_props ps
       | Array \<Rightarrow> ps = arr_props (map snd ps) \<and> length ps < 4294967295))"

lemma int_num_iff: "int_num n \<longleftrightarrow> (\<exists>i. n = num_of_int i \<and> safe_int i)"
  by (cases n) (auto simp: int_num_def)

definition reads_as :: "string \<Rightarrow> jsval \<Rightarrow> bool" where
  "reads_as t v \<longleftrightarrow> t \<noteq> [] \<and> \<not> is_json_ws (hd t) \<and> \<not> stops t \<and>
     (\<forall>r f. stops r \<longrightarrow> 2 * length (t @ r) + 1 \<le> f \<longrightarrow> parse_val f (t @ r) = Some (v, r))"

lemma skip_ws_id: "t \<noteq> [] \<Longrightarrow> \<not> is_json_ws (hd t) \<Longrightarrow> skip_ws t = t"
  by (cases t) (simp_all add: skip_ws_def)

lemma skip_ws_stops: "stops r \<Longrightarrow> skip_ws r = r"
  by (cases r) (auto simp: skip_ws_def stops_def is_json_ws_def)

lemma reads_asD:
  assumes "reads_as t v" "stops r" "2 * length (t @ r) + 1 \<le> f"
  shows "parse_val f (t @ r) = Some (v, r)"
  using assms unfolding reads_as_def by blast

lemma parse_members_text:
  assumes "\<And>k v. (k, v) \<in> set ps \<Longrightarrow> reads_as (tx v) v" "ps \<noteq> []"
    and "2 * length (join_with '','' (map (\<lambda>(k, v). json_quote k @ '':'' @ tx v) ps) @ CHR ''}'' # r) \<le> f"
  shows "parse_members f acc (join_with '','' (map (\<lambda>(k, v). json_quote k @ '':'' @ tx v) ps) @ CHR ''}'' # r)
    = Some (Obj Plain (fold (\<lambda>(k, v). put_prop k v) ps acc), r)"
  using assms
proof (induction ps arbitrary: f acc)
  case (Cons p ps)
  obtain k v where p: "p = (k, v)" by (cases p)
  let ?tl = "if ps = [] then CHR ''}'' # r
    else CHR '','' # join_with '','' (map (\<lambda>(k, v). json_quote k @ '':'' @ tx v) ps) @ CHR ''}'' # r"
  have eq: "join_with '','' (map (\<lambda>(k, v). json_quote k @ '':'' @ tx v) (p # ps)) @ CHR ''}'' # r
      = CHR 0x22 # concat (map esc_char k) @ CHR 0x22 # CHR '':'' # tx v @ ?tl"
    using p by (cases ps) (auto simp: json_quote_def)
  have st: "stops ?tl" by (auto simp: stops_def)
  obtain g where f: "f = Suc g" using Cons.prems(3) eq by (cases f) auto
  have len: "2 * length (tx v @ ?tl) + 1 \<le> g"
    using Cons.prems(3) unfolding eq f by simp
  have "reads_as (tx v) v" using Cons.prems(1) p by auto
  then have pv: "parse_val g (tx v @ ?tl) = Some (v, ?tl)"
    using st len by (rule reads_asD)
  have ws: "skip_ws (CHR 0x22 # x) = CHR 0x22 # x" "skip_ws (CHR '':'' # x) = CHR '':'' # x" for x
    by (simp_all add: skip_ws_def is_json_ws_def)
  show ?case
  proof (cases "ps = []")
    case True
    then show ?thesis
      using pv p skip_ws_stops[OF st] unfolding eq f
      by (simp add: parse_members.simps ws parse_str_quote)
  next
    case False
    have "parse_members g (put_prop k v acc)
        (join_with '','' (map (\<lambda>(k, v). json_quote k @ '':'' @ tx v) ps) @ CHR ''}'' # r)
        = Some (Obj Plain (fold (\<lambda>(k, v). put_prop k v) ps (put_prop k v acc)), r)"
      using Cons.prems(1) False len by (intro Cons.IH) auto
    then show ?thesis
      using pv p skip_ws_stops[OF st] False unfolding eq f
      by (simp add: parse_members.simps ws parse_str_quote)
  qed
qed simp

lemma parse_elems_text:
  assumes "\<And>v. v \<in> set vs \<Longrightarrow> reads_as (tx v) v" "vs \<noteq> []"
    and "2 * length (join_with '','' (map tx vs) @ CHR '']'' # r) + 2 \<le> f"
  shows "parse_elems f acc (join_with '','' (map tx vs) @ CHR '']'' # r) = Some (mk_arr (acc @ vs), r)"
  using assms
proof (induction vs arbitrary: f acc)
  case (Cons v vs)
  let ?tl = "if vs = [] then CHR '']'' # r else CHR '','' # join_with '','' (map tx vs) @ CHR '']'' # r"
  have eq: "join_with '','' (map tx (v # vs)) @ CHR '']'' # r = tx v @ ?tl"
    by (cases vs) auto
  have st: "stops ?tl" by (auto simp: stops_def)
  obtain g where f: "f = Suc g" using Cons.prems(3) by (cases f) auto
  have len: "2 * length (tx v @ ?tl) + 1 \<le> g"
    using Cons.prems(3) unfolding eq f by simp
  have "reads_as (tx v) v" using Cons.prems(1) by auto
  then have pv: "parse_val g (tx v @ ?tl) = Some (v, ?tl)"
    using st len by (rule reads_asD)
  show ?case
  proof (cases "vs = []")
    case True
    then show ?thesis
      using pv skip_ws_stops[OF st] unfolding eq f by (simp add: parse_elems.simps)
  next
    case False
    have "parse_elems g (acc @ [v]) (join_with '','' (map tx vs) @ CHR '']'' # r)
        = Some (mk_arr ((acc @ [v]) @ vs), r)"
      using Cons.prems(1) False len by (intro Cons.IH) auto
    then show ?thesis
      using pv skip_ws_stops[OF st] False unfolding eq f by (simp add: parse_elems.simps)
  qed
qed simp

lemma stringify_array:
  assumes "length vs < 4294967295" "\<And>v. v \<in> set vs \<Longrightarrow> stringify v = Some (tx v)"
  shows "stringify (Obj Array (arr_props vs)) = Some (''['' @ join_with '','' (map tx vs) @ '']'')"
proof -
  have es: "map (\<lambda>(k, v). (k, stringify v)) (arr_props vs) = arr_props (map stringify vs)"
    by (rule nth_equalityI) (simp_all add: nth_enumerate_eq)
  have "map (\<lambda>i. case lookup_prop (arr_props (map stringify vs)) (int_digits (int i)) of
            Some (Some t) \<Rightarrow> t | _ \<Rightarrow> ''null'') [0 ..< length vs] = map tx vs"
  proof (rule nth_equalityI)
    fix i assume "i < length (map (\<lambda>i. case lookup_prop (arr_props (map stringify vs)) (int_digits (int i)) of
            Some (Some t) \<Rightarrow> t | _ \<Rightarrow> ''null'') [0 ..< length vs])"
    then have i: "i < length vs" by simp
    then have "lookup_prop (arr_props (map stringify vs)) (int_digits (int i)) = Some (Some (tx (vs ! i)))"
      using lookup_arr_props[of i "map stringify vs"] assms(2)[of "vs ! i"] by simp
    with i show "map (\<lambda>i. case lookup_prop (arr_props (map stringify vs)) (int_digits (int i)) of
            Some (Some t) \<Rightarrow> t | _ \<Rightarrow> ''null'') [0 ..< length vs] ! i = map tx vs ! i"
      by simp
  qed simp
  then show ?thesis
    using assms(1) by (simp add: es Let_def arr_length_props del: map_map)
qed

lemma reads_as_word:
  assumes "w \<noteq> []" "\<not> is_json_ws (hd w)" "\<not> stops w"
    and "\<And>r f. parse_val (Suc f) (w @ r) = Some (v, r)"
  shows "reads_as w v"
  using assms unfolding reads_as_def by (metis Suc_eq_plus1 add_leD2 not0_implies_Suc not_less_eq_eq le0)

lemma reads_as_int:
  assumes "safe_int n"
  shows "reads_as (num_to_string (num_of_int n)) (IntV n)"
proof -
  let ?t = "num_to_string (num_of_int n)"
  have t: "?t = (if n < 0 then CHR ''-'' # int_digits (- n) else int_digits n)"
    using num_to_string_int[OF assms] by simp
  have hd: "hd ?t = CHR ''-'' \<or> is_digit (hd ?t)"
    using t int_digits_all_digits[of n "hd (int_digits n)"] by auto
  then have first: "\<not> is_json_ws (hd ?t)" "hd ?t \<notin> {CHR '','', CHR ''}'', CHR '']''}"
      "hd ?t \<notin> {CHR ''{'', CHR ''['', CHR 0x22, CHR ''t'', CHR ''f'', CHR ''n''}"
    by (auto simp: is_json_ws_def is_digit_def)
  have ne: "?t \<noteq> []" using t by auto
  have "parse_val f (?t @ r) = Some (IntV n, r)" if st: "stops r" and len: "2 * length (?t @ r) + 1 \<le> f" for r f
  proof -
    obtain g where f: "f = Suc g" using len by (cases f) auto
    have "parse_num (?t @ r) = Some (IntV n, r)"
      using t parse_num_nonneg[OF _ assms st] parse_num_neg[OF _ assms st] by auto
    moreover obtain c u where "?t @ r = c # u" "c = hd ?t" using ne by (cases ?t) auto
    ultimately show ?thesis
      using first skip_ws_id[of "c # u"] by (auto simp: f parse_val.simps)
  qed
  then show ?thesis
    using ne first by (simp add: reads_as_def stops_def)
qed

lemma reads_as_object:
  assumes "wf_props ps" "\<And>k v. (k, v) \<in> set ps \<Longrightarrow> reads_as (tx v) v"
  shows "reads_as (''{'' @ join_with '','' (map (\<lambda>(k, v). json_quote k @ '':'' @ tx v) ps) @ ''}'') (Obj Plain ps)"
proof -
  let ?j = "join_with '','' (map (\<lambda>(k, v). json_quote k @ '':'' @ tx v) ps)"
  have "parse_val f (CHR ''{'' # ?j @ CHR ''}'' # r) = Some (Obj Plain ps, r)"
    if len: "2 * length (CHR ''{'' # ?j @ CHR ''}'' # r) + 1 \<le> f" for r f
  proof (cases "ps = []")
    case True
    with len show ?thesis
      by (cases f) (simp_all add: parse_val.simps skip_ws_def is_json_ws_def)
  next
    case False
    obtain g where f: "f = Suc g" using len by (cases f) auto
    have "parse_members g [] (?j @ CHR ''}'' # r) = Some (Obj Plain ps, r)"
      using parse_members_text[of ps tx r g "[]"] assms(2) False len fold_put_prop_wf[of "[]" ps] assms(1)
      by (simp add: f)
    moreover obtain u where "?j @ CHR ''}'' # r = CHR 0x22 # u"
      using False by (cases ps; cases "tl ps") (auto simp: json_quote_def)
    ultimately show ?thesis
      by (simp add: f parse_val.simps skip_ws_def is_json_ws_def)
  qed
  then show ?thesis
    by (simp add: reads_as_def is_json_ws_def stops_def)
qed

lemma reads_as_array:
  assumes "\<And>v. v \<in> set vs \<Longrightarrow> reads_as (tx v) v"
  shows "reads_as (''['' @ join_with '','' (map tx vs) @ '']'') (mk_arr vs)"
proof -
  let ?j = "join_with '','' (map tx vs)"
  have "parse_val f (CHR ''['' # ?j @ CHR '']'' # r) = Some (mk_arr vs, r)"
    if len: "2 * length (CHR ''['' # ?j @ CHR '']'' # r) + 1 \<le> f" for r f
  proof (cases "vs = []")
    case True
    with len show ?thesis
      by (cases f) (simp_all add: parse_val.simps skip_ws_def is_json_ws_def mk_arr_def)
  next
    case False
    obtain g where f: "f = Suc g" using len by (cases f) auto
    have "parse_elems g [] (?j @ CHR '']'' # r) = Some (mk_arr vs, r)"
      using parse_elems_text[of vs tx r g "[]"] assms False len by (simp add: f)
    moreover have "reads_as (tx (hd vs)) (hd vs)" using assms False by simp
    then obtain c u where "tx (hd vs) = c # u" "\<not> is_json_ws c" "c \<noteq> CHR '']''"
      by (cases "tx (hd vs)") (auto simp: reads_as_def stops_def)
    then obtain u' where "?j @ CHR '']'' # r = c # u'" "\<not> is_json_ws c" "c \<noteq> CHR '']''"
      using False by (cases vs; cases "tl vs") auto
    ultimately show ?thesis
      by (simp add: f parse_val.simps skip_ws_def is_json_ws_def)
  qed
  then show ?thesis
    by (simp add: reads_as_def is_json_ws_def stops_def)
qed

lemma stringify_reads: "json_ok v \<Longrightarrow> stringify v \<noteq> None \<and> reads_as (the (stringify v)) v"
proof (induction v rule: json_ok.induct)
  case 2
  show ?case by (auto intro!: reads_as_word simp: is_json_ws_def stops_def parse_val.simps skip_ws_def parse_word_def)
next
  case (3 b)
  show ?case by (auto intro!: reads_as_word simp: is_json_ws_def stops_def parse_val.simps skip_ws_def parse_word_def)
next
  case (4 n)
  then show ?case by (auto simp: int_num_iff reads_as_int simp del: num_to_string.simps)
next
  case (5 s)
  have "parse_val (Suc f) (json_quote s @ r) = Some (StrV s, r)" for f r
    by (simp add: json_quote_def parse_val.simps skip_ws_def is_json_ws_def parse_str_quote)
  then show ?case
    by (auto intro!: reads_as_word) (simp_all add: json_quote_def is_json_ws_def stops_def)
next
  case (6 kd ps)
  let ?tx = "\<lambda>v. the (stringify v)"
  have ih: "stringify v = Some (?tx v)" "reads_as (?tx v) v" if "(k, v) \<in> set ps" for k v
    using "6.IH"[OF that refl] "6.prems" that by (auto simp: list_all_iff)
  show ?case
  proof (cases kd)
    case Plain
    have "concat (map json_member (map (\<lambda>(k, v). (k, stringify v)) ps))
        = map (\<lambda>(k, v). json_quote k @ '':'' @ ?tx v) ps"
      using ih(1) by (induction ps) (fastforce simp: json_member_def split: option.splits)+
    then have "stringify (Obj kd ps) = Some (''{'' @ join_with '','' (map (\<lambda>(k, v). json_quote k @ '':'' @ ?tx v) ps) @ ''}'')"
      using Plain by (simp add: Let_def)
    with Plain "6.prems" ih reads_as_object[of ps ?tx] show ?thesis by simp
  next
    case Array
    let ?vs = "map snd ps"
    have ps: "ps = arr_props ?vs" "length ?vs < 4294967295" using Array "6.prems" by auto
    have el: "stringify v = Some (?tx v)" "reads_as (?tx v) v" if "v \<in> set ?vs" for v
      using that ih by auto
    have "stringify (Obj kd ps) = Some (''['' @ join_with '','' (map ?tx ?vs) @ '']'')"
      using stringify_array[OF ps(2), of ?tx] el(1) ps(1) Array by metis
    moreover have "mk_arr ?vs = Obj kd ps" using ps(1) Array by (simp add: mk_arr_def)
    ultimately show ?thesis using reads_as_array[of ?vs ?tx] el(2) by simp
  qed
qed simp

theorem json_round_trip:
  assumes "json_ok v"
  shows "\<exists>t. stringify v = Some t \<and> json_parse t = Inr v"
proof -
  obtain t where t: "stringify v = Some t" "reads_as t v"
    using stringify_reads[OF assms] by auto
  have "parse_val (2 * length t + 2) (t @ []) = Some (v, [])"
    using t(2) by (rule reads_asD) (simp_all add: stops_def)
  with t(1) show ?thesis by (simp add: json_parse_def skip_ws_def)
qed

end
