(* ===== verification/Js_Date.thy ===== *)
theory Js_Date
  imports Js_Text
begin

text \<open>
  The Date type: a time value is a number of milliseconds since the epoch, \<open>None\<close> for an invalid
  date. The calendar functions are those of the standard (DayFromYear, YearFromTime, MakeDay and so
  on), on unbounded integers with \<open>time_clip\<close> where the standard clips. What the standard leaves
  to the host is a parameter: the offset of the local time zone (\<open>LocalTZA\<close>) and the reading of
  date texts that are not in the ISO format.
\<close>

record jsenv =
  tza :: "int \<Rightarrow> bool \<Rightarrow> int"  \<comment> \<open>LocalTZA: the time, and whether it is a UTC time\<close>
  other_date :: "string \<Rightarrow> int option"  \<comment> \<open>Date.parse of a text that is not ISO\<close>

definition ms_per_day :: int where
  "ms_per_day = 86400000"

definition day_of :: "int \<Rightarrow> int" where
  "day_of t = t div ms_per_day"

definition time_within_day :: "int \<Rightarrow> int" where
  "time_within_day t = t mod ms_per_day"

definition day_from_year :: "int \<Rightarrow> int" where
  "day_from_year y =
     365 * (y - 1970) + (y - 1969) div 4 - (y - 1901) div 100 + (y - 1601) div 400"

definition leap :: "int \<Rightarrow> bool" where
  "leap y \<longleftrightarrow> y mod 4 = 0 \<and> (y mod 100 \<noteq> 0 \<or> y mod 400 = 0)"

text \<open>The largest year whose first day is not after day \<open>d\<close>, from an estimate that is off by at most one.\<close>

definition year_of_day :: "int \<Rightarrow> int" where
  "year_of_day d =
     (let y = 1970 + d * 400 div 146097
      in if day_from_year (y + 1) \<le> d then y + 1 else if day_from_year y \<le> d then y else y - 1)"

definition month_start :: "bool \<Rightarrow> int \<Rightarrow> int" where
  "month_start lp m =
     (let k = (if lp then 1 else 0) in
      if m = 0 then 0 else if m = 1 then 31 else if m = 2 then 59 + k else if m = 3 then 90 + k
      else if m = 4 then 120 + k else if m = 5 then 151 + k else if m = 6 then 181 + k
      else if m = 7 then 212 + k else if m = 8 then 243 + k else if m = 9 then 273 + k
      else if m = 10 then 304 + k else if m = 11 then 334 + k else 365 + k)"

definition month_of_day :: "int \<Rightarrow> int" where
  "month_of_day d =
     (let y = year_of_day d; n = d - day_from_year y; s = month_start (leap y) in
      if n < s 1 then 0 else if n < s 2 then 1 else if n < s 3 then 2 else if n < s 4 then 3
      else if n < s 5 then 4 else if n < s 6 then 5 else if n < s 7 then 6 else if n < s 8 then 7
      else if n < s 9 then 8 else if n < s 10 then 9 else if n < s 11 then 10 else 11)"

definition date_of_day :: "int \<Rightarrow> int" where
  "date_of_day d =
     (let y = year_of_day d in d - day_from_year y - month_start (leap y) (month_of_day d) + 1)"

definition make_day :: "int \<Rightarrow> int \<Rightarrow> int \<Rightarrow> int" where
  "make_day y m dt =
     (let ym = y + m div 12 in day_from_year ym + month_start (leap ym) (m mod 12) + dt - 1)"

definition hour_of :: "int \<Rightarrow> int" where "hour_of t = t div 3600000 mod 24"
definition min_of :: "int \<Rightarrow> int" where "min_of t = t div 60000 mod 60"
definition sec_of :: "int \<Rightarrow> int" where "sec_of t = t div 1000 mod 60"
definition ms_of :: "int \<Rightarrow> int" where "ms_of t = t mod 1000"

definition make_time :: "int \<Rightarrow> int \<Rightarrow> int \<Rightarrow> int \<Rightarrow> int" where
  "make_time h m s ms = h * 3600000 + m * 60000 + s * 1000 + ms"

definition time_clip :: "int \<Rightarrow> int option" where
  "time_clip t = (if \<bar>t\<bar> \<le> 8640000000000000 then Some t else None)"

subsection \<open>Local time\<close>

definition local_time :: "jsenv \<Rightarrow> int \<Rightarrow> int" where
  "local_time E t = t + tza E t True"

definition utc :: "jsenv \<Rightarrow> int \<Rightarrow> int" where
  "utc E t = t - tza E t False"

definition on_date :: "(int \<Rightarrow> int) \<Rightarrow> int option \<Rightarrow> jsnum" where
  "on_date f d = (case d of None \<Rightarrow> NaN | Some t \<Rightarrow> num_of_int (f t))"

definition get_full_year :: "jsenv \<Rightarrow> int option \<Rightarrow> jsnum" where
  "get_full_year E = on_date (\<lambda>t. year_of_day (day_of (local_time E t)))"

definition get_month :: "jsenv \<Rightarrow> int option \<Rightarrow> jsnum" where
  "get_month E = on_date (\<lambda>t. month_of_day (day_of (local_time E t)))"

definition get_date :: "jsenv \<Rightarrow> int option \<Rightarrow> jsnum" where
  "get_date E = on_date (\<lambda>t. date_of_day (day_of (local_time E t)))"

definition get_hours :: "jsenv \<Rightarrow> int option \<Rightarrow> jsnum" where
  "get_hours E = on_date (\<lambda>t. hour_of (local_time E t))"

definition get_minutes :: "jsenv \<Rightarrow> int option \<Rightarrow> jsnum" where
  "get_minutes E = on_date (\<lambda>t. min_of (local_time E t))"

definition get_seconds :: "jsenv \<Rightarrow> int option \<Rightarrow> jsnum" where
  "get_seconds E = on_date (\<lambda>t. sec_of (local_time E t))"

definition trunc_rat :: "rat \<Rightarrow> int" where
  "trunc_rat x = (if x < 0 then - \<lfloor>- x\<rfloor> else \<lfloor>x\<rfloor>)"

definition set_date :: "jsenv \<Rightarrow> int option \<Rightarrow> jsnum \<Rightarrow> int option" where
  "set_date E d n =
     (case d of None \<Rightarrow> None
      | Some t \<Rightarrow>
          case n of
            Fin x \<Rightarrow>
              (let l = local_time E t; dy = day_of l
               in time_clip (utc E (make_day (year_of_day dy) (month_of_day dy) (trunc_rat x) * ms_per_day
                                     + time_within_day l)))
          | _ \<Rightarrow> None)"

subsection \<open>The ISO text of a date\<close>

definition pad_int :: "nat \<Rightarrow> int \<Rightarrow> string" where
  "pad_int w n = (let s = int_digits n in replicate (w - length s) (CHR ''0'') @ s)"

definition iso_string :: "int \<Rightarrow> string" where
  "iso_string t =
     (let d = day_of t; y = year_of_day d
      in (if 0 \<le> y \<and> y \<le> 9999 then pad_int 4 y
          else if y < 0 then ''-'' @ pad_int 6 (- y) else ''+'' @ pad_int 6 y)
         @ ''-'' @ pad_int 2 (month_of_day d + 1) @ ''-'' @ pad_int 2 (date_of_day d)
         @ ''T'' @ pad_int 2 (hour_of t) @ '':'' @ pad_int 2 (min_of t) @ '':'' @ pad_int 2 (sec_of t)
         @ ''.'' @ pad_int 3 (ms_of t) @ ''Z'')"

definition field :: "nat \<Rightarrow> nat \<Rightarrow> string \<Rightarrow> string" where
  "field i n s = take n (drop i s)"

text \<open>The format \<open>YYYY-MM-DDTHH:mm:ss.sssZ\<close> that \<open>toISOString\<close> prints.\<close>

definition iso_parse :: "string \<Rightarrow> int option" where
  "iso_parse s =
     (let y = field 0 4 s; mo = field 5 2 s; d = field 8 2 s; h = field 11 2 s; mi = field 14 2 s;
          se = field 17 2 s; ms = field 20 3 s
      in if length s = 24 \<and> s ! 4 = CHR ''-'' \<and> s ! 7 = CHR ''-'' \<and> s ! 10 = CHR ''T'' \<and> s ! 13 = CHR '':''
            \<and> s ! 16 = CHR '':'' \<and> s ! 19 = CHR ''.'' \<and> s ! 23 = CHR ''Z''
            \<and> list_all is_digit (y @ mo @ d @ h @ mi @ se @ ms)
         then let yy = digits_to_int y; mm = digits_to_int mo - 1; dd = digits_to_int d; hh = digits_to_int h;
                  mn = digits_to_int mi; ss = digits_to_int se
              in if 0 \<le> mm \<and> mm < 12 \<and> 1 \<le> dd \<and> dd \<le> month_start (leap yy) (mm + 1) - month_start (leap yy) mm
                    \<and> hh < 24 \<and> mn < 60 \<and> ss < 60
                 then Some (make_day yy mm dd * ms_per_day + make_time hh mn ss (digits_to_int ms))
                 else None
         else None)"

definition date_parse :: "jsenv \<Rightarrow> string \<Rightarrow> int option" where
  "date_parse E s = (case iso_parse s of Some t \<Rightarrow> Some t | None \<Rightarrow> other_date E s)"

subsection \<open>The calendar\<close>

lemma div_succ: "0 < k \<Longrightarrow> (n + 1) div k = n div k + (if (n + 1) mod k = 0 then 1 else 0)" for n k :: int
proof -
  assume k: "0 < k"
  let ?q = "n div k" and ?r = "n mod k"
  have n: "n = k * ?q + ?r" "0 \<le> ?r" "?r < k" using k by simp_all
  show ?thesis
  proof (cases "?r + 1 = k")
    case True
    then have "n + 1 = k * ?q + k" using n(1) by linarith
    then have "n + 1 = k * (?q + 1)" by (simp add: distrib_left)
    with k show ?thesis by simp
  next
    case False
    with n have r: "0 \<le> ?r + 1" "?r + 1 < k" by linarith+
    have e: "n + 1 = k * ?q + (?r + 1)" using n(1) by linarith
    then have "(n + 1) div k = ?q" using r by (intro int_div_pos_eq[of _ _ _ "?r + 1"]) auto
    moreover have "(n + 1) mod k = ?r + 1" using e r by (intro int_mod_pos_eq[of _ _ ?q]) auto
    ultimately show ?thesis using n(2) by simp
  qed
qed

lemma mod_shift: "(y + c * k) mod k = y mod k" for y c k :: int
  by simp

lemma day_from_year_succ: "day_from_year (y + 1) = day_from_year y + (if leap y then 366 else 365)"
proof -
  have a: "(y + 1 - 1969) div 4 = (y - 1969) div 4 + (if y mod 4 = 0 then 1 else 0)"
    using div_succ[of 4 "y - 1969"] mod_shift[of y "- 492" 4] by simp
  have b: "(y + 1 - 1901) div 100 = (y - 1901) div 100 + (if y mod 100 = 0 then 1 else 0)"
    using div_succ[of 100 "y - 1901"] mod_shift[of y "- 19" 100] by simp
  have c: "(y + 1 - 1601) div 400 = (y - 1601) div 400 + (if y mod 400 = 0 then 1 else 0)"
    using div_succ[of 400 "y - 1601"] mod_shift[of y "- 4" 400] by simp
  have "y mod 100 = 0 \<Longrightarrow> y mod 4 = 0"
    using dvd_trans[of 4 100 y] by (simp add: mod_eq_0_iff_dvd)
  moreover have "y mod 400 = 0 \<Longrightarrow> y mod 100 = 0"
    using dvd_trans[of 100 400 y] by (simp add: mod_eq_0_iff_dvd)
  moreover define A B C where "A = (y - 1969) div 4" and "B = (y - 1901) div 100" and "C = (y - 1601) div 400"
  have "day_from_year (y + 1) = 365 * (y + 1 - 1970) + (A + (if y mod 4 = 0 then 1 else 0))
      - (B + (if y mod 100 = 0 then 1 else 0)) + (C + (if y mod 400 = 0 then 1 else 0))"
    unfolding day_from_year_def a b c A_def B_def C_def by (rule refl)
  moreover have "day_from_year y = 365 * (y - 1970) + A - B + C"
    unfolding day_from_year_def A_def B_def C_def by (rule refl)
  moreover define P Q R where "P \<longleftrightarrow> y mod 4 = 0" and "Q \<longleftrightarrow> y mod 100 = 0" and "R \<longleftrightarrow> y mod 400 = 0"
  ultimately show ?thesis unfolding leap_def P_def[symmetric] Q_def[symmetric] R_def[symmetric]
    by (cases P; cases Q; cases R; simp only: simp_thms if_True if_False; simp)
qed

lemma div_bounds: "0 < k \<Longrightarrow> k * (n div k) \<le> n" "0 < k \<Longrightarrow> n < k * (n div k) + k" for n k :: int
  using mult_div_mod_eq[of k n] pos_mod_sign[of k n] pos_mod_bound[of k n] by linarith+

lemma day_from_year_bounds:
  shows day_from_year_lower: "146097 * (y - 1970) - 506 \<le> 400 * day_from_year y"
    and day_from_year_upper: "400 * day_from_year y \<le> 146097 * (y - 1970) + 589"
proof -
  define a b c where "a = (y - 1969) div 4" and "b = (y - 1901) div 100" and "c = (y - 1601) div 400"
  have "4 * a \<le> y - 1969" "y - 1969 < 4 * a + 4" "100 * b \<le> y - 1901" "y - 1901 < 100 * b + 100"
    "400 * c \<le> y - 1601" "y - 1601 < 400 * c + 400"
    unfolding a_def b_def c_def by (rule div_bounds, simp)+
  note div = this
  have d: "day_from_year y = 365 * (y - 1970) + a - b + c"
    unfolding day_from_year_def a_def b_def c_def by (rule refl)
  show "146097 * (y - 1970) - 506 \<le> 400 * day_from_year y"
    using div(2,3,6) unfolding d right_diff_distrib distrib_left by linarith
  show "400 * day_from_year y \<le> 146097 * (y - 1970) + 589"
    using div(1,4,5) unfolding d right_diff_distrib distrib_left by linarith
qed

theorem year_of_day_correct: "day_from_year (year_of_day d) \<le> d \<and> d < day_from_year (year_of_day d + 1)"
proof -
  define e where "e = d * 400 div 146097"
  have e: "146097 * e \<le> d * 400" "d * 400 < 146097 * e + 146097"
    unfolding e_def by (rule div_bounds, simp)+
  have hi: "d < day_from_year (1970 + e + 2)"
    using e day_from_year_lower[of "1970 + e + 2"] by simp
  have lo: "day_from_year (1970 + e - 1) \<le> d"
    using e day_from_year_upper[of "1970 + e - 1"] by simp
  show ?thesis
    using hi lo unfolding year_of_day_def e_def[symmetric] Let_def by (auto simp: add.assoc)
qed

lemma day_in_year: "0 \<le> d - day_from_year (year_of_day d)"
  "d - day_from_year (year_of_day d) < (if leap (year_of_day d) then 366 else 365)"
  using year_of_day_correct[of d] day_from_year_succ[of "year_of_day d"] by auto

lemma month_of_day_bounds:
  "0 \<le> month_of_day d" "month_of_day d < 12"
  "month_start (leap (year_of_day d)) (month_of_day d) \<le> d - day_from_year (year_of_day d)"
  "d - day_from_year (year_of_day d) < month_start (leap (year_of_day d)) (month_of_day d + 1)"
proof -
  let ?s = "month_start (leap (year_of_day d))"
  define n where "n = d - day_from_year (year_of_day d)"
  have m: "month_of_day d =
     (if n < ?s 1 then 0 else if n < ?s 2 then 1 else if n < ?s 3 then 2 else if n < ?s 4 then 3
      else if n < ?s 5 then 4 else if n < ?s 6 then 5 else if n < ?s 7 then 6 else if n < ?s 8 then 7
      else if n < ?s 9 then 8 else if n < ?s 10 then 9 else if n < ?s 11 then 10 else 11)"
    by (simp add: month_of_day_def n_def Let_def)
  have "?s 0 \<le> n" "n < ?s 12"
    using day_in_year[of d] unfolding n_def[symmetric] by (auto simp: month_start_def split: if_splits)
  then show "0 \<le> month_of_day d" "month_of_day d < 12"
    "?s (month_of_day d) \<le> d - day_from_year (year_of_day d)" "d - day_from_year (year_of_day d) < ?s (month_of_day d + 1)"
    unfolding m n_def[symmetric] by simp_all
qed

lemma month_length_le_31:
  assumes "0 \<le> m" "m < 12"
  shows "month_start lp (m + 1) - month_start lp m \<le> 31"
proof -
  have "m = 0 \<or> m = 1 \<or> m = 2 \<or> m = 3 \<or> m = 4 \<or> m = 5 \<or> m = 6 \<or> m = 7 \<or> m = 8 \<or> m = 9 \<or> m = 10 \<or> m = 11"
    using assms by presburger
  then show ?thesis by (elim disjE) (simp_all add: month_start_def)
qed

theorem make_day_civil: "make_day (year_of_day d) (month_of_day d) n = d + n - date_of_day d"
  using month_of_day_bounds[of d] by (simp add: make_day_def date_of_day_def Let_def)

lemma date_of_day_bounds: "1 \<le> date_of_day d"
  "date_of_day d \<le> month_start (leap (year_of_day d)) (month_of_day d + 1) - month_start (leap (year_of_day d)) (month_of_day d)"
  using month_of_day_bounds[of d] by (simp_all add: date_of_day_def Let_def)

lemma date_of_day_le_31: "date_of_day d \<le> 31"
  using date_of_day_bounds(2)[of d]
    month_length_le_31[OF month_of_day_bounds(1,2)[of d], of "leap (year_of_day d)"] by simp

lemma time_split: "day_of t * ms_per_day + make_time (hour_of t) (min_of t) (sec_of t) (ms_of t) = t"
proof -
  define s m h where "s = t div 1000" and "m = s div 60" and "h = m div 60"
  define a b c e where "a = t mod 1000" and "b = s mod 60" and "c = m mod 60" and "e = h mod 24"
  have "m = t div (1000 * 60)" "h = t div (1000 * 60 * 60)" "h div 24 = t div (1000 * 60 * 60 * 24)"
    unfolding s_def m_def h_def by (simp_all only: zdiv_zmult2_eq)
  then have q: "t div 60000 = m" "t div 3600000 = h" "t div 86400000 = h div 24"
    by simp_all
  have "t = 1000 * s + a" "s = 60 * m + b" "m = 60 * h + c" "h = 24 * (h div 24) + e"
    unfolding s_def m_def h_def a_def b_def c_def e_def by (simp_all only: mult_div_mod_eq)
  then have "h div 24 * 86400000 + (e * 3600000 + c * 60000 + b * 1000 + a) = t"
    by linarith
  then show ?thesis
    unfolding day_of_def ms_per_day_def make_time_def hour_of_def min_of_def sec_of_def ms_of_def q
      s_def[symmetric] a_def[symmetric] b_def[symmetric] c_def[symmetric] e_def[symmetric] .
qed

subsection \<open>Moving by days in local time\<close>

text \<open>
  \<open>d.setDate(d.getDate() + k)\<close> moves the local calendar day by \<open>k\<close>, where converting a local
  time to UTC and back stays on the same day (a daylight saving change does).
\<close>

definition day_stable :: "jsenv \<Rightarrow> bool" where
  "day_stable E \<longleftrightarrow> (\<forall>l. day_of (local_time E (utc E l)) = day_of l)"

lemma trunc_rat_of_int [simp]: "trunc_rat (of_int n) = n"
  by (simp add: trunc_rat_def floor_minus)

lemma set_date_day:
  assumes "set_date E (Some t) (num_of_int (date_of_day (day_of (local_time E t)) + k)) = Some t'" "day_stable E"
  shows "day_of (local_time E t') = day_of (local_time E t) + k"
proof -
  let ?l = "local_time E t" and ?d = "day_of (local_time E t)"
  have md: "make_day (year_of_day ?d) (month_of_day ?d) (date_of_day ?d + k) = ?d + k"
    by (simp add: make_day_civil)
  have t': "t' = utc E ((?d + k) * ms_per_day + time_within_day ?l)"
    using assms(1) md
    by (simp add: set_date_def Let_def time_clip_def del: of_int_add split: if_splits)
  have "day_of ((?d + k) * ms_per_day + time_within_day ?l) = ?d + k"
    by (simp add: day_of_def time_within_day_def ms_per_day_def)
  with t' assms(2) show ?thesis by (simp add: day_stable_def)
qed

subsection \<open>The ISO text reads back\<close>

lemma digits_to_int_zeros: "digits_to_int (replicate n (CHR ''0'') @ s) = digits_to_int s"
proof (induction n)
  case (Suc n)
  have "digit_val (CHR ''0'') = 0" by code_simp
  with Suc show ?case by (simp add: digits_to_int_def)
qed simp

lemma length_int_digits: "0 \<le> n \<Longrightarrow> n < 10 ^ Suc w \<Longrightarrow> length (int_digits n) \<le> Suc w"
proof (induction w arbitrary: n)
  case 0
  then show ?case by (subst int_digits.simps) simp
next
  case (Suc w)
  show ?case
  proof (cases "n < 10")
    case False
    have "n div 10 < 10 ^ Suc w" using Suc.prems by (simp add: div_less_iff_less_mult)
    then have "length (int_digits (n div 10)) \<le> Suc w" using Suc by simp
    with False show ?thesis by (subst int_digits.simps) simp
  qed (subst int_digits.simps, simp)
qed

lemma pad_int_props:
  assumes "0 \<le> n" "n < 10 ^ Suc w"
  shows "length (pad_int (Suc w) n) = Suc w" "list_all is_digit (pad_int (Suc w) n)"
    "digits_to_int (pad_int (Suc w) n) = n"
proof -
  have z: "is_digit (CHR ''0'')" by code_simp
  show "length (pad_int (Suc w) n) = Suc w"
    using length_int_digits[OF assms] by (simp add: pad_int_def Let_def)
  show "list_all is_digit (pad_int (Suc w) n)"
    using int_digits_all_digits[OF assms(1)] z by (auto simp: pad_int_def Let_def list_all_iff)
  show "digits_to_int (pad_int (Suc w) n) = n"
    using assms(1) by (simp add: pad_int_def Let_def digits_to_int_zeros)
qed

lemma pad_int_2:
  assumes "0 \<le> n" "n < 100"
  shows "length (pad_int 2 n) = 2" "list_all is_digit (pad_int 2 n)" "digits_to_int (pad_int 2 n) = n"
  using pad_int_props[of n 1] assms by (simp_all add: numeral_2_eq_2)

lemma iso_parse_fields:
  assumes "length y = 4" "length mo = 2" "length d = 2" "length h = 2" "length mi = 2" "length se = 2" "length ms = 3"
    and "list_all is_digit (y @ mo @ d @ h @ mi @ se @ ms)"
    and "0 \<le> digits_to_int mo - 1" "digits_to_int mo - 1 < 12" "1 \<le> digits_to_int d"
    and "digits_to_int d \<le> month_start (leap (digits_to_int y)) (digits_to_int mo) - month_start (leap (digits_to_int y)) (digits_to_int mo - 1)"
    and "digits_to_int h < 24" "digits_to_int mi < 60" "digits_to_int se < 60"
  shows "iso_parse (y @ ''-'' @ mo @ ''-'' @ d @ ''T'' @ h @ '':'' @ mi @ '':'' @ se @ ''.'' @ ms @ ''Z'') =
    Some (make_day (digits_to_int y) (digits_to_int mo - 1) (digits_to_int d) * ms_per_day
      + make_time (digits_to_int h) (digits_to_int mi) (digits_to_int se) (digits_to_int ms))"
  using assms by (simp add: iso_parse_def field_def nth_append Let_def)

theorem iso_round_trip:
  assumes "0 \<le> year_of_day (day_of t)" "year_of_day (day_of t) \<le> 9999"
  shows "iso_parse (iso_string t) = Some t"
proof -
  let ?d = "day_of t"
  note m = month_of_day_bounds[of ?d] and d = date_of_day_bounds[of ?d] date_of_day_le_31[of ?d]
  have h: "0 \<le> hour_of t" "hour_of t < 24" "0 \<le> min_of t" "min_of t < 60" "0 \<le> sec_of t" "sec_of t < 60"
    "0 \<le> ms_of t" "ms_of t < 1000"
    by (simp_all add: hour_of_def min_of_def sec_of_def ms_of_def)
  note y4 = pad_int_props[of "year_of_day ?d" 3, simplified]
    and ms3 = pad_int_props[of "ms_of t" 2, simplified]
  have "iso_parse (iso_string t) = Some (make_day (year_of_day ?d) (month_of_day ?d) (date_of_day ?d) * ms_per_day
      + make_time (hour_of t) (min_of t) (sec_of t) (ms_of t))"
    unfolding iso_string_def Let_def if_P[OF conjI[OF assms]]
    using assms m d h
    by (subst iso_parse_fields) (simp_all add: y4 pad_int_2 ms3)
  then show ?thesis by (simp add: make_day_civil time_split)
qed

end
