(* ===== verification/Node_Path.thy ===== *)
theory Node_Path
  imports Js_Text
begin

text \<open>
  \<open>path.join\<close> and \<open>path.normalize\<close> of Node on POSIX paths: empty and \<open>.\<close> segments vanish,
  \<open>..\<close> removes the segment before it, and stays only at the front of a relative path.
\<close>

fun norm_segs :: "bool \<Rightarrow> string list \<Rightarrow> string list \<Rightarrow> string list" where
  "norm_segs up res [] = rev res"
| "norm_segs up res (s # ss) =
     (if s = [] \<or> s = ''.'' then norm_segs up res ss
      else if s = ''..'' then
        (case res of
           r # rs \<Rightarrow> if r = ''..'' then norm_segs up (if up then s # res else res) ss
                      else norm_segs up rs ss
         | [] \<Rightarrow> norm_segs up (if up then [s] else []) ss)
      else norm_segs up (s # res) ss)"

fun join_segs :: "string list \<Rightarrow> string" where
  "join_segs [] = []"
| "join_segs [s] = s"
| "join_segs (s # ss) = s @ ''/'' @ join_segs ss"

definition path_normalize :: "string \<Rightarrow> string" where
  "path_normalize p =
     (if p = [] then ''.''
      else let absolute = (hd p = CHR ''/''); trail = (last p = CHR ''/'');
               q = join_segs (norm_segs (\<not> absolute) [] (split_on (CHR ''/'') p));
               q' = (if q = [] \<and> \<not> absolute then ''.'' else q);
               q'' = (if q \<noteq> [] \<and> trail \<or> q = [] \<and> \<not> absolute \<and> trail then q' @ ''/'' else q')
           in if absolute then ''/'' @ q'' else q'')"

definition path_join :: "string list \<Rightarrow> string" where
  "path_join ps =
     (let qs = filter (\<lambda>p. p \<noteq> []) ps
      in if qs = [] then ''.'' else path_normalize (join_segs qs))"

lemma norm_segs_plain:
  "list_all (\<lambda>s. s \<noteq> [] \<and> s \<noteq> ''.'' \<and> s \<noteq> ''..'') ss \<Longrightarrow> norm_segs up res ss = rev res @ ss"
  by (induction ss arbitrary: res) auto

lemma split_join_segs:
  "ss \<noteq> [] \<Longrightarrow> list_all (\<lambda>s. CHR ''/'' \<notin> set s) ss \<Longrightarrow> split_on (CHR ''/'') (join_segs ss) = ss"
  by (induction ss rule: join_segs.induct) (auto simp: split_on_append split_on_no_sep)

text \<open>A segment that is a plain file name.\<close>

definition plain_name :: "string \<Rightarrow> bool" where
  "plain_name s \<longleftrightarrow> s \<noteq> [] \<and> s \<noteq> ''.'' \<and> s \<noteq> ''..'' \<and> CHR ''/'' \<notin> set s"

lemma join_segs_eq_Nil: "list_all plain_name ss \<Longrightarrow> join_segs ss = [] \<longleftrightarrow> ss = []"
  by (induction ss rule: join_segs.induct) (auto simp: plain_name_def)

lemma hd_join_segs: "list_all plain_name ss \<Longrightarrow> ss \<noteq> [] \<Longrightarrow> hd (join_segs ss) \<noteq> CHR ''/''"
  by (induction ss rule: join_segs.induct) (auto simp: plain_name_def neq_Nil_conv)

lemma last_join_segs: "list_all plain_name ss \<Longrightarrow> ss \<noteq> [] \<Longrightarrow> last (join_segs ss) \<noteq> CHR ''/''"
proof (induction ss rule: join_segs.induct)
  case (2 s)
  then have "s \<noteq> []" "CHR ''/'' \<notin> set s" by (simp_all add: plain_name_def)
  then have "last s \<noteq> CHR ''/''" using last_in_set by metis
  then show ?case by simp
next
  case (3 s v va)
  moreover have "join_segs (v # va) \<noteq> []"
    using 3 by (subst join_segs_eq_Nil) auto
  ultimately show ?case by simp
qed simp

text \<open>Plain names are joined with slashes and nothing else happens.\<close>

lemma path_join_plain:
  assumes "list_all plain_name ss" "ss \<noteq> []"
  shows "path_join ss = join_segs ss"
proof -
  have f: "filter (\<lambda>p. p \<noteq> []) ss = ss"
    using assms(1) by (auto simp: filter_id_conv plain_name_def list_all_iff)
  have ne: "join_segs ss \<noteq> []" using assms by (simp add: join_segs_eq_Nil)
  have sp: "split_on (CHR ''/'') (join_segs ss) = ss"
    using assms by (intro split_join_segs) (auto simp: plain_name_def list_all_iff)
  have ns: "norm_segs True [] ss = ss"
    using assms(1) norm_segs_plain[of ss True "[]"] by (auto simp: plain_name_def list_all_iff)
  show ?thesis
    using f ne sp ns hd_join_segs[OF assms] last_join_segs[OF assms] assms(2)
    by (simp add: path_join_def path_normalize_def Let_def)
qed

text \<open>The same under an absolute directory given by its segments.\<close>

lemma path_join_absolute:
  assumes "list_all plain_name ds" "list_all plain_name ss" "ss \<noteq> []"
  shows "path_join ((CHR ''/'' # join_segs ds) # ss) = CHR ''/'' # join_segs (ds @ ss)"
proof -
  have f: "filter (\<lambda>p. p \<noteq> []) ss = ss"
    using assms(2) by (auto simp: filter_id_conv plain_name_def list_all_iff)
  let ?p = "CHR ''/'' # join_segs ds"
  have j: "join_segs (?p # ss) = CHR ''/'' # (join_segs ds @ CHR ''/'' # join_segs ss)"
    using assms(3) by (cases ss) auto
  have all: "list_all plain_name (ds @ ss)" using assms by simp
  have nosl: "list_all (\<lambda>s. CHR ''/'' \<notin> set s) ds" "list_all (\<lambda>s. CHR ''/'' \<notin> set s) ss"
    using assms by (auto simp: plain_name_def list_all_iff)
  have sp: "split_on (CHR ''/'') (join_segs ds @ CHR ''/'' # join_segs ss) = (if ds = [] then [[]] else ds) @ ss"
    using nosl assms(3)
  proof (induction ds rule: join_segs.induct)
    case 1
    then show ?case by (simp add: split_join_segs)
  qed (auto simp: split_on_append split_join_segs)
  have "list_all (\<lambda>s. s \<noteq> [] \<and> s \<noteq> ''.'' \<and> s \<noteq> ''..'') (ds @ ss)"
    using all by (simp add: plain_name_def list_all_iff)
  then have "norm_segs False [] (ds @ ss) = ds @ ss"
    by (simp add: norm_segs_plain)
  then have "norm_segs False [] ([] # (if ds = [] then [[]] else ds) @ ss) = ds @ ss"
    by (cases "ds = []") simp_all
  moreover have "join_segs (ds @ ss) \<noteq> []" using all assms(3) by (simp add: join_segs_eq_Nil)
  moreover have "last (join_segs ds @ CHR ''/'' # join_segs ss) \<noteq> CHR ''/''"
    using last_join_segs[OF assms(2,3)] join_segs_eq_Nil[OF assms(2)] assms(3) by simp
  ultimately show ?thesis
    using f j sp assms(3) by (simp add: path_join_def path_normalize_def Let_def)
qed

end
