(* ===== verification/Monitor_Stats.thy ===== *)
theory Monitor_Stats
  imports Js_Json Js_Date Node_Path
begin

text \<open>
  The statistics half of \<open>tools/monitor/monitor.js\<close>: adding and subtracting statistics objects
  (\<open>accumulateObj\<close>, \<open>subtractObj\<close>), the zero template (\<open>cloneObjTemplate\<close>), the names of
  the daily log files, and the two readers of those logs (\<open>parseDailyStat\<close> with
  \<open>getDailyStats\<close>, and \<open>getStatsOfDay\<close>).

  A function that changes an object through a reference returns the changed object. Where an
  exception may leave an object half changed, the result is the object and the exception.
\<close>

type_synonym 's outcome = "'s \<times> jserr option"

fun for_in :: "(string \<times> 'v) list \<Rightarrow> (string \<Rightarrow> 'v \<Rightarrow> 's \<Rightarrow> 's outcome) \<Rightarrow> 's \<Rightarrow> 's outcome" where
  "for_in [] f s = (s, None)"
| "for_in ((k, v) # ps) f s = (case f k v s of (s', None) \<Rightarrow> for_in ps f s' | (s', Some e) \<Rightarrow> (s', Some e))"

lemma for_in_cong [fundef_cong]:
  assumes "ps = ps'" "s = s'" "\<And>k v s. (k, v) \<in> set ps' \<Longrightarrow> f k v s = f' k v s"
  shows "for_in ps f s = for_in ps' f' s'"
proof -
  have "(\<And>k v s. (k, v) \<in> set ps' \<Longrightarrow> f k v s = f' k v s) \<Longrightarrow> for_in ps' f s' = for_in ps' f' s'"
  proof (induction ps' arbitrary: s')
    case (Cons p ps)
    obtain k v where p: "p = (k, v)" by (cases p)
    have "f k v s' = f' k v s'" by (rule Cons.prems) (simp add: p)
    moreover have "for_in ps f u = for_in ps f' u" for u
      by (rule Cons.IH) (rule Cons.prems, simp)
    ultimately show ?case by (simp add: p)
  qed simp
  with assms show ?thesis by simp
qed

text \<open>Reads and writes on a value that is known not to be \<open>undefined\<close> or \<open>null\<close>.\<close>

definition prop_of :: "jsval \<Rightarrow> string \<Rightarrow> jsval" where
  "prop_of w k = (case js_get w k of Inr v \<Rightarrow> v | Inl _ \<Rightarrow> Undef)"

definition with_prop :: "jsval \<Rightarrow> string \<Rightarrow> jsval \<Rightarrow> jsval" where
  "with_prop w k v = (case js_put w k v of Inr w' \<Rightarrow> w' | Inl _ \<Rightarrow> w)"

text \<open>The object that property \<open>k\<close> refers to was changed from \<open>old\<close> to \<open>new\<close>.\<close>

definition store_back :: "jsval \<Rightarrow> string \<Rightarrow> jsval \<Rightarrow> jsval \<Rightarrow> jsval" where
  "store_back w k old new = (case old of Obj _ _ \<Rightarrow> with_prop w k new | _ \<Rightarrow> w)"

subsection \<open>Adding, subtracting and cloning statistics\<close>

fun accumulateObj :: "jsval \<Rightarrow> jsval \<Rightarrow> jsval outcome" where
  "accumulateObj dst src =
     for_in (own_props src) (\<lambda>i v dst.
       if typeof v = ''number'' then
         (case js_get dst i of Inl e \<Rightarrow> (dst, Some e)
          | Inr d \<Rightarrow>
              let dst1 = (if \<not> truthy d then with_prop dst i (IntV 0) else dst)
              in (with_prop dst1 i (js_add (prop_of dst1 i) v), None))
       else if typeof v = ''object'' then
         (case js_get dst i of Inl e \<Rightarrow> (dst, Some e)
          | Inr d \<Rightarrow>
              let dst1 = (if \<not> truthy d then with_prop dst i (Obj Plain []) else dst)
              in case accumulateObj (prop_of dst1 i) v of
                   (d', err) \<Rightarrow> (store_back dst1 i (prop_of dst1 i) d', err))
       else if typeof v = ''array'' then
         (case js_get dst i of Inl e \<Rightarrow> (dst, Some e)
          | Inr d \<Rightarrow>
              let dst1 = (if \<not> truthy d then with_prop dst i (Obj Array []) else dst)
              in case accumulateObj (prop_of dst1 i) v of
                   (d', err) \<Rightarrow> (store_back dst1 i (prop_of dst1 i) d', err))
       else (dst, None)) dst"

declare accumulateObj.simps [simp del]

fun subtractObj :: "jsval \<Rightarrow> jsval \<Rightarrow> jsval result" where
  "subtractObj minuend subtractor =
     for_props (own_props minuend) (\<lambda>i v result.
       if typeof v = ''number'' then
         rbind (js_get subtractor i) (\<lambda>s.
           if \<not> truthy s then js_put result i v
           else js_put result i (js_sub v s))
       else if typeof v = ''object'' \<or> typeof v = ''array'' then
         rbind (js_get subtractor i) (\<lambda>s.
           if \<not> truthy s then js_put result i (Obj Plain [])
           else rbind (subtractObj v s) (\<lambda>d. js_put result i d))
       else Inr result) (Obj Plain [])"

declare subtractObj.simps [simp del]

text \<open>The second component is what \<open>g_logger.error\<close> is given.\<close>

fun cloneObjTemplate :: "jsval \<Rightarrow> jsval \<times> string list" where
  "cloneObjTemplate src =
     fold (\<lambda>(key, v) (dst, logs).
       if typeof v = ''object'' \<or> typeof v = ''array'' then
         (case cloneObjTemplate v of (d, ls) \<Rightarrow> (with_prop dst key d, logs @ ls))
       else if typeof v = ''number'' then (with_prop dst key (IntV 0), logs)
       else if typeof v = ''string'' then (with_prop dst key (StrV []), logs)
       else if typeof v = ''boolean'' then (with_prop dst key (BoolV False), logs)
       else (dst, logs @ [''failed to clone type: '' @ typeof v]))
       (own_props src) (Obj Plain [], [])"

declare cloneObjTemplate.simps [simp del]

subsection \<open>Times and file names\<close>

text \<open>\<open>new Date(v)\<close>.\<close>

definition new_date :: "jsenv \<Rightarrow> jsval \<Rightarrow> int option" where
  "new_date E v =
     (case to_primitive v of
        StrV s \<Rightarrow> date_parse E s
      | p \<Rightarrow> (case to_number p of Fin x \<Rightarrow> time_clip (trunc_rat x) | _ \<Rightarrow> None))"

definition two_digits :: "jsnum \<Rightarrow> string" where
  "two_digits n =
     (if n \<noteq> NaN \<and> \<not> num_less n (Fin 10) then num_to_string n else ''0'' @ num_to_string n)"

definition getMinuteOfTime :: "jsenv \<Rightarrow> jsval \<Rightarrow> string" where
  "getMinuteOfTime E time =
     (let d = new_date E time; hour = two_digits (get_hours E d); mn = two_digits (get_minutes E d)
      in hour @ '':'' @ mn)"

definition getFileName :: "jsenv \<Rightarrow> string \<Rightarrow> int option \<Rightarrow> string" where
  "getFileName E dirname date =
     (let filename = num_to_string (get_full_year E date) @ ''_''
            @ num_to_string (num_add (get_month E date) (Fin 1)) @ ''_''
            @ num_to_string (get_date E date) @ ''.log''
      in path_join [dirname, ''data'', filename])"

subsection \<open>The report of one day: parseDailyStat\<close>

record daily_state =
  min_log :: jsval
  max_log :: jsval
  merged_stats :: jsval
  parse_errors :: "(jserr \<times> string) list"  \<comment> \<open>what the \<open>catch\<close> block logs\<close>

definition daily_init :: daily_state where
  "daily_init = \<lparr>min_log = Null, max_log = Null, merged_stats = Obj Plain [], parse_errors = []\<rparr>"

definition daily_caught :: "string \<Rightarrow> jserr \<Rightarrow> daily_state \<Rightarrow> daily_state" where
  "daily_caught line e s = s\<lparr>parse_errors := parse_errors s @ [(e, line)]\<rparr>"

text \<open>\<open>accumulateObj(merged_stats.info, item.info)\<close>, on the object that holds the first one.\<close>

definition merge_info :: "jsval \<Rightarrow> jsval \<Rightarrow> jsval outcome" where
  "merge_info merged item =
     (case js_get merged ''info'' of Inl e \<Rightarrow> (merged, Some e)
      | Inr di \<Rightarrow>
          case js_get item ''info'' of Inl e \<Rightarrow> (merged, Some e)
          | Inr si \<Rightarrow>
              case accumulateObj di si of (di', err) \<Rightarrow> (store_back merged ''info'' di di', err))"

definition daily_item :: "jsnum \<Rightarrow> string \<Rightarrow> jsval \<Rightarrow> daily_state \<Rightarrow> daily_state" where
  "daily_item node_id line item s =
     (if \<not> num_eq node_id (Fin (- 1)) then
        (case js_get item ''node_id'' of Inl e \<Rightarrow> daily_caught line e s
         | Inr nid \<Rightarrow>
             if js_eq nid (NumV node_id)
             then s\<lparr>min_log := (if \<not> truthy (min_log s) then item else min_log s), max_log := item\<rparr>
             else s)
      else
        (case js_get (merged_stats s) ''m_index'' of Inl e \<Rightarrow> daily_caught line e s
         | Inr mi \<Rightarrow>
             if \<not> js_eq mi Undef then
               (case js_get item ''m_index'' of Inl e \<Rightarrow> daily_caught line e s
                | Inr ii \<Rightarrow>
                    if js_eq mi ii then
                      (case merge_info (merged_stats s) item of
                         (m, None) \<Rightarrow> s\<lparr>merged_stats := m\<rparr>
                       | (m, Some e) \<Rightarrow> daily_caught line e (s\<lparr>merged_stats := m\<rparr>))
                    else s\<lparr>min_log := (if \<not> truthy (min_log s) then merged_stats s else min_log s),
                           max_log := merged_stats s, merged_stats := item\<rparr>)
             else s\<lparr>merged_stats := item\<rparr>))"

definition daily_line :: "jsnum \<Rightarrow> string \<Rightarrow> daily_state \<Rightarrow> daily_state" where
  "daily_line node_id line s =
     (if line = [] then s
      else case json_parse line of
        Inl e \<Rightarrow> daily_caught line e s
      | Inr item \<Rightarrow> daily_item node_id line item s)"

text \<open>
  The returned object \<open>diff_log\<close> with its text properties; its \<open>date\<close> property, a Date, is kept
  beside it.
\<close>

record daily_stat =
  diff_log :: jsval
  stat_date :: "int option"

definition parseDailyStat :: "jsenv \<Rightarrow> string \<Rightarrow> jsnum \<Rightarrow> daily_stat option result" where
  "parseDailyStat E content node_id =
     (let s = fold (daily_line node_id) (split_on (CHR 0x0A) content) daily_init
      in if \<not> truthy (min_log s) \<or> \<not> truthy (max_log s) then Inr None
         else rbind (subtractObj (max_log s) (min_log s)) (\<lambda>d.
              let d1 = with_prop d ''start_minute'' (StrV (getMinuteOfTime E (prop_of (min_log s) ''time'')));
                  d2 = with_prop d1 ''end_minute'' (StrV (getMinuteOfTime E (prop_of (max_log s) ''time'')))
              in Inr (Some \<lparr>diff_log = d2, stat_date = new_date E (prop_of (min_log s) ''time'')\<rparr>)))"

subsection \<open>The daily report: getDailyStats\<close>

text \<open>
  \<open>date.setDate(date.getDate() - 1)\<close> and \<open>file_list.push(getFileName(date))\<close>, \<open>n\<close> times.
\<close>

fun file_list :: "jsenv \<Rightarrow> string \<Rightarrow> nat \<Rightarrow> int option \<Rightarrow> string list" where
  "file_list E dirname 0 date = []"
| "file_list E dirname (Suc n) date =
     (let date' = set_date E date (num_sub (get_date E date) (Fin 1))
      in getFileName E dirname date' # file_list E dirname n date')"

text \<open>
  The callback of \<open>ep.after\<close>: the days whose file could be read and parsed. \<open>files\<close> is what
  \<open>readFileNoError\<close> hands on for each name (\<open>None\<close>: the read failed).
\<close>

fun valid_stats :: "jsenv \<Rightarrow> jsnum \<Rightarrow> (string \<times> string) option list \<Rightarrow> daily_stat list result" where
  "valid_stats E node_id [] = Inr []"
| "valid_stats E node_id (None # cs) = valid_stats E node_id cs"
| "valid_stats E node_id (Some (file, content) # cs) =
     rbind (parseDailyStat E content node_id) (\<lambda>st.
       rbind (valid_stats E node_id cs) (\<lambda>rest.
         Inr (case st of Some d \<Rightarrow> d # rest | None \<Rightarrow> rest)))"

definition readFileNoError :: "(string \<Rightarrow> string option) \<Rightarrow> string \<Rightarrow> (string \<times> string) option" where
  "readFileNoError fs filename = map_option (\<lambda>content. (filename, content)) (fs filename)"

text \<open>The comparator given to \<open>sort\<close>: \<open>true\<close> where the left date is later.\<close>

definition later :: "daily_stat \<Rightarrow> daily_stat \<Rightarrow> bool" where
  "later left right =
     (case (stat_date left, stat_date right) of (Some a, Some b) \<Rightarrow> a > b | _ \<Rightarrow> False)"

text \<open>
  \<open>collect\<close> stands for EventProxy's \<open>after\<close> and \<open>group\<close>, which hand the list of results
  to the callback; \<open>sorter\<close> for the host's \<open>Array.prototype.sort\<close>, whose order is up to the
  host because the comparator never returns a negative number.
\<close>

definition getDailyStats ::
  "((string \<times> string) option list \<Rightarrow> (string \<times> string) option list) \<Rightarrow>
   ((daily_stat \<Rightarrow> daily_stat \<Rightarrow> bool) \<Rightarrow> daily_stat list \<Rightarrow> daily_stat list) \<Rightarrow>
   jsenv \<Rightarrow> string \<Rightarrow> (string \<Rightarrow> string option) \<Rightarrow> int \<Rightarrow> jsnum \<Rightarrow> jsnum \<Rightarrow> nat \<Rightarrow> daily_stat list result"
where
  "getDailyStats collect sorter E dirname fs now offset node_id mx =
     (let n = (if mx = 0 then 30 else mx);
          date = set_date E (Some now) (num_add (num_add (get_date E (Some now)) offset) (Fin 1));
          content_list = collect (map (readFileNoError fs) (file_list E dirname n date))
      in rbind (valid_stats E node_id content_list) (\<lambda>vs. Inr (sorter later vs)))"

subsection \<open>The minutes of one day: getStatsOfDay\<close>

text \<open>
  \<open>one_valid_item\<close> is a reference to the first item that was read, which may be the very object
  \<open>merged_stats\<close> refers to; \<open>one_is_merged\<close> says so, and then an accumulation into
  \<open>merged_stats.info\<close> is seen through both.
\<close>

record minutes_state =
  stats_list :: jsval
  merged :: jsval
  one_valid_item :: jsval
  one_is_merged :: bool
  line_errors :: "(jserr \<times> string) list"

definition minutes_init :: minutes_state where
  "minutes_init = \<lparr>stats_list = Obj Array [], merged = Obj Plain [], one_valid_item = Null,
     one_is_merged = False, line_errors = []\<rparr>"

definition minutes_caught :: "string \<Rightarrow> jserr \<Rightarrow> minutes_state \<Rightarrow> minutes_state" where
  "minutes_caught line e s = s\<lparr>line_errors := line_errors s @ [(e, line)]\<rparr>"

definition set_merged :: "jsval \<Rightarrow> minutes_state \<Rightarrow> minutes_state" where
  "set_merged m s = s\<lparr>merged := m, one_valid_item := (if one_is_merged s then m else one_valid_item s)\<rparr>"

text \<open>\<open>stats_list[key] = item\<close>: the key is the text of any value.\<close>

definition put_stats :: "jsval \<Rightarrow> jsval \<Rightarrow> minutes_state \<Rightarrow> minutes_state" where
  "put_stats key item s = s\<lparr>stats_list := with_prop (stats_list s) (to_str key) item\<rparr>"

definition minutes_item :: "jsnum \<Rightarrow> string \<Rightarrow> jsval \<Rightarrow> minutes_state \<Rightarrow> minutes_state" where
  "minutes_item node_id line item s0 =
     (let fresh = (\<not> truthy (one_valid_item s0));
          s = (if fresh then s0\<lparr>one_valid_item := item, one_is_merged := False\<rparr> else s0)
      in if \<not> num_eq node_id (Fin (- 1)) then
           (case js_get item ''node_id'' of Inl e \<Rightarrow> minutes_caught line e s
            | Inr nid \<Rightarrow>
                if js_eq nid (NumV node_id)
                then (case js_get item ''m_index'' of Inl e \<Rightarrow> minutes_caught line e s
                      | Inr ii \<Rightarrow> put_stats ii item s)
                else s)
         else
           (case js_get (merged s) ''m_index'' of Inl e \<Rightarrow> minutes_caught line e s
            | Inr mi \<Rightarrow>
                if \<not> js_eq mi Undef then
                  (case js_get item ''m_index'' of Inl e \<Rightarrow> minutes_caught line e s
                   | Inr ii \<Rightarrow>
                       if js_eq mi ii then
                         (case merge_info (merged s) item of
                            (m, None) \<Rightarrow> set_merged m s
                          | (m, Some e) \<Rightarrow> minutes_caught line e (set_merged m s))
                       else (put_stats mi (merged s) s)\<lparr>merged := item, one_is_merged := fresh\<rparr>)
                else s\<lparr>merged := item, one_is_merged := fresh\<rparr>))"

definition minutes_line :: "jsnum \<Rightarrow> string \<Rightarrow> minutes_state \<Rightarrow> minutes_state" where
  "minutes_line node_id line s =
     (if line = [] then s
      else case json_parse line of
        Inl e \<Rightarrow> minutes_caught line e s
      | Inr item \<Rightarrow> minutes_item node_id line item s)"

text \<open>After the loop: the last merged minute is pushed unless it is the last one stored.\<close>

definition push_last :: "minutes_state \<Rightarrow> jsval result" where
  "push_last s =
     (let len = arr_length (own_props (stats_list s)) in
      rbind (js_get (merged s) ''m_index'') (\<lambda>mi.
        if \<not> js_eq mi Undef \<and> len > 0 then
          rbind (js_get (stats_list s) (int_digits (len - 1))) (\<lambda>lst.
            rbind (js_get lst ''m_index'') (\<lambda>li.
              Inr (if \<not> js_eq mi li then with_prop (stats_list s) (int_digits len) (merged s)
                   else stats_list s)))
        else Inr (stats_list s)))"

definition empty_minute :: "jsnum \<Rightarrow> int \<Rightarrow> jsval \<Rightarrow> jsval" where
  "empty_minute node_id i one =
     mk_obj [(''node_id'', NumV node_id), (''node_addr'', StrV ''--''), (''stats_url'', StrV ''--''),
       (''time'', StrV ''--''), (''minute'', StrV ''--''), (''m_index'', IntV i), (''delay'', StrV ''--''),
       (''info'', fst (cloneObjTemplate (prop_of one ''info'')))]"

definition fill_minute :: "jsenv \<Rightarrow> jsnum \<Rightarrow> jsval \<Rightarrow> int \<Rightarrow> jsval \<Rightarrow> jsval" where
  "fill_minute E node_id one i lst =
     (let k = int_digits i; x = prop_of lst k
      in if \<not> truthy x then with_prop lst k (empty_minute node_id i one)
         else store_back lst k x (with_prop x ''minute'' (StrV (getMinuteOfTime E (prop_of x ''time'')))))"

definition fill_minutes :: "jsenv \<Rightarrow> jsnum \<Rightarrow> jsval \<Rightarrow> jsval \<Rightarrow> jsval" where
  "fill_minutes E node_id one lst =
     fold (\<lambda>i. fill_minute E node_id one (int i)) [0 ..< nat (arr_length (own_props lst))] lst"

text \<open>
  \<open>fs\<close> is the file system as \<open>fs.readFile\<close> sees it; a failed read gives the empty list to the
  callback.
\<close>

definition stats_of_content :: "jsenv \<Rightarrow> jsnum \<Rightarrow> string \<Rightarrow> jsval result" where
  "stats_of_content E node_id data =
     (let s = fold (minutes_line node_id) (split_on (CHR 0x0A) data) minutes_init
      in rbind (push_last s) (\<lambda>lst. Inr (fill_minutes E node_id (one_valid_item s) lst)))"

definition getStatsOfDay ::
  "jsenv \<Rightarrow> string \<Rightarrow> (string \<Rightarrow> string option) \<Rightarrow> int \<Rightarrow> jsnum \<Rightarrow> jsnum \<Rightarrow> jsval result" where
  "getStatsOfDay E dirname fs now offset node_id =
     (let date = set_date E (Some now) (num_add (get_date E (Some now)) offset);
          filename = getFileName E dirname date
      in case fs filename of None \<Rightarrow> Inr (Obj Array [])
         | Some data \<Rightarrow> stats_of_content E node_id data)"

end
