(* ===== verification/Stats_Files.thy ===== *)
theory Stats_Files
  imports Monitor_Stats
begin

text \<open>
  The daily log files: the name of the file is a function of the local day, different days have
  different files, and \<open>getDailyStats\<close> reads consecutive days.
\<close>

definition local_day :: "jsenv \<Rightarrow> int \<Rightarrow> int" where
  "local_day E t = day_of (local_time E t)"

definition day_name :: "int \<Rightarrow> string" where
  "day_name d = int_digits (year_of_day d) @ ''_'' @ int_digits (month_of_day d + 1) @ ''_''
     @ int_digits (date_of_day d) @ ''.log''"

text \<open>The days from year 0 to 9999.\<close>

definition plain_day :: "int \<Rightarrow> bool" where
  "plain_day d \<longleftrightarrow> 0 \<le> year_of_day d \<and> year_of_day d \<le> 9999"

lemma num_to_string_small: "0 \<le> n \<Longrightarrow> n \<le> 9999 \<Longrightarrow> num_to_string (num_of_int n) = int_digits n"
  by (simp add: num_to_string_int safe_int_def del: num_to_string.simps)

lemma getFileName_day:
  assumes "plain_day (local_day E t)"
  shows "getFileName E dirname (Some t) = path_join [dirname, ''data'', day_name (local_day E t)]"
proof -
  let ?d = "local_day E t"
  have m: "0 \<le> month_of_day ?d" "month_of_day ?d < 12" by (rule month_of_day_bounds)+
  have "safe_int (month_of_day ?d + 1)" using m by (simp add: safe_int_def)
  then have "num_add (num_of_int (month_of_day ?d)) (Fin 1) = num_of_int (month_of_day ?d + 1)"
    using num_add_int[of "month_of_day ?d" 1] by simp
  moreover have "num_to_string (num_of_int (year_of_day ?d)) = int_digits (year_of_day ?d)"
    using assms by (intro num_to_string_small) (simp_all add: plain_day_def)
  moreover have "num_to_string (num_of_int (month_of_day ?d + 1)) = int_digits (month_of_day ?d + 1)"
    using m by (intro num_to_string_small) simp_all
  moreover have "num_to_string (num_of_int (date_of_day ?d)) = int_digits (date_of_day ?d)"
    using date_of_day_bounds(1)[of ?d] date_of_day_le_31[of ?d] by (intro num_to_string_small) simp_all
  ultimately show ?thesis
    by (simp add: getFileName_def get_full_year_def get_month_def get_date_def on_date_def day_name_def
        local_day_def Let_def del: num_to_string.simps of_int_add)
qed

lemma digits_no_char: "0 \<le> n \<Longrightarrow> \<not> is_digit c \<Longrightarrow> c \<notin> set (int_digits n)"
  using int_digits_all_digits by blast

lemma append_sep_inj:
  assumes "xs @ c # ys = xs' @ c # ys'" "c \<notin> set xs" "c \<notin> set xs'"
  shows "xs = xs'" "ys = ys'"
proof -
  have "takeWhile (\<lambda>x. x \<noteq> c) (xs @ c # ys) = xs" "takeWhile (\<lambda>x. x \<noteq> c) (xs' @ c # ys') = xs'"
    using assms(2,3) by (auto simp: takeWhile_append)
  then show "xs = xs'" using assms(1) by simp
  then show "ys = ys'" using assms(1) by simp
qed

lemma day_name_inj:
  assumes "day_name d = day_name d'" "plain_day d" "plain_day d'"
  shows "d = d'"
proof -
  have sep: "\<not> is_digit (CHR ''_'')" "\<not> is_digit (CHR ''.'')" by (simp_all add: is_digit_def)
  have pos: "0 \<le> year_of_day e" "0 \<le> month_of_day e + 1" "0 \<le> date_of_day e" if "plain_day e" for e
    using that month_of_day_bounds(1)[of e] date_of_day_bounds(1)[of e] by (simp_all add: plain_day_def)
  note no = digits_no_char[OF _ sep(1)]
  let ?r = "\<lambda>e. int_digits (month_of_day e + 1) @ CHR ''_'' # int_digits (date_of_day e) @ ''.log''"
  have "int_digits (year_of_day d) @ CHR ''_'' # ?r d = int_digits (year_of_day d') @ CHR ''_'' # ?r d'"
    using assms(1) by (simp add: day_name_def)
  note y = append_sep_inj[OF this no no, OF pos(1)[OF assms(2)] pos(1)[OF assms(3)]]
  note m = append_sep_inj[OF y(2) no no, OF pos(2)[OF assms(2)] pos(2)[OF assms(3)]]
  have "int_digits (date_of_day d) = int_digits (date_of_day d')" using m(2) by simp
  then have "date_of_day d = date_of_day d'" using pos assms(2,3) int_digits_inj by simp
  moreover have "month_of_day d + 1 = month_of_day d' + 1" "year_of_day d = year_of_day d'"
    using m(1) y(1) pos assms(2,3) int_digits_inj by simp_all
  moreover have "make_day (year_of_day e) (month_of_day e) (date_of_day e) = e" for e
    by (simp add: make_day_civil)
  ultimately show ?thesis by (metis add_right_cancel)
qed

lemma plain_name_day: "plain_day d \<Longrightarrow> plain_name (day_name d)"
proof -
  assume "plain_day d"
  then have "0 \<le> year_of_day d" "0 \<le> month_of_day d + 1" "0 \<le> date_of_day d"
    using month_of_day_bounds(1)[of d] date_of_day_bounds(1)[of d] by (simp_all add: plain_day_def)
  moreover have "\<not> is_digit (CHR ''/'')" by (simp add: is_digit_def)
  ultimately have "CHR ''/'' \<notin> set (day_name d)" by (simp add: day_name_def digits_no_char)
  moreover have "length (day_name d) > 2" by (simp add: day_name_def)
  ultimately show ?thesis by (auto simp: plain_name_def)
qed

lemma join_segs_inj:
  assumes "list_all plain_name ss" "list_all plain_name ts" "ss \<noteq> []" "ts \<noteq> []" "join_segs ss = join_segs ts"
  shows "ss = ts"
proof -
  have "split_on (CHR ''/'') (join_segs us) = us" if "list_all plain_name us" "us \<noteq> []" for us
    using that by (intro split_join_segs) (auto simp: list_all_iff plain_name_def)
  then show ?thesis using assms by metis
qed

text \<open>Under an absolute directory, two times have the same file only on the same local day.\<close>

lemma getFileName_inj:
  assumes "list_all plain_name ds" "dirname = CHR ''/'' # join_segs ds"
    and "plain_day (local_day E t)" "plain_day (local_day E t')"
  shows "getFileName E dirname (Some t) = getFileName E dirname (Some t') \<longleftrightarrow> local_day E t = local_day E t'"
proof
  assume eq: "getFileName E dirname (Some t) = getFileName E dirname (Some t')"
  have pn: "list_all plain_name [''data'', day_name (local_day E u)]" if "plain_day (local_day E u)" for u
    using plain_name_day[OF that] by (simp add: plain_name_def)
  have "getFileName E dirname (Some u) = CHR ''/'' # join_segs (ds @ [''data'', day_name (local_day E u)])"
    if "plain_day (local_day E u)" for u
    using path_join_absolute[OF assms(1) pn[OF that]] by (simp add: getFileName_day[OF that] assms(2))
  then have "join_segs (ds @ [''data'', day_name (local_day E t)]) = join_segs (ds @ [''data'', day_name (local_day E t')])"
    using eq assms(3,4) by simp
  then have "ds @ [''data'', day_name (local_day E t)] = ds @ [''data'', day_name (local_day E t')]"
    by (intro join_segs_inj) (use assms(1) pn[OF assms(3)] pn[OF assms(4)] in simp_all)
  then show "local_day E t = local_day E t'" using day_name_inj assms(3,4) by simp
next
  assume "local_day E t = local_day E t'"
  then show "getFileName E dirname (Some t) = getFileName E dirname (Some t')"
    by (simp only: getFileName_day[OF assms(3)] getFileName_day[OF assms(4)])
qed

subsection \<open>Consecutive days\<close>

text \<open>
  What is relied on of the host's time zone: it is at most a day off UTC, and a day is the same
  after a round through UTC.
\<close>

definition zone_ok :: "jsenv \<Rightarrow> bool" where
  "zone_ok E \<longleftrightarrow> day_stable E \<and> (\<forall>t b. \<bar>tza E t b\<bar> \<le> ms_per_day)"

lemma set_date_total:
  assumes "zone_ok E" "\<bar>t\<bar> + (\<bar>k\<bar> + 2) * ms_per_day \<le> 8640000000000000"
  obtains t' where "set_date E (Some t) (num_of_int (date_of_day (local_day E t) + k)) = Some t'"
    "local_day E t' = local_day E t + k" "\<bar>t'\<bar> \<le> \<bar>t\<bar> + (\<bar>k\<bar> + 2) * ms_per_day"
proof -
  let ?l = "local_time E t" and ?n = "num_of_int (date_of_day (local_day E t) + k)"
  define l' where "l' = (day_of ?l + k) * ms_per_day + time_within_day ?l"
  have "?l = day_of ?l * ms_per_day + time_within_day ?l"
    by (simp add: day_of_def time_within_day_def)
  then have l': "l' = ?l + k * ms_per_day" by (simp add: l'_def algebra_simps)
  have "make_day (year_of_day (day_of ?l)) (month_of_day (day_of ?l)) (date_of_day (day_of ?l) + k) = day_of ?l + k"
    by (simp add: make_day_civil)
  then have sd: "set_date E (Some t) ?n = time_clip (utc E l')"
    by (simp add: set_date_def Let_def l'_def local_day_def del: of_int_add)
  have "\<bar>tza E t True\<bar> \<le> ms_per_day" "\<bar>tza E l' False\<bar> \<le> ms_per_day" using assms(1) by (simp_all add: zone_ok_def)
  moreover have "\<bar>k * ms_per_day\<bar> = \<bar>k\<bar> * ms_per_day" by (simp add: abs_mult ms_per_day_def)
  ultimately have b: "\<bar>utc E l'\<bar> \<le> \<bar>t\<bar> + (\<bar>k\<bar> + 2) * ms_per_day"
    unfolding utc_def l' local_time_def distrib_right by linarith
  then have some: "set_date E (Some t) ?n = Some (utc E l')" using sd assms(2) by (simp add: time_clip_def)
  with assms(1) have "local_day E (utc E l') = local_day E t + k"
    using set_date_day[of E t k "utc E l'"] by (simp add: local_day_def zone_ok_def)
  with some b show thesis using that by blast
qed

lemma file_list_days:
  assumes "zone_ok E" "\<bar>t\<bar> + 3 * int n * ms_per_day \<le> 8640000000000000"
  shows "\<exists>ts. file_list E dirname n (Some t) = map (\<lambda>t. getFileName E dirname (Some t)) ts
    \<and> map (local_day E) ts = map (\<lambda>i. local_day E t - 1 - int i) [0 ..< n]"
  using assms(2)
proof (induction n arbitrary: t)
  case (Suc n)
  have "0 \<le> 3 * int n * ms_per_day" by (simp add: ms_per_day_def)
  then have "\<bar>t\<bar> + (\<bar>- 1\<bar> + 2) * ms_per_day \<le> 8640000000000000"
    using Suc.prems by (simp add: distrib_right ms_per_day_def)
  then obtain t' where t': "set_date E (Some t) (num_of_int (date_of_day (local_day E t) + - 1)) = Some t'"
      "local_day E t' = local_day E t + - 1" "\<bar>t'\<bar> \<le> \<bar>t\<bar> + (\<bar>- 1\<bar> + 2) * ms_per_day"
    by (rule set_date_total[OF assms(1)])
  have "safe_int (date_of_day (local_day E t) - 1)"
    using date_of_day_bounds(1)[of "local_day E t"] date_of_day_le_31[of "local_day E t"] by (simp add: safe_int_def)
  then have step: "num_sub (get_date E (Some t)) (Fin 1) = num_of_int (date_of_day (local_day E t) + - 1)"
    using num_sub_int[of "date_of_day (local_day E t)" 1] by (simp add: get_date_def on_date_def local_day_def)
  have "\<bar>t'\<bar> + 3 * int n * ms_per_day \<le> 8640000000000000"
    using Suc.prems t'(3) by (simp add: distrib_right)
  from Suc.IH[OF this] obtain ts where ts: "file_list E dirname n (Some t') = map (\<lambda>t. getFileName E dirname (Some t)) ts"
    "map (local_day E) ts = map (\<lambda>i. local_day E t' - 1 - int i) [0 ..< n]" by blast
  have "map (local_day E) (t' # ts) = map (\<lambda>i. local_day E t - 1 - int i) [0 ..< Suc n]"
    using ts(2) t'(2) by (simp add: map_upt_Suc del: upt_Suc)
  moreover have "file_list E dirname (Suc n) (Some t) = map (\<lambda>t. getFileName E dirname (Some t)) (t' # ts)"
    using ts(1) t'(1) step by (simp add: Let_def)
  ultimately show ?case by blast
qed simp

subsection \<open>Properties\<close>

text \<open>
  C8: the daily report reads the files of \<open>n\<close> consecutive local days, latest first, the first of
  them the day before the given one.
\<close>

theorem file_list_consecutive:
  assumes "zone_ok E" "\<bar>t\<bar> + 3 * int n * ms_per_day \<le> 8640000000000000"
  shows "\<exists>ts. file_list E dirname n (Some t) = map (\<lambda>t. getFileName E dirname (Some t)) ts
    \<and> map (local_day E) ts = map (\<lambda>i. local_day E t - 1 - int i) [0 ..< n]"
  using file_list_days[OF assms] .

theorem file_list_consecutive_witness:
  "\<exists>ts. file_list \<lparr>tza = (\<lambda>_ _. 28800000), other_date = (\<lambda>_. None)\<rparr> ''/srv'' 30 (Some 1433116800000) =
       map (\<lambda>t. getFileName \<lparr>tza = (\<lambda>_ _. 28800000), other_date = (\<lambda>_. None)\<rparr> ''/srv'' (Some t)) ts \<and> length ts = 30"
proof -
  let ?E = "\<lparr>tza = (\<lambda>_ _. 28800000), other_date = (\<lambda>_. None)\<rparr>"
  have "zone_ok ?E" by (simp add: zone_ok_def day_stable_def local_time_def utc_def ms_per_day_def)
  moreover have "\<bar>1433116800000\<bar> + 3 * int 30 * ms_per_day \<le> 8640000000000000" by (simp add: ms_per_day_def)
  ultimately obtain ts where ts: "file_list ?E ''/srv'' 30 (Some 1433116800000) = map (\<lambda>t. getFileName ?E ''/srv'' (Some t)) ts"
    "map (local_day ?E) ts = map (\<lambda>i. local_day ?E 1433116800000 - 1 - int i) [0 ..< 30]"
    using file_list_consecutive by blast
  from arg_cong[OF ts(2), of length] have "length ts = 30" by simp
  with ts(1) show ?thesis by blast
qed

text \<open>
  two moments have the same log file exactly when they are on the same local day.
\<close>

theorem getFileName_same_day:
  assumes "list_all plain_name ds" "dirname = CHR ''/'' # join_segs ds"
    and "plain_day (local_day E t)" "plain_day (local_day E t')"
  shows "getFileName E dirname (Some t) = getFileName E dirname (Some t') \<longleftrightarrow> local_day E t = local_day E t'"
  using getFileName_inj[OF assms] .

theorem getFileName_same_day_witness:
  "getFileName \<lparr>tza = (\<lambda>_ _. 0), other_date = (\<lambda>_. None)\<rparr> ''/srv/monitor'' (Some 1433116800000)
   \<noteq> getFileName \<lparr>tza = (\<lambda>_ _. 0), other_date = (\<lambda>_. None)\<rparr> ''/srv/monitor'' (Some 1433116799999)"
proof -
  let ?E = "\<lparr>tza = (\<lambda>_ _. 0), other_date = (\<lambda>_. None)\<rparr> :: jsenv"
  have "list_all plain_name [''srv'', ''monitor'']" "''/srv/monitor'' = CHR ''/'' # join_segs [''srv'', ''monitor'']"
    "plain_day (local_day ?E 1433116800000)" "plain_day (local_day ?E 1433116799999)" by code_simp+
  note w = getFileName_same_day[OF this]
  have "local_day ?E 1433116800000 \<noteq> local_day ?E 1433116799999" by code_simp
  with w show ?thesis by blast
qed

end
