(* ===== verification/Runs.thy ===== *)
theory Runs
  imports Main
begin

text \<open>
  Runs of an event-driven component: a handler for each event and the condition under which the
  event can occur. The interface \<open>machine\<close> gives an invariant to all runs once every handler
  keeps it; \<open>output_log\<close> says that the output of a run extends the output before it.
\<close>

inductive run :: "('e \<Rightarrow> 's \<Rightarrow> bool) \<Rightarrow> ('e \<Rightarrow> 's \<Rightarrow> 's) \<Rightarrow> 's \<Rightarrow> 'e list \<Rightarrow> 's \<Rightarrow> bool"
  for enabled :: "'e \<Rightarrow> 's \<Rightarrow> bool" and handle :: "'e \<Rightarrow> 's \<Rightarrow> 's" where
  run_nil: "run enabled handle s [] s"
| run_cons: "run enabled handle s (e # es) t" if "enabled e s" and "run enabled handle (handle e s) es t"

code_pred run .

inductive_simps run_simps [simp]:
  "run enabled handle s [] t"
  "run enabled handle s (e # es) t"

lemma run_append:
  "run enabled handle s (es @ fs) u \<longleftrightarrow> (\<exists>t. run enabled handle s es t \<and> run enabled handle t fs u)"
  by (induction es arbitrary: s) auto

lemma run_deterministic: "run enabled handle s es t \<Longrightarrow> run enabled handle s es u \<Longrightarrow> t = u"
  by (induction es arbitrary: s) auto

locale machine =
  fixes enabled :: "'e \<Rightarrow> 's \<Rightarrow> bool"
    and handle :: "'e \<Rightarrow> 's \<Rightarrow> 's"
    and inv :: "'s \<Rightarrow> bool"
  assumes handle_inv: "inv s \<Longrightarrow> enabled e s \<Longrightarrow> inv (handle e s)"
begin

lemma run_inv: "run enabled handle s es t \<Longrightarrow> inv s \<Longrightarrow> inv t"
  by (induction rule: run.induct) (auto intro: handle_inv)

end

locale output_log =
  fixes handle :: "'e \<Rightarrow> 's \<Rightarrow> 's"
    and log :: "'s \<Rightarrow> 'o list"
  assumes handle_log: "\<exists>os. log (handle e s) = log s @ os"
begin

lemma run_log: "run enabled handle s es t \<Longrightarrow> \<exists>os. log t = log s @ os"
proof (induction rule: run.induct)
  case (run_cons e s es t)
  then show ?case using handle_log[of e s] by auto
qed simp

end

end
