(* ===== verification/Monitor_Core.thy ===== *)
theory Monitor_Core
  imports Monitor_Stats Runs
begin

text \<open>
  The running half of \<open>tools/monitor/monitor.js\<close>: the nodes, the timer that queries them once a
  minute, the callback of a query, and the connected browsers.

  The global variables are the fields of \<open>monitor\<close>. A node is an object that \<open>g_nodes\<close> and the
  pending callbacks refer to, so nodes live in a store and are named by their address. What the
  code does to the outside (requests, socket messages, appends to the log file, log lines) is
  recorded in order in \<open>effects\<close>.
\<close>

datatype effect =
    Request string                    \<comment> \<open>\<open>request(url, callback)\<close>\<close>
  | Emit nat string jsval             \<comment> \<open>\<open>g_client.emit(e, data)\<close>\<close>
  | Broadcast nat string jsval        \<comment> \<open>\<open>g_client.broadcast.emit(e, data)\<close>\<close>
  | Append string string              \<comment> \<open>\<open>fs.appendFile(file, text)\<close>\<close>
  | LogError string                   \<comment> \<open>\<open>g_logger.error(text)\<close>\<close>
  | Caught jserr                      \<comment> \<open>\<open>g_logger.error('exception caught: ' + e)\<close>\<close>
  | Mkdir string                      \<comment> \<open>\<open>fs.mkdirSync(dir)\<close>\<close>
  | SetInterval int                   \<comment> \<open>\<open>setInterval(queryNodes, ms)\<close>\<close>

record node =
  nd_id :: string
  nd_addr :: string
  stats_url :: string
  alive :: bool
  server_start_time :: jsval
  user_pk :: jsval

text \<open>A query whose response has not come yet: what the callback closes over.\<close>

record query =
  start_time :: int
  q_index :: int
  q_node :: nat

record monitor =
  store :: "node list"
  g_nodes :: "(string \<times> nat) list"
  g_file :: "string option"
  g_file_number :: int
  g_client :: "nat option"
  g_client_num :: int
  g_is_queried :: bool
  pending :: "query list"
  effects :: "effect list"

definition init_monitor :: monitor where
  "init_monitor = \<lparr>store = [], g_nodes = [], g_file = None, g_file_number = 0, g_client = None,
     g_client_num = 0, g_is_queried = False, pending = [], effects = []\<rparr>"

definition QUERY_INTERVAL :: int where
  "QUERY_INTERVAL = 10"

definition out :: "effect list \<Rightarrow> monitor \<Rightarrow> monitor" where
  "out es s = s\<lparr>effects := effects s @ es\<rparr>"

subsection \<open>Items and nodes\<close>

text \<open>\<open>time\<close> is a Date, which JSON writes as its ISO text.\<close>

definition StatInfo :: "jsval \<Rightarrow> string \<Rightarrow> string \<Rightarrow> int \<Rightarrow> int \<Rightarrow> int \<Rightarrow> jsval \<Rightarrow> jsval" where
  "StatInfo ident addr url time index delay info =
     Obj Plain [(''node_id'', ident), (''node_addr'', StrV addr), (''stats_url'', StrV url),
       (''time'', StrV (iso_string time)), (''m_index'', IntV index), (''delay'', IntV delay), (''info'', info)]"

definition Node :: "string \<Rightarrow> string \<Rightarrow> node" where
  "Node ident addr =
     (let url = addr @ ''/stats''
      in \<lparr>nd_id = ident, nd_addr = addr,
          stats_url = (if index_of addr ''http'' = - 1 then ''http://'' @ url else url),
          alive = True, server_start_time = StrV [], user_pk = IntV 0\<rparr>)"

definition node_obj :: "node \<Rightarrow> jsval" where
  "node_obj n =
     Obj Plain [(''id'', StrV (nd_id n)), (''addr'', StrV (nd_addr n)), (''stats_url'', StrV (stats_url n)),
       (''alive'', BoolV (alive n)), (''server_start_time'', server_start_time n), (''user_pk'', user_pk n)]"

definition addNode :: "string \<Rightarrow> string \<Rightarrow> monitor \<Rightarrow> monitor" where
  "addNode ident addr s =
     s\<lparr>store := store s @ [Node ident addr], g_nodes := put_prop ident (length (store s)) (g_nodes s)\<rparr>"

definition set_node :: "nat \<Rightarrow> (node \<Rightarrow> node) \<Rightarrow> monitor \<Rightarrow> monitor" where
  "set_node a f s = s\<lparr>store := (store s)[a := f (store s ! a)]\<rparr>"

definition fireEvent :: "string \<Rightarrow> jsval \<Rightarrow> monitor \<Rightarrow> monitor" where
  "fireEvent e data s =
     (case g_client s of None \<Rightarrow> s | Some c \<Rightarrow> out [Emit c e data, Broadcast c e data] s)"

definition status_of :: "nat \<Rightarrow> monitor \<Rightarrow> jsval" where
  "status_of a s = Obj Plain [(''id'', StrV (nd_id (store s ! a))), (''status'', node_obj (store s ! a))]"

subsection \<open>Queries\<close>

definition queryNode :: "int \<Rightarrow> int \<Rightarrow> nat \<Rightarrow> monitor \<Rightarrow> monitor" where
  "queryNode t i a s =
     (out [Request (stats_url (store s ! a))] s)
       \<lparr>pending := pending s @ [\<lparr>start_time = t, q_index = i, q_node = a\<rparr>]\<rparr>"

datatype response = Failed | Got int string  \<comment> \<open>an error, or the status code and the body\<close>

definition query_failed :: "nat \<Rightarrow> monitor \<Rightarrow> monitor" where
  "query_failed a s =
     (let s1 = out [LogError (''failed to query node: '' @ to_str Undef)] s;
          s2 = set_node a (\<lambda>n. n\<lparr>alive := False\<rparr>) s1
      in fireEvent ''server status'' (status_of a s2) s2)"

text \<open>\<open>fs.appendFile(g_file, JSON.stringify(stats_item) + '\n')\<close>.\<close>

definition append_item :: "jsval \<Rightarrow> monitor \<Rightarrow> monitor" where
  "append_item item s =
     (case g_file s of
        None \<Rightarrow> out [Caught TypeError] s
      | Some f \<Rightarrow> out [Append f (the (stringify item) @ [CHR 0x0A])] s)"

text \<open>The body of the \<open>try\<close> block; an exception leaves the changes made before it.\<close>

definition query_answered :: "query \<Rightarrow> string \<Rightarrow> int \<Rightarrow> monitor \<Rightarrow> monitor" where
  "query_answered q body end_time s =
     (let a = q_node q; n = store s ! a; delay = end_time - start_time q
      in case rbind (json_parse body) (\<lambda>json_info. js_get json_info ''result'') of
           Inl e \<Rightarrow> out [Caught e] s
         | Inr result \<Rightarrow>
             let item = StatInfo (StrV (nd_id n)) (nd_addr n) (stats_url n) (start_time q) (q_index q) delay result;
                 s1 = fireEvent ''new stats'' item s;
                 s2 = set_node a (\<lambda>n. n\<lparr>alive := True\<rparr>) s1
             in case js_get result ''server_start_datetime'' of
                  Inl e \<Rightarrow> out [Caught e] s2
                | Inr st \<Rightarrow>
                    let s3 = set_node a (\<lambda>n. n\<lparr>server_start_time := st\<rparr>) s2
                    in case rbind (js_get result ''user'') (\<lambda>u. js_get u ''max_user_number'') of
                         Inl e \<Rightarrow> out [Caught e] s3
                       | Inr pk \<Rightarrow>
                           let s4 = set_node a (\<lambda>n. n\<lparr>user_pk := pk\<rparr>) s3;
                               s5 = fireEvent ''server status'' (status_of a s4) s4
                           in append_item item s5)"

definition on_response :: "query \<Rightarrow> response \<Rightarrow> int \<Rightarrow> monitor \<Rightarrow> monitor" where
  "on_response q r end_time s =
     (case r of
        Failed \<Rightarrow> query_failed (q_node q) s
      | Got code body \<Rightarrow>
          if code \<noteq> 200 then query_failed (q_node q) s else query_answered q body end_time s)"

text \<open>\<open>start_time.getHours() * 60 + start_time.getMinutes()\<close>.\<close>

definition minute_index :: "jsenv \<Rightarrow> int \<Rightarrow> int" where
  "minute_index E t = hour_of (local_time E t) * 60 + min_of (local_time E t)"

definition queryNodes :: "jsenv \<Rightarrow> string \<Rightarrow> int \<Rightarrow> monitor \<Rightarrow> monitor" where
  "queryNodes E dirname now s =
     (if \<not> num_eq (get_seconds E (Some now)) (Fin 59) then s\<lparr>g_is_queried := False\<rparr>
      else if g_is_queried s then s
      else let index = minute_index E now;
               s1 = (if index = 0
                     then s\<lparr>g_file := Some (getFileName E dirname (Some now)), g_file_number := g_file_number s + 1\<rparr>
                     else s);
               s2 = fold (\<lambda>(i, a). queryNode now index a) (g_nodes s1) s1
           in s2\<lparr>g_is_queried := True\<rparr>)"

subsection \<open>Browsers, start and the getters\<close>

definition onClientConnect :: "nat \<Rightarrow> monitor \<Rightarrow> monitor" where
  "onClientConnect client s = s\<lparr>g_client_num := g_client_num s + 1, g_client := Some client\<rparr>"

definition onClientDisconnect :: "nat \<Rightarrow> monitor \<Rightarrow> monitor" where
  "onClientDisconnect client s =
     (let n = g_client_num s - 1
      in s\<lparr>g_client_num := n, g_client := (if n = 0 then None else g_client s)\<rparr>)"

definition getNodeList :: "monitor \<Rightarrow> jsval" where
  "getNodeList s = Obj Array (map (\<lambda>(k, a). (k, node_obj (store s ! a))) (g_nodes s))"

definition getLogFileNumber :: "monitor \<Rightarrow> int" where
  "getLogFileNumber s = g_file_number s"

text \<open>\<open>entries\<close> is the listing of the data directory, \<open>None\<close> if there is no such directory.\<close>

definition start :: "jsenv \<Rightarrow> string \<Rightarrow> string list option \<Rightarrow> int \<Rightarrow> monitor \<Rightarrow> monitor" where
  "start E dirname entries now s =
     (let g_datadir = path_join [dirname, ''data''];
          s1 = (if entries = None then out [Mkdir g_datadir] s else s)
      in out [SetInterval QUERY_INTERVAL]
           (s1\<lparr>g_file_number := int (length (case entries of None \<Rightarrow> [] | Some es \<Rightarrow> es)),
               g_file := Some (getFileName E dirname (Some now))\<rparr>))"

subsection \<open>Runs\<close>

text \<open>
  What can happen to the monitor: the timer fires, the response to a pending query comes (in any
  order), a browser connects or disconnects, a node is added.
\<close>

datatype event =
    Tick int
  | Response nat response int
  | Connect nat
  | Disconnect nat
  | AddNode string string

definition take_pending :: "nat \<Rightarrow> monitor \<Rightarrow> monitor" where
  "take_pending k s = s\<lparr>pending := take k (pending s) @ drop (Suc k) (pending s)\<rparr>"

fun handle :: "jsenv \<Rightarrow> string \<Rightarrow> event \<Rightarrow> monitor \<Rightarrow> monitor" where
  "handle E dirname (Tick now) s = queryNodes E dirname now s"
| "handle E dirname (Response k r end_time) s = on_response (pending s ! k) r end_time (take_pending k s)"
| "handle E dirname (Connect c) s = onClientConnect c s"
| "handle E dirname (Disconnect c) s = onClientDisconnect c s"
| "handle E dirname (AddNode ident addr) s = addNode ident addr s"

fun enabled :: "event \<Rightarrow> monitor \<Rightarrow> bool" where
  "enabled (Response k r t) s = (k < length (pending s))"
| "enabled _ s = True"

abbreviation mon_run :: "jsenv \<Rightarrow> string \<Rightarrow> monitor \<Rightarrow> event list \<Rightarrow> monitor \<Rightarrow> bool" where
  "mon_run E dirname \<equiv> run enabled (handle E dirname)"

end
