(* ===== verification/Stats_Laws.thy ===== *)
theory Stats_Laws
  imports Monitor_Stats
begin

text \<open>
  What the statistics functions compute. A statistics object is abstracted to the function
  \<open>count_at\<close> from paths of keys to integer counters (0 where there is none). \<open>accumulateObj\<close>
  implements the pointwise sum and \<open>subtractObj\<close> the pointwise difference; the conditions on
  shape and range under which they do are the executable predicates \<open>mergeable\<close> and
  \<open>coverable\<close>. On top of that, the readers of the log are related to list functions over the
  items that were logged.
\<close>

fun count_at :: "jsval \<Rightarrow> string list \<Rightarrow> int" where
  "count_at (NumV (Fin x)) [] = \<lfloor>x\<rfloor>"
| "count_at (Obj kd ps) (k # ks) = (case lookup_prop ps k of None \<Rightarrow> 0 | Some v \<Rightarrow> count_at v ks)"
| "count_at _ _ = 0"

lemma count_at_falsy [simp]: "\<not> truthy v \<Longrightarrow> count_at v p = 0"
  by (induction v p rule: count_at.induct) auto

lemma count_at_Nil_Obj [simp]: "count_at (Obj kd ps) [] = 0"
  by simp

lemma count_at_empty [simp]: "count_at (Obj kd []) p = 0"
  by (cases p) auto

lemma count_at_key: "count_at (Obj kd ps) (k # ks) = count_at (at_key ps k) ks"
  by (cases "lookup_prop ps k") (auto simp: at_key_def)

lemma prop_of_plain [simp]: "prop_of (Obj Plain ps) k = at_key ps k"
  by (simp add: prop_of_def at_key_def)

lemma with_prop_obj [simp]: "with_prop (Obj kd ps) k v = Obj kd (put_prop k v ps)"
  by (simp add: with_prop_def)

subsection \<open>accumulateObj is the pointwise sum\<close>

text \<open>
  \<open>dst\<close> can take \<open>src\<close>: where \<open>src\<close> has a counter, \<open>dst\<close> has nothing (or a false value)
  or a counter, and the sum is in the exact range; where \<open>src\<close> has an object, \<open>dst\<close> has
  nothing or an object that can take it.
\<close>

function mergeable :: "jsval \<Rightarrow> jsval \<Rightarrow> bool" where
  "mergeable dst src =
     (case dst of
        Obj Plain ps \<Rightarrow>
          (\<forall>(i, v) \<in> set (own_props src).
             case v of
               NumV n \<Rightarrow> int_num n \<and> (let d = at_key ps i in
                   (\<not> truthy d \<or> (case d of NumV m \<Rightarrow> int_num m | _ \<Rightarrow> False))
                   \<and> safe_int (count_at d [] + count_at v []))
             | Obj kd qs \<Rightarrow> (let d = at_key ps i in mergeable (if truthy d then d else Obj Plain []) v)
             | _ \<Rightarrow> True)
      | _ \<Rightarrow> False)"
  by pat_completeness auto
termination
  by (relation "measure (\<lambda>(d, s). size s)") (auto dest!: own_props_size simp del: jsval.size)

declare mergeable.simps [simp del]

lemma for_in_ok:
  assumes "I [] s"
    and "\<And>qs k v rs u. ps = qs @ (k, v) # rs \<Longrightarrow> I qs u \<Longrightarrow> \<exists>u'. f k v u = (u', None) \<and> I (qs @ [(k, v)]) u'"
  shows "\<exists>t. for_in ps f s = (t, None) \<and> I ps t"
proof -
  have "ps = qs @ rs \<Longrightarrow> I qs u \<Longrightarrow> \<exists>t. for_in rs f u = (t, None) \<and> I ps t" for qs rs u
  proof (induction rs arbitrary: qs u)
    case (Cons r rs)
    obtain k v where r: "r = (k, v)" by (cases r)
    with Cons.prems obtain u' where u': "f k v u = (u', None)" "I (qs @ [(k, v)]) u'"
      using assms(2)[of qs k v rs u] by auto
    then show ?case using Cons.IH[of "qs @ [(k, v)]" u'] Cons.prems(1) r by simp
  qed simp
  from this[of "[]" ps s] assms(1) show ?thesis by simp
qed

text \<open>The body of the loop of \<open>accumulateObj\<close> on a plain object.\<close>

definition acc_step :: "string \<Rightarrow> jsval \<Rightarrow> jsval \<Rightarrow> jsval outcome" where
  "acc_step i v dst =
     (if typeof v = ''number'' then
         (case js_get dst i of Inl e \<Rightarrow> (dst, Some e)
          | Inr d \<Rightarrow>
              let dst1 = (if \<not> truthy d then with_prop dst i (IntV 0) else dst)
              in (with_prop dst1 i (js_add (prop_of dst1 i) v), None))
       else if typeof v = ''object'' then
         (case js_get dst i of Inl e \<Rightarrow> (dst, Some e)
          | Inr d \<Rightarrow>
              let dst1 = (if \<not> truthy d then with_prop dst i (Obj Plain []) else dst)
              in case accumulateObj (prop_of dst1 i) v of
                   (d', err) \<Rightarrow> (store_back dst1 i (prop_of dst1 i) d', err))
       else (dst, None))"

lemma typeof_not_array [simp]: "typeof v \<noteq> ''array''"
  by (cases v) auto

lemma accumulateObj_loop: "accumulateObj dst src = for_in (own_props src) acc_step dst"
  unfolding accumulateObj.simps[of dst src]
  by (rule for_in_cong) (simp_all add: acc_step_def)

lemma js_add_int:
  "safe_int (a + b) \<Longrightarrow> js_add (IntV a) (IntV b) = IntV (a + b)"
  using num_add_int[of a b] by (simp add: js_add_def del: num_add.simps of_int_add)

lemma int_num_safe: "int_num n \<Longrightarrow> \<exists>i. n = num_of_int i \<and> safe_int i"
  by (simp add: int_num_iff)

lemma acc_step_number:
  assumes "int_num n" "\<not> truthy (at_key ps i) \<or> (\<exists>m. at_key ps i = NumV m \<and> int_num m)"
    and "safe_int (count_at (at_key ps i) [] + count_at (NumV n) [])"
  shows "\<exists>qs. acc_step i (NumV n) (Obj Plain ps) = (Obj Plain qs, None) \<and>
     (\<forall>k. at_key qs k = (if k = i then IntV (count_at (at_key ps i) [] + count_at (NumV n) []) else at_key ps k))"
proof -
  obtain b where b: "n = num_of_int b" "safe_int b" using int_num_safe[OF assms(1)] by blast
  show ?thesis
  proof (cases "truthy (at_key ps i)")
    case True
    with assms(2) obtain a where a: "at_key ps i = IntV a" using int_num_safe by auto
    then have "js_add (at_key ps i) (NumV n) = IntV (a + b)"
      using assms(3) b by (simp add: js_add_int)
    with True a b show ?thesis by (auto simp: acc_step_def Let_def)
  next
    case False
    have "js_add (IntV 0) (NumV n) = IntV (0 + b)"
      using b by (intro js_add_int[of 0 b, simplified b(1)[symmetric]]) simp
    with False b show ?thesis by (auto simp: acc_step_def Let_def)
  qed
qed

lemma accumulateObj_Null [simp]: "accumulateObj d Null = (d, None)"
  by (simp add: accumulateObj_loop)

lemma acc_step_object:
  assumes "v = Obj kd vs" and d: "d = (if truthy (at_key ps i) then at_key ps i else Obj Plain [])"
    and "accumulateObj d v = (Obj Plain es, None)" "d = Obj Plain ds"
  shows "\<exists>qs. acc_step i v (Obj Plain ps) = (Obj Plain qs, None) \<and>
     (\<forall>k. at_key qs k = (if k = i then Obj Plain es else at_key ps k))"
proof (cases "truthy (at_key ps i)")
  case True
  with assms have "at_key ps i = Obj Plain ds" by simp
  with True assms show ?thesis by (auto simp: acc_step_def Let_def store_back_def)
next
  case False
  with assms show ?thesis by (auto simp: acc_step_def Let_def store_back_def)
qed

lemma acc_step_other:
  assumes "\<And>n. v \<noteq> NumV n" "\<And>kd vs. v \<noteq> Obj kd vs"
  shows "\<exists>qs. acc_step i v (Obj Plain ps) = (Obj Plain qs, None) \<and>
     (\<forall>k ks. count_at (at_key qs k) ks = count_at (at_key ps k) ks) \<and> (\<forall>k. k \<noteq> i \<longrightarrow> at_key qs k = at_key ps k)"
proof (cases "v = Null")
  case True
  then show ?thesis
    by (cases "at_key ps i"; cases "truthy (at_key ps i)") (auto simp: acc_step_def Let_def store_back_def)
next
  case False
  with assms show ?thesis by (cases v) (auto simp: acc_step_def)
qed

lemma distinct_at_key: "distinct (map fst ps) \<Longrightarrow> (k, v) \<in> set ps \<Longrightarrow> at_key ps k = v"
  by (simp add: at_key_def lookup_prop_distinct)

lemma at_key_not_in: "k \<notin> fst ` set ps \<Longrightarrow> at_key ps k = Undef"
  by (simp add: at_key_def lookup_prop_None_iff[THEN iffD2])

text \<open>What has been added after the properties \<open>qs\<close> of the source were visited.\<close>

definition summed :: "(string \<times> jsval) list \<Rightarrow> (string \<times> jsval) list \<Rightarrow> jsval \<Rightarrow> bool" where
  "summed ds qs u \<longleftrightarrow> (\<exists>us. u = Obj Plain us \<and>
     (\<forall>k. k \<notin> fst ` set qs \<longrightarrow> at_key us k = at_key ds k) \<and>
     (\<forall>k ks. count_at (at_key us k) ks = count_at (at_key ds k) ks + count_at (at_key qs k) ks))"

lemma at_key_snoc:
  "i \<notin> fst ` set qs \<Longrightarrow> at_key (qs @ [(i, v)]) k = (if k = i then v else at_key qs k)"
  by (auto simp: at_key_def lookup_prop_append lookup_prop_None_iff[THEN iffD2] split: option.splits)

lemma summed_step:
  assumes "summed ds qs u" "i \<notin> fst ` set qs" "u = Obj Plain us"
    and "\<And>k. k \<noteq> i \<Longrightarrow> at_key us' k = at_key us k"
    and "\<And>ks. count_at (at_key us' i) ks = count_at (at_key ds i) ks + count_at v ks"
  shows "summed ds (qs @ [(i, v)]) (Obj Plain us')"
  using assms unfolding summed_def by (auto simp: at_key_snoc[OF assms(2)])

lemma mergeableD:
  assumes "mergeable (Obj Plain ds) src" "(i, v) \<in> set (own_props src)"
  shows "case v of
               NumV n \<Rightarrow> int_num n \<and> (let d = at_key ds i in
                   (\<not> truthy d \<or> (case d of NumV m \<Rightarrow> int_num m | _ \<Rightarrow> False))
                   \<and> safe_int (count_at d [] + count_at v []))
             | Obj kd qs \<Rightarrow> (let d = at_key ds i in mergeable (if truthy d then d else Obj Plain []) v)
             | _ \<Rightarrow> True"
  using assms(1) unfolding mergeable.simps[of "Obj Plain ds" src]
  by (simp only: jsval.case okind.case) (drule bspec[OF _ assms(2)], simp only: prod.case)

lemma mergeable_plain: "mergeable dst src \<Longrightarrow> \<exists>ds. dst = Obj Plain ds"
  by (subst (asm) mergeable.simps) (auto split: jsval.splits okind.splits)

text \<open>One turn of the loop, given that the values below can be accumulated.\<close>

lemma acc_step_summed:
  assumes inv: "summed ds qs u" and fresh: "i \<notin> fst ` set qs"
    and m: "case v of
               NumV n \<Rightarrow> int_num n \<and> (let d = at_key ds i in
                   (\<not> truthy d \<or> (case d of NumV m \<Rightarrow> int_num m | _ \<Rightarrow> False))
                   \<and> safe_int (count_at d [] + count_at v []))
             | Obj kd qs \<Rightarrow> (let d = at_key ds i in mergeable (if truthy d then d else Obj Plain []) v)
             | _ \<Rightarrow> True"
    and below: "\<And>d kd vs. v = Obj kd vs \<Longrightarrow> mergeable d v \<Longrightarrow>
      \<exists>es. accumulateObj d v = (Obj Plain es, None) \<and> (\<forall>p. count_at (Obj Plain es) p = count_at d p + count_at v p)"
  shows "\<exists>u'. acc_step i v u = (u', None) \<and> summed ds (qs @ [(i, v)]) u'"
proof -
  obtain us where u: "u = Obj Plain us" "at_key us i = at_key ds i"
    using inv fresh by (auto simp: summed_def)
  note step = summed_step[OF inv fresh u(1)]
  show ?thesis
  proof (cases v)
    case (NumV n)
    have "\<not> truthy (at_key us i) \<or> (\<exists>m. at_key us i = NumV m \<and> int_num m)"
      using m NumV u(2) by (auto simp: Let_def split: jsval.splits)
    then obtain us' where us': "acc_step i (NumV n) (Obj Plain us) = (Obj Plain us', None)"
      "\<And>k. at_key us' k = (if k = i then IntV (count_at (at_key us i) [] + count_at (NumV n) []) else at_key us k)"
      using acc_step_number[of n us i] m NumV u(2) by (auto simp: Let_def)
    have "count_at (at_key us' i) ks = count_at (at_key ds i) ks + count_at v ks" for ks
      using us'(2)[of i] u(2) m NumV
      by (cases ks) (auto simp: Let_def dest!: int_num_safe split: jsval.splits)
    with us' u(1) NumV show ?thesis using step[of us' v] by auto
  next
    case (Obj kd' vs)
    let ?d = "if truthy (at_key us i) then at_key us i else Obj Plain []"
    have d: "mergeable ?d v" using m Obj u(2) by (simp add: Let_def split: if_splits)
    obtain es where es: "accumulateObj ?d v = (Obj Plain es, None)"
      "\<And>p. count_at (Obj Plain es) p = count_at ?d p + count_at v p"
      using below[OF Obj d] by blast
    obtain ds' where "?d = Obj Plain ds'" using mergeable_plain[OF d] by blast
    from acc_step_object[OF Obj refl es(1) this] obtain us' where
      us': "acc_step i v (Obj Plain us) = (Obj Plain us', None)"
        "\<And>k. at_key us' k = (if k = i then Obj Plain es else at_key us k)" by blast
    have "count_at (at_key us' i) ks = count_at (at_key ds i) ks + count_at v ks" for ks
      using us'(2)[of i] es(2)[of ks] u(2) by (auto split: if_splits)
    with us' u(1) show ?thesis using step[of us' v] by auto
  qed (use acc_step_other[of v i us] step u in force)+
qed

lemma accumulateObj_counts:
  assumes "mergeable dst src" "wf_val src" "src = Obj kd ss"
  shows "\<exists>us. accumulateObj dst src = (Obj Plain us, None) \<and>
    (\<forall>p. count_at (Obj Plain us) p = count_at dst p + count_at src p)"
  using assms
proof (induction src arbitrary: dst kd ss rule: measure_induct_rule[of size])
  case (less src)
  obtain ds where dst: "dst = Obj Plain ds" using mergeable_plain[OF less.prems(1)] by blast
  have dis: "distinct (map fst ss)" using less.prems by (simp add: wf_props_def)
  have "\<exists>t. for_in ss acc_step dst = (t, None) \<and> summed ds ss t"
  proof (rule for_in_ok)
    show "summed ds [] dst" by (auto simp: summed_def dst at_key_def)
    fix qs i v rs u
    assume split: "ss = qs @ (i, v) # rs" and inv: "summed ds qs u"
    then have fresh: "i \<notin> fst ` set qs" and in_ss: "(i, v) \<in> set ss" using dis by auto
    have in_src: "(i, v) \<in> set (own_props src)" using in_ss less.prems(3) by simp
    have wf: "wf_val v" using less.prems in_ss by (auto simp: list_all_iff)
    show "\<exists>u'. acc_step i v u = (u', None) \<and> summed ds (qs @ [(i, v)]) u'"
      by (rule acc_step_summed[OF inv fresh mergeableD[OF less.prems(1)[unfolded dst] in_src]])
         (rule less.IH[OF own_props_size[OF in_src] _ wf])
  qed
  then obtain us where us: "accumulateObj dst src = (Obj Plain us, None)" "summed ds ss (Obj Plain us)"
    using less.prems(3) by (auto simp: accumulateObj_loop summed_def)
  have "count_at (Obj Plain us) p = count_at dst p + count_at src p" for p
    using us(2) less.prems(3) dst by (cases p) (auto simp: summed_def count_at_key simp del: count_at.simps(2))
  with us(1) show ?case by blast
qed

subsection \<open>subtractObj is the pointwise difference\<close>

text \<open>The paths at which an object has a number.\<close>

fun num_path :: "jsval \<Rightarrow> string list \<Rightarrow> bool" where
  "num_path (NumV n) [] = True"
| "num_path (Obj kd ps) (k # ks) = (case lookup_prop ps k of None \<Rightarrow> False | Some v \<Rightarrow> num_path v ks)"
| "num_path _ _ = False"

lemma num_path_key: "num_path (Obj kd ps) (k # ks) = num_path (at_key ps k) ks"
  by (cases "lookup_prop ps k") (auto simp: at_key_def)

lemma num_path_Undef [simp]: "\<not> num_path Undef p"
  by (cases p) auto

text \<open>
  Every number of \<open>m\<close> meets nothing or an integer in \<open>s\<close>, with the difference in the exact
  range, and every object of \<open>m\<close> meets an object.
\<close>

function coverable :: "jsval \<Rightarrow> jsval \<Rightarrow> bool" where
  "coverable m s =
     (case s of
        Obj Plain ps \<Rightarrow>
          (\<forall>(i, v) \<in> set (own_props m).
             case v of
               NumV n \<Rightarrow> int_num n \<and> (let d = at_key ps i in
                   (\<not> truthy d \<or> (case d of NumV m \<Rightarrow> int_num m | _ \<Rightarrow> False))
                   \<and> safe_int (count_at v [] - count_at d []))
             | Obj kd qs \<Rightarrow> truthy (at_key ps i) \<and> coverable v (at_key ps i)
             | _ \<Rightarrow> True)
      | _ \<Rightarrow> False)"
  by pat_completeness auto
termination
  by (relation "measure (\<lambda>(m, s). size m)") (auto dest!: own_props_size simp del: jsval.size)

declare coverable.simps [simp del]

lemma coverableD:
  assumes "coverable m (Obj Plain ps)" "(i, v) \<in> set (own_props m)"
  shows "case v of
               NumV n \<Rightarrow> int_num n \<and> (let d = at_key ps i in
                   (\<not> truthy d \<or> (case d of NumV m \<Rightarrow> int_num m | _ \<Rightarrow> False))
                   \<and> safe_int (count_at v [] - count_at d []))
             | Obj kd qs \<Rightarrow> truthy (at_key ps i) \<and> coverable v (at_key ps i)
             | _ \<Rightarrow> True"
  using assms(1) unfolding coverable.simps[of m "Obj Plain ps"]
  by (simp only: jsval.case okind.case) (drule bspec[OF _ assms(2)], simp only: prod.case)

lemma coverable_plain: "coverable m s \<Longrightarrow> \<exists>ps. s = Obj Plain ps"
  by (subst (asm) coverable.simps) (auto split: jsval.splits okind.splits)

definition sub_step :: "jsval \<Rightarrow> string \<Rightarrow> jsval \<Rightarrow> jsval \<Rightarrow> jsval result" where
  "sub_step subtractor i v r =
     (if typeof v = ''number'' then
         rbind (js_get subtractor i) (\<lambda>s.
           if \<not> truthy s then js_put r i v
           else js_put r i (js_sub v s))
       else if typeof v = ''object'' then
         rbind (js_get subtractor i) (\<lambda>s.
           if \<not> truthy s then js_put r i (Obj Plain [])
           else rbind (subtractObj v s) (\<lambda>d. js_put r i d))
       else Inr r)"

lemma subtractObj_loop: "subtractObj m s = for_props (own_props m) (sub_step s) (Obj Plain [])"
  unfolding subtractObj.simps[of m s]
  by (rule for_props_cong) (simp_all add: sub_step_def)

lemma js_sub_int: "safe_int (a - b) \<Longrightarrow> js_sub (IntV a) (IntV b) = IntV (a - b)"
  using num_sub_int[of a b] by (simp add: js_sub_def del: of_int_diff)

lemma for_props_ok:
  assumes "I [] s"
    and "\<And>qs k v rs u. ps = qs @ (k, v) # rs \<Longrightarrow> I qs u \<Longrightarrow> \<exists>u'. f k v u = Inr u' \<and> I (qs @ [(k, v)]) u'"
  shows "\<exists>t. for_props ps f s = Inr t \<and> I ps t"
proof -
  have "ps = qs @ rs \<Longrightarrow> I qs u \<Longrightarrow> \<exists>t. for_props rs f u = Inr t \<and> I ps t" for qs rs u
  proof (induction rs arbitrary: qs u)
    case (Cons r rs)
    obtain k v where r: "r = (k, v)" by (cases r)
    with Cons.prems obtain u' where u': "f k v u = Inr u'" "I (qs @ [(k, v)]) u'"
      using assms(2)[of qs k v rs u] by auto
    then show ?case using Cons.IH[of "qs @ [(k, v)]" u'] Cons.prems(1) r by simp
  qed simp
  from this[of "[]" ps s] assms(1) show ?thesis by simp
qed

text \<open>The result after the properties \<open>qs\<close> of the minuend were visited.\<close>

definition diffed :: "(string \<times> jsval) list \<Rightarrow> (string \<times> jsval) list \<Rightarrow> jsval \<Rightarrow> bool" where
  "diffed ps qs u \<longleftrightarrow> (\<exists>us. u = Obj Plain us \<and>
     (\<forall>k ks. count_at (at_key us k) ks =
        (if num_path (at_key qs k) ks then count_at (at_key qs k) ks - count_at (at_key ps k) ks else 0)))"

lemma diffed_step:
  assumes "diffed ps qs u" "i \<notin> fst ` set qs" "u = Obj Plain us"
    and "\<And>k. k \<noteq> i \<Longrightarrow> at_key us' k = at_key us k"
    and "\<And>ks. count_at (at_key us' i) ks =
        (if num_path v ks then count_at v ks - count_at (at_key ps i) ks else 0)"
  shows "diffed ps (qs @ [(i, v)]) (Obj Plain us')"
  using assms unfolding diffed_def by (auto simp: at_key_snoc[OF assms(2)])

lemma sub_step_number:
  assumes "int_num n" "\<not> truthy (at_key ps i) \<or> (\<exists>m. at_key ps i = NumV m \<and> int_num m)"
    and "safe_int (count_at (NumV n) [] - count_at (at_key ps i) [])"
  shows "sub_step (Obj Plain ps) i (NumV n) (Obj Plain us)
    = Inr (Obj Plain (put_prop i (IntV (count_at (NumV n) [] - count_at (at_key ps i) [])) us))"
proof -
  obtain a where a: "n = num_of_int a" "safe_int a" using int_num_safe[OF assms(1)] by blast
  show ?thesis
  proof (cases "truthy (at_key ps i)")
    case True
    with assms(2) obtain b where b: "at_key ps i = IntV b" using int_num_safe by auto
    then have "js_sub (NumV n) (at_key ps i) = IntV (a - b)"
      using assms(3) a by (simp add: js_sub_int)
    with True a b show ?thesis by (simp add: sub_step_def)
  next
    case False
    with a show ?thesis by (simp add: sub_step_def)
  qed
qed

lemma sub_step_diffed:
  assumes inv: "diffed ps qs u" and fresh: "i \<notin> fst ` set qs"
    and c: "case v of
               NumV n \<Rightarrow> int_num n \<and> (let d = at_key ps i in
                   (\<not> truthy d \<or> (case d of NumV m \<Rightarrow> int_num m | _ \<Rightarrow> False))
                   \<and> safe_int (count_at v [] - count_at d []))
             | Obj kd qs \<Rightarrow> truthy (at_key ps i) \<and> coverable v (at_key ps i)
             | _ \<Rightarrow> True"
    and below: "\<And>d kd vs. v = Obj kd vs \<Longrightarrow> coverable v d \<Longrightarrow>
      \<exists>es. subtractObj v d = Inr (Obj Plain es)
        \<and> (\<forall>p. count_at (Obj Plain es) p = (if num_path v p then count_at v p - count_at d p else 0))"
  shows "\<exists>u'. sub_step (Obj Plain ps) i v u = Inr u' \<and> diffed ps (qs @ [(i, v)]) u'"
proof -
  obtain us where u: "u = Obj Plain us" using inv by (auto simp: diffed_def)
  have zero: "count_at (at_key us i) ks = 0" for ks
    using inv u fresh by (auto simp: diffed_def at_key_not_in)
  note step = diffed_step[OF inv fresh u]
  show ?thesis
  proof (cases v)
    case (NumV n)
    have h: "int_num n" "\<not> truthy (at_key ps i) \<or> (\<exists>m. at_key ps i = NumV m \<and> int_num m)"
      "safe_int (count_at (NumV n) [] - count_at (at_key ps i) [])"
      using c NumV by (auto simp: Let_def split: jsval.splits)
    let ?us = "put_prop i (IntV (count_at (NumV n) [] - count_at (at_key ps i) [])) us"
    have "count_at (at_key ?us i) ks = (if num_path v ks then count_at v ks - count_at (at_key ps i) ks else 0)" for ks
      using NumV by (cases ks) auto
    with sub_step_number[OF h, of us] show ?thesis using step[of ?us v] u NumV by auto
  next
    case (Obj kd' vs)
    have d: "truthy (at_key ps i)" "coverable v (at_key ps i)" using c Obj by auto
    obtain es where es: "subtractObj v (at_key ps i) = Inr (Obj Plain es)"
      "\<And>p. count_at (Obj Plain es) p = (if num_path v p then count_at v p - count_at (at_key ps i) p else 0)"
      using below[OF Obj d(2)] by auto
    then have "sub_step (Obj Plain ps) i v u = Inr (Obj Plain (put_prop i (Obj Plain es) us))"
      using d(1) Obj u by (simp add: sub_step_def)
    then show ?thesis using step[of "put_prop i (Obj Plain es) us" v] es(2) by auto
  next
    case Null
    then show ?thesis
      using step[of "put_prop i (Obj Plain []) us" v] u
      by (cases "truthy (at_key ps i)") (auto simp: sub_step_def subtractObj_loop)
  qed (use step[of us v] zero u in \<open>simp_all add: sub_step_def\<close>)
qed

lemma subtractObj_counts:
  assumes "coverable m s" "wf_val m" "m = Obj kd ms"
  shows "\<exists>us. subtractObj m s = Inr (Obj Plain us) \<and>
    (\<forall>p. count_at (Obj Plain us) p = (if num_path m p then count_at m p - count_at s p else 0))"
  using assms
proof (induction m arbitrary: s kd ms rule: measure_induct_rule[of size])
  case (less m)
  obtain ps where s: "s = Obj Plain ps" using coverable_plain[OF less.prems(1)] by blast
  have dis: "distinct (map fst ms)" using less.prems by (simp add: wf_props_def)
  have "\<exists>t. for_props ms (sub_step (Obj Plain ps)) (Obj Plain []) = Inr t \<and> diffed ps ms t"
  proof (rule for_props_ok)
    show "diffed ps [] (Obj Plain [])" by (auto simp: diffed_def at_key_def)
    fix qs i v rs u
    assume split: "ms = qs @ (i, v) # rs" and inv: "diffed ps qs u"
    then have fresh: "i \<notin> fst ` set qs" and in_ms: "(i, v) \<in> set ms" using dis by auto
    have in_m: "(i, v) \<in> set (own_props m)" using in_ms less.prems(3) by simp
    have wf: "wf_val v" using less.prems in_ms by (auto simp: list_all_iff)
    show "\<exists>u'. sub_step (Obj Plain ps) i v u = Inr u' \<and> diffed ps (qs @ [(i, v)]) u'"
      by (rule sub_step_diffed[OF inv fresh coverableD[OF less.prems(1)[unfolded s] in_m]])
         (rule less.IH[OF own_props_size[OF in_m] _ wf])
  qed
  then obtain us where us: "subtractObj m s = Inr (Obj Plain us)" "diffed ps ms (Obj Plain us)"
    using less.prems(3) s by (auto simp: subtractObj_loop diffed_def)
  have "count_at (Obj Plain us) p = (if num_path m p then count_at m p - count_at s p else 0)" for p
    using us(2) less.prems(3) s
    by (cases p) (auto simp: diffed_def count_at_key num_path_key simp del: count_at.simps(2) num_path.simps(2))
  with us(1) show ?case by blast
qed

subsection \<open>cloneObjTemplate has the same counters, all zero\<close>

definition clone_step :: "string \<times> jsval \<Rightarrow> jsval \<times> string list \<Rightarrow> jsval \<times> string list" where
  "clone_step = (\<lambda>(key, v) (dst, logs).
       if typeof v = ''object'' then
         (case cloneObjTemplate v of (d, ls) \<Rightarrow> (with_prop dst key d, logs @ ls))
       else if typeof v = ''number'' then (with_prop dst key (IntV 0), logs)
       else if typeof v = ''string'' then (with_prop dst key (StrV []), logs)
       else if typeof v = ''boolean'' then (with_prop dst key (BoolV False), logs)
       else (dst, logs @ [''failed to clone type: '' @ typeof v]))"

lemma clone_loop: "cloneObjTemplate v = fold clone_step (own_props v) (Obj Plain [], [])"
  unfolding cloneObjTemplate.simps[of v] by (rule fold_cong) (auto simp: clone_step_def fun_eq_iff split: jsval.splits)

definition zeroed :: "(string \<times> jsval) list \<Rightarrow> jsval \<Rightarrow> bool" where
  "zeroed qs u \<longleftrightarrow> (\<exists>us. u = Obj Plain us \<and> (\<forall>k ks. count_at (at_key us k) ks = 0
     \<and> num_path (at_key us k) ks = num_path (at_key qs k) ks))"

lemma clone_step_zeroed:
  assumes inv: "zeroed qs (fst u)" and fresh: "i \<notin> fst ` set qs"
    and below: "\<And>kd vs. v = Obj kd vs \<Longrightarrow> zeroed vs (fst (cloneObjTemplate v))"
  shows "zeroed (qs @ [(i, v)]) (fst (clone_step (i, v) u))"
proof -
  obtain us logs where u: "u = (Obj Plain us, logs)" using inv by (cases u) (auto simp: zeroed_def)
  have h: "count_at (at_key us k) ks = 0" "num_path (at_key us k) ks = num_path (at_key qs k) ks" for k ks
    using inv u by (auto simp: zeroed_def)
  have none: "\<not> num_path (at_key qs i) ks" for ks using fresh by (simp add: at_key_not_in)
  show ?thesis
  proof (cases v)
    case (Obj kd vs)
    then obtain es where es: "fst (cloneObjTemplate v) = Obj Plain es"
      "\<And>k ks. count_at (at_key es k) ks = 0 \<and> num_path (at_key es k) ks = num_path (at_key vs k) ks"
      using below by (auto simp: zeroed_def)
    have "count_at (Obj Plain es) ks = 0 \<and> num_path (Obj Plain es) ks = num_path v ks" for ks
      using es(2) Obj by (cases ks) (auto simp: count_at_key num_path_key simp del: count_at.simps(2) num_path.simps(2))
    moreover have "fst (clone_step (i, v) u) = Obj Plain (put_prop i (Obj Plain es) us)"
      using Obj es(1) u by (cases "cloneObjTemplate v") (simp add: clone_step_def)
    ultimately show ?thesis using h by (auto simp: zeroed_def at_key_snoc[OF fresh])
  next
    case (NumV n)
    have "count_at (IntV 0) ks = 0 \<and> num_path (IntV 0) ks = num_path v ks" for ks
      using NumV by (cases ks) auto
    then show ?thesis using h u NumV by (auto simp: zeroed_def at_key_snoc[OF fresh] clone_step_def)
  next
    case Null
    have "num_path (Obj Plain []) ks = num_path v ks" for ks using Null by (cases ks) auto
    then show ?thesis using h u Null
      by (auto simp: zeroed_def at_key_snoc[OF fresh] clone_step_def cloneObjTemplate.simps[of Null])
  qed (use h u none in \<open>auto simp: zeroed_def at_key_snoc[OF fresh] clone_step_def\<close>)
qed

lemma cloneObjTemplate_zeroed:
  assumes "wf_val v" "v = Obj kd vs"
  shows "zeroed vs (fst (cloneObjTemplate v))"
  using assms
proof (induction v arbitrary: kd vs rule: measure_induct_rule[of size])
  case (less v)
  have dis: "distinct (map fst vs)" using less.prems by (simp add: wf_props_def)
  have "vs = qs @ rs \<Longrightarrow> zeroed qs (fst (fold clone_step qs (Obj Plain [], [])))" for qs rs
  proof (induction qs arbitrary: rs rule: rev_induct)
    case (snoc p qs)
    obtain i w where p: "p = (i, w)" by (cases p)
    have in_vs: "(i, w) \<in> set vs" and fresh: "i \<notin> fst ` set qs" using snoc.prems p dis by auto
    have "(i, w) \<in> set (own_props v)" "wf_val w" using in_vs less.prems by (auto simp: list_all_iff)
    then have "zeroed ws (fst (cloneObjTemplate w))" if "w = Obj kd' ws" for kd' ws
      using less.IH[OF own_props_size _ that] by blast
    then show ?case using clone_step_zeroed[OF snoc.IH fresh] snoc.prems p by simp
  qed (simp add: zeroed_def at_key_def)
  from this[of vs "[]"] show ?case using less.prems by (simp add: clone_loop)
qed

lemma cloneObjTemplate_counts:
  assumes "wf_val (Obj kd vs)"
  shows "\<exists>cs. fst (cloneObjTemplate (Obj kd vs)) = Obj Plain cs
    \<and> (\<forall>p. count_at (Obj Plain cs) p = 0 \<and> num_path (Obj Plain cs) p = num_path (Obj kd vs) p)"
proof -
  obtain cs where cs: "fst (cloneObjTemplate (Obj kd vs)) = Obj Plain cs"
    "\<And>k ks. count_at (at_key cs k) ks = 0 \<and> num_path (at_key cs k) ks = num_path (at_key vs k) ks"
    using cloneObjTemplate_zeroed[OF assms refl] by (auto simp: zeroed_def)
  have "count_at (Obj Plain cs) p = 0 \<and> num_path (Obj Plain cs) p = num_path (Obj kd vs) p" for p
    using cs(2) by (cases p) (auto simp: count_at_key num_path_key simp del: count_at.simps(2) num_path.simps(2))
  with cs(1) show ?thesis by blast
qed

subsection \<open>Properties\<close>



text \<open>
  C2: \<open>subtractObj(minuend, subtractor)\<close> is a new object with, at every path where the minuend has
  a number, the minuend's counter less the subtractor's, and no other counters.
\<close>

theorem subtractObj_subtracts:
  assumes "coverable (Obj kd ms) s" "wf_val (Obj kd ms)"
  shows "\<exists>us. subtractObj (Obj kd ms) s = Inr (Obj Plain us) \<and>
    (\<forall>p. count_at (Obj Plain us) p =
       (if num_path (Obj kd ms) p then count_at (Obj kd ms) p - count_at s p else 0))"
  using subtractObj_counts[OF assms refl] .

theorem subtractObj_subtracts_witness:
  "\<exists>us. subtractObj (Obj Plain [(''user'', Obj Plain [(''n'', IntV 9)]), (''up'', IntV 5)])
       (Obj Plain [(''user'', Obj Plain [(''n'', IntV 4)])]) = Inr (Obj Plain us)
     \<and> count_at (Obj Plain us) [''user'', ''n''] = 5 \<and> count_at (Obj Plain us) [''up''] = 5"
proof -
  let ?m = "Obj Plain [(''user'', Obj Plain [(''n'', IntV 9)]), (''up'', IntV 5)]"
  let ?s = "Obj Plain [(''user'', Obj Plain [(''n'', IntV 4)])]"
  have "coverable ?m ?s" "wf_val ?m" by code_simp+
  then obtain us where us: "subtractObj ?m ?s = Inr (Obj Plain us)"
    "\<And>p. count_at (Obj Plain us) p = (if num_path ?m p then count_at ?m p - count_at ?s p else 0)"
    using subtractObj_subtracts by blast
  have "count_at (Obj Plain us) [''user'', ''n''] = 5" "count_at (Obj Plain us) [''up''] = 5"
    unfolding us(2) by code_simp+
  with us(1) show ?thesis by blast
qed

text \<open>
  \<open>cloneObjTemplate(src)\<close> has counters at the same paths as \<open>src\<close>, and all of them are 0.
\<close>

theorem cloneObjTemplate_zero:
  assumes "wf_val (Obj kd vs)"
  shows "\<exists>cs. fst (cloneObjTemplate (Obj kd vs)) = Obj Plain cs
    \<and> (\<forall>p. count_at (Obj Plain cs) p = 0 \<and> num_path (Obj Plain cs) p = num_path (Obj kd vs) p)"
  using cloneObjTemplate_counts[OF assms] .

theorem cloneObjTemplate_zero_witness:
  "\<exists>cs. fst (cloneObjTemplate (Obj Plain [(''user'', Obj Plain [(''n'', IntV 9)]), (''up'', IntV 5)])) = Obj Plain cs
    \<and> count_at (Obj Plain cs) [''user'', ''n''] = 0 \<and> num_path (Obj Plain cs) [''user'', ''n'']
    \<and> num_path (Obj Plain cs) [''up'']"
proof -
  let ?v = "Obj Plain [(''user'', Obj Plain [(''n'', IntV 9)]), (''up'', IntV 5)]"
  have "wf_val ?v" by code_simp
  then obtain cs where cs: "fst (cloneObjTemplate ?v) = Obj Plain cs"
    "\<And>p. count_at (Obj Plain cs) p = 0" "\<And>p. num_path (Obj Plain cs) p = num_path ?v p"
    using cloneObjTemplate_zero by blast
  have "num_path (Obj Plain cs) [''user'', ''n'']" "num_path (Obj Plain cs) [''up'']"
    unfolding cs(3) by code_simp+
  with cs(1,2) show ?thesis by blast
qed

end
