(* ===== verification/Log_Lines.thy ===== *)
theory Log_Lines
  imports Js_Json
begin

text \<open>
  The format of the daily log: one JSON text per line. The interface \<open>line_codec\<close> is what the
  readers of \<open>tools/monitor/monitor.js\<close> rely on, a printed item can be parsed back and has no
  newline; \<open>stringify\<close> and \<open>json_parse\<close> provide it. Inside the interface, a pass over the lines
  of a written log is a pass over the items.
\<close>

locale line_codec =
  fixes enc :: "'a \<Rightarrow> string option"
    and dec :: "string \<Rightarrow> 'e + 'a"
    and ok :: "'a \<Rightarrow> bool"
  assumes dec_enc: "ok v \<Longrightarrow> \<exists>t. enc v = Some t \<and> dec t = Inr v"
    and enc_line: "ok v \<Longrightarrow> enc v = Some t \<Longrightarrow> t \<noteq> [] \<and> CHR 0x0A \<notin> set t"
begin

definition lines_of :: "'a list \<Rightarrow> string list" where
  "lines_of vs = map (\<lambda>v. the (enc v)) vs"

definition file_of :: "'a list \<Rightarrow> string" where
  "file_of vs = concat (map (\<lambda>l. l @ [CHR 0x0A]) (lines_of vs))"

lemma split_file: "list_all ok vs \<Longrightarrow> split_on (CHR 0x0A) (file_of vs) = lines_of vs @ [[]]"
  unfolding file_of_def
proof (rule split_on_lines)
  fix l assume "list_all ok vs" "l \<in> set (lines_of vs)"
  then obtain v where "ok v" "l = the (enc v)" by (auto simp: lines_of_def list_all_iff)
  then show "CHR 0x0A \<notin> set l" using dec_enc[of v] enc_line[of v] by auto
qed

lemma dec_line: "ok v \<Longrightarrow> dec (the (enc v)) = Inr v \<and> the (enc v) \<noteq> []"
  using dec_enc[of v] enc_line[of v] by auto

text \<open>A reader that skips empty lines and hands every other line to the item handler.\<close>

lemma fold_file:
  assumes "list_all ok vs"
    and "\<And>s. on_line [] s = s"
    and "\<And>l v s. l \<noteq> [] \<Longrightarrow> dec l = Inr v \<Longrightarrow> on_line l s = on_item l v s"
  shows "fold on_line (split_on (CHR 0x0A) (file_of vs)) s = fold (\<lambda>v. on_item (the (enc v)) v) vs s"
proof -
  have "fold on_line (lines_of vs) s = fold (\<lambda>v. on_item (the (enc v)) v) vs s"
    using assms(1) by (induction vs arbitrary: s) (simp_all add: lines_of_def dec_line assms(3))
  then show ?thesis by (simp add: split_file[OF assms(1)] assms(2))
qed

lemma file_of_append: "file_of (vs @ ws) = file_of vs @ file_of ws"
  by (simp add: file_of_def lines_of_def)

end

subsection \<open>JSON as a line codec\<close>

abbreviation no_newline :: "string \<Rightarrow> bool" where
  "no_newline t \<equiv> CHR 0x0A \<notin> set t"

lemma no_newline_esc: "no_newline (esc_char c)"
proof -
  have "hex_char d \<noteq> CHR 0x0A" if "0 \<le> d" "d < 16" for d :: int
    using radix_val_hex_char[OF that] that by (auto simp: radix_val_def is_digit_def)
  note hex = this
  show ?thesis
  proof (cases "(of_char c :: int) < 32")
    case True
    have "0 \<le> (of_char c :: int)" by (metis of_nat_of_char of_nat_0_le_iff)
    with True have "hex_char (of_char c div 16) \<noteq> CHR 0x0A" "hex_char (of_char c mod 16) \<noteq> CHR 0x0A"
      using hex[of "of_char c div 16"] hex[of "of_char c mod 16"] by simp_all
    then show ?thesis by (auto simp: esc_char_def)
  qed (auto simp: esc_char_def)
qed

lemma no_newline_quote: "no_newline (json_quote s)"
  using no_newline_esc by (auto simp: json_quote_def)

lemma no_newline_join: "list_all no_newline ts \<Longrightarrow> no_newline (join_with '','' ts)"
  by (induction "'',''" ts rule: join_with.induct) auto

lemma no_newline_digits: "0 \<le> n \<Longrightarrow> no_newline (int_digits n)"
  using int_digits_all_digits[of n] by (force simp: list_all_iff is_digit_def)

lemma no_newline_num: "int_num n \<Longrightarrow> no_newline (json_num n)"
  by (auto simp: int_num_iff num_to_string_int no_newline_digits simp del: num_to_string.simps split: if_splits)

lemma stringify_no_newline: "json_ok v \<Longrightarrow> no_newline (the (stringify v))"
proof (induction v rule: json_ok.induct)
  case (6 kd ps)
  let ?tx = "\<lambda>v. the (stringify v)"
  have ih: "stringify v = Some (?tx v)" "no_newline (?tx v)" if "(k, v) \<in> set ps" for k v
    using "6.IH"[OF that refl] "6.prems" that stringify_reads[of v] by (auto simp: list_all_iff)
  show ?case
  proof (cases kd)
    case Plain
    have "list_all no_newline (concat (map json_member (map (\<lambda>(k, v). (k, stringify v)) ps)))"
      using ih no_newline_quote by (auto simp: list_all_iff json_member_def split: option.splits) (metis option.sel)
    then show ?thesis using Plain no_newline_join by (simp add: Let_def)
  next
    case Array
    let ?vs = "map snd ps"
    have ps: "ps = arr_props ?vs" "length ?vs < 4294967295" using Array "6.prems" by auto
    have "stringify v = Some (?tx v)" if "v \<in> set ?vs" for v using that ih(1) by auto
    then have "stringify (Obj kd ps) = Some (''['' @ join_with '','' (map ?tx ?vs) @ '']'')"
      using stringify_array[OF ps(2), of ?tx] ps(1) Array by metis
    moreover have "list_all no_newline (map ?tx ?vs)" using ih(2) by (auto simp: list_all_iff)
    ultimately show ?thesis using no_newline_join by auto
  qed
qed (simp_all add: no_newline_num no_newline_quote)

interpretation log: line_codec stringify json_parse json_ok
proof
  show "json_ok v \<Longrightarrow> \<exists>t. stringify v = Some t \<and> json_parse t = Inr v" for v
    by (rule json_round_trip)
  show "json_ok v \<Longrightarrow> stringify v = Some t \<Longrightarrow> t \<noteq> [] \<and> CHR 0x0A \<notin> set t" for v t
    using stringify_reads[of v] stringify_no_newline[of v] by (auto simp: reads_as_def)
qed

end
