(* ===== verification/Stats_Reports.thy ===== *)
theory Stats_Reports
  imports Stats_Laws Log_Lines
begin

text \<open>
  What the two readers of the daily log return on a log that was written item by item: the report
  of a day (\<open>parseDailyStat\<close>) and its minutes (\<open>getStatsOfDay\<close>), for one node and for all
  nodes merged.
\<close>

text \<open>The file after the items were logged, one \<open>JSON.stringify(stats) + '\n'\<close> each.\<close>

definition log_text :: "jsval list \<Rightarrow> string" where
  "log_text items = concat (map (\<lambda>v. the (stringify v) @ [CHR 0x0A]) items)"

lemma log_text_file: "log_text items = log.file_of items"
  by (simp add: log_text_def log.file_of_def log.lines_of_def comp_def)

lemma fold_daily_lines:
  "list_all json_ok items \<Longrightarrow>
   fold (daily_line node_id) (split_on (CHR 0x0A) (log_text items)) s =
   fold (\<lambda>v. daily_item node_id (the (stringify v)) v) items s"
  unfolding log_text_file by (rule log.fold_file) (simp_all add: daily_line_def)

lemma fold_minutes_lines:
  "list_all json_ok items \<Longrightarrow>
   fold (minutes_line node_id) (split_on (CHR 0x0A) (log_text items)) s =
   fold (\<lambda>v. minutes_item node_id (the (stringify v)) v) items s"
  unfolding log_text_file by (rule log.fold_file) (simp_all add: minutes_line_def)

lemma wf_arr_props: "length vs < 4294967295 \<Longrightarrow> wf_props (arr_props vs)"
  unfolding wf_props_def
proof
  show "distinct (map fst (arr_props vs))" by (rule distinct_arr_props)
  have keys: "map fst (arr_props vs) = map (int_digits \<circ> int) [0 ..< length vs]"
    by (rule nth_equalityI) (simp_all add: nth_enumerate_eq)
  assume "length vs < 4294967295"
  then show "sorted_wrt key_before (map fst (arr_props vs))"
    unfolding keys sorted_wrt_iff_nth_less
    by (auto simp: key_before_def is_index_int_digits digits_to_int_int_digits)
qed

lemma json_ok_wf: "json_ok v \<Longrightarrow> wf_val v"
proof (induction v rule: json_ok.induct)
  case (6 kd ps)
  have "list_all (\<lambda>(k, v). wf_val v) ps"
    using "6.IH" "6.prems" by (fastforce simp: list_all_iff)
  moreover have "wf_props ps"
  proof (cases kd)
    case Array
    then have "wf_props (arr_props (map snd ps)) \<Longrightarrow> ?thesis" "length (map snd ps) < 4294967295"
      using "6.prems" by auto
    then show ?thesis using wf_arr_props by blast
  qed (use "6.prems" in simp)
  ultimately show ?case by simp
qed simp_all

subsection \<open>The report of one node\<close>

text \<open>The test \<open>item.node_id == node_id\<close>.\<close>

definition from_node :: "jsnum \<Rightarrow> jsval \<Rightarrow> bool" where
  "from_node node_id item \<longleftrightarrow>
     (case js_get item ''node_id'' of Inr v \<Rightarrow> js_eq v (NumV node_id) | Inl _ \<Rightarrow> False)"

lemma from_node_Obj: "from_node node_id item \<Longrightarrow> \<exists>kd ps. item = Obj kd ps"
  by (cases item) (auto simp: from_node_def is_index_def is_digit_def)

lemma daily_item_node:
  assumes "\<not> num_eq node_id (Fin (- 1))"
  shows "min_log (daily_item node_id l item s) =
      (if from_node node_id item \<and> \<not> truthy (min_log s) then item else min_log s)"
    and "max_log (daily_item node_id l item s) = (if from_node node_id item then item else max_log s)"
  using assms by (auto simp: daily_item_def from_node_def daily_caught_def split: sum.splits)

lemma fold_daily_node:
  assumes "\<not> num_eq node_id (Fin (- 1))"
    "s = fold (\<lambda>v. daily_item node_id (the (stringify v)) v) items daily_init"
    "own = filter (from_node node_id) items"
  shows "min_log s = (if own = [] then Null else hd own)" "max_log s = (if own = [] then Null else last own)"
proof -
  have tr: "truthy (hd (filter (from_node node_id) xs))" if "filter (from_node node_id) xs \<noteq> []" for xs
    using hd_in_set[OF that] from_node_Obj by fastforce
  have "min_log s = (if own = [] then Null else hd own) \<and> max_log s = (if own = [] then Null else last own)"
    using assms(2,3)
  proof (induction items arbitrary: own s rule: rev_induct)
    case (snoc item items)
    let ?o = "filter (from_node node_id) items"
    show ?case
      using snoc.prems snoc.IH[OF refl refl] tr[of items]
      by (cases "?o = []") (simp_all add: daily_item_node[OF assms(1)] hd_append)
  qed (simp add: daily_init_def)
  then show "min_log s = (if own = [] then Null else hd own)" "max_log s = (if own = [] then Null else last own)"
    by simp_all
qed

text \<open>
  The report of a node is the difference of its last and its first item of the day, with the
  minutes of the two; there is none if the node has no item.
\<close>

lemma parseDailyStat_node:
  assumes "list_all json_ok items" "\<not> num_eq node_id (Fin (- 1))"
    "own = filter (from_node node_id) items" "own \<noteq> []" "coverable (last own) (hd own)"
  shows "\<exists>ds. parseDailyStat E (log_text items) node_id =
      Inr (Some \<lparr>diff_log = Obj Plain ds, stat_date = new_date E (prop_of (hd own) ''time'')\<rparr>)
    \<and> at_key ds ''start_minute'' = StrV (getMinuteOfTime E (prop_of (hd own) ''time''))
    \<and> at_key ds ''end_minute'' = StrV (getMinuteOfTime E (prop_of (last own) ''time''))
    \<and> (\<forall>k ks. k \<notin> {''start_minute'', ''end_minute''} \<longrightarrow> count_at (Obj Plain ds) (k # ks) =
         (if num_path (last own) (k # ks) then count_at (last own) (k # ks) - count_at (hd own) (k # ks) else 0))"
proof -
  define s where "s = fold (daily_line node_id) (split_on (CHR 0x0A) (log_text items)) daily_init"
  have ml: "min_log s = hd own" "max_log s = last own"
    using fold_daily_node[OF assms(2) _ assms(3)] assms(4) by (simp_all add: s_def fold_daily_lines assms(1))
  have in_own: "hd own \<in> set own" "last own \<in> set own" using assms(4) by auto
  have obj: "\<exists>kd ps. x = Obj kd ps" "wf_val x" if "x \<in> set own" for x
    using that assms(1,3) from_node_Obj json_ok_wf by (auto simp: list_all_iff)
  have tr: "truthy (hd own)" "truthy (last own)"
    using obj(1)[OF in_own(1)] obj(1)[OF in_own(2)] by auto
  obtain kd ps where l: "last own = Obj kd ps" using obj(1)[OF in_own(2)] by blast
  obtain us where us: "subtractObj (last own) (hd own) = Inr (Obj Plain us)"
    "\<And>p. count_at (Obj Plain us) p = (if num_path (last own) p then count_at (last own) p - count_at (hd own) p else 0)"
    using subtractObj_counts[OF assms(5) obj(2)[OF in_own(2)] l] by auto
  let ?m = "\<lambda>x. StrV (getMinuteOfTime E (prop_of x ''time''))"
  let ?ds = "put_prop ''end_minute'' (?m (last own)) (put_prop ''start_minute'' (?m (hd own)) us)"
  have "parseDailyStat E (log_text items) node_id =
      Inr (Some \<lparr>diff_log = Obj Plain ?ds, stat_date = new_date E (prop_of (hd own) ''time'')\<rparr>)"
    by (simp add: parseDailyStat_def Let_def tr us(1) ml flip: s_def)
  moreover have "count_at (Obj Plain ?ds) (k # ks) =
      (if num_path (last own) (k # ks) then count_at (last own) (k # ks) - count_at (hd own) (k # ks) else 0)"
    if "k \<notin> {''start_minute'', ''end_minute''}" for k ks
    using that unfolding us(2)[symmetric] by (simp add: count_at_key del: count_at.simps(2))
  moreover have "at_key ?ds ''start_minute'' = ?m (hd own)" "at_key ?ds ''end_minute'' = ?m (last own)"
    by simp_all
  ultimately show ?thesis by blast
qed

lemma parseDailyStat_no_item:
  assumes "list_all json_ok items" "\<not> num_eq node_id (Fin (- 1))" "filter (from_node node_id) items = []"
  shows "parseDailyStat E (log_text items) node_id = Inr None"
  using fold_daily_node[OF assms(2) refl refl, of items] assms
  by (simp add: parseDailyStat_def Let_def fold_daily_lines)

subsection \<open>Properties\<close>

text \<open>An item as \<open>queryNode\<close> logs it, with one counter; and UTC as the local time.\<close>

abbreviation up_item :: "int \<Rightarrow> int \<Rightarrow> string \<Rightarrow> int \<Rightarrow> jsval" where
  "up_item node m time n \<equiv> Obj Plain [(''node_id'', IntV node), (''time'', StrV time), (''m_index'', IntV m),
     (''info'', Obj Plain [(''up'', IntV n)])]"

abbreviation utc_env :: jsenv where
  "utc_env \<equiv> \<lparr>tza = (\<lambda>_ _. 0), other_date = (\<lambda>_. None)\<rparr>"

text \<open>
  C3: on a log written item by item, the daily report of a node is, counter by counter, the node's
  last item of the day less its first one, with the minutes and the date of those two items;
  items of other nodes play no role.
\<close>

theorem parseDailyStat_one_node:
  assumes "list_all json_ok items" "\<not> num_eq node_id (Fin (- 1))"
    "own = filter (from_node node_id) items" "own \<noteq> []" "coverable (last own) (hd own)"
  shows "\<exists>ds. parseDailyStat E (log_text items) node_id =
      Inr (Some \<lparr>diff_log = Obj Plain ds, stat_date = new_date E (prop_of (hd own) ''time'')\<rparr>)
    \<and> at_key ds ''start_minute'' = StrV (getMinuteOfTime E (prop_of (hd own) ''time''))
    \<and> at_key ds ''end_minute'' = StrV (getMinuteOfTime E (prop_of (last own) ''time''))
    \<and> (\<forall>k ks. k \<notin> {''start_minute'', ''end_minute''} \<longrightarrow> count_at (Obj Plain ds) (k # ks) =
         (if num_path (last own) (k # ks) then count_at (last own) (k # ks) - count_at (hd own) (k # ks) else 0))"
  using parseDailyStat_node[OF assms] .

theorem parseDailyStat_one_node_witness:
  "\<exists>ds d. parseDailyStat utc_env (log_text
        [up_item 1 7 ''2015-06-01T00:07:59.000Z'' 10, up_item 2 7 ''2015-06-01T00:07:59.000Z'' 99,
         up_item 1 8 ''2015-06-01T00:08:59.000Z'' 14, up_item 1 9 ''2015-06-01T00:09:59.000Z'' 25]) (Fin 1) =
      Inr (Some \<lparr>diff_log = Obj Plain ds, stat_date = d\<rparr>)
     \<and> count_at (Obj Plain ds) [''info'', ''up''] = 15"
proof -
  let ?a = "up_item 1 7 ''2015-06-01T00:07:59.000Z'' 10" and ?b = "up_item 1 9 ''2015-06-01T00:09:59.000Z'' 25"
  let ?items = "[?a, up_item 2 7 ''2015-06-01T00:07:59.000Z'' 99,
     up_item 1 8 ''2015-06-01T00:08:59.000Z'' 14, ?b]"
  let ?own = "[?a, up_item 1 8 ''2015-06-01T00:08:59.000Z'' 14, ?b]"
  have h: "list_all json_ok ?items" "\<not> num_eq (Fin 1) (Fin (- 1))"
    "?own = filter (from_node (Fin 1)) ?items" "?own \<noteq> []" "coverable (last ?own) (hd ?own)"
    by code_simp+
  obtain ds d where ds: "parseDailyStat utc_env (log_text ?items) (Fin 1) = Inr (Some \<lparr>diff_log = Obj Plain ds, stat_date = d\<rparr>)"
    and c: "\<And>k ks. k \<notin> {''start_minute'', ''end_minute''} \<Longrightarrow> count_at (Obj Plain ds) (k # ks) =
         (if num_path (last ?own) (k # ks) then count_at (last ?own) (k # ks) - count_at (hd ?own) (k # ks) else 0)"
    using parseDailyStat_one_node[OF h, of utc_env] by blast
  have "count_at (Obj Plain ds) [''info'', ''up''] = 15"
    by (subst c) (simp, code_simp)
  with ds show ?thesis by blast
qed

text \<open>
  a node without an item in the log has no report.
\<close>

theorem parseDailyStat_absent_node:
  assumes "list_all json_ok items" "\<not> num_eq node_id (Fin (- 1))" "filter (from_node node_id) items = []"
  shows "parseDailyStat E (log_text items) node_id = Inr None"
  using parseDailyStat_no_item[OF assms] .

theorem parseDailyStat_absent_node_witness:
  "parseDailyStat utc_env (log_text [up_item 2 7 ''2015-06-01T00:07:59.000Z'' 99]) (Fin 1) = Inr None"
  by (rule parseDailyStat_absent_node) code_simp+

end
