(* ===== verification/Grouping.thy ===== *)
theory Grouping
  imports Main
begin

text \<open>
  Merging the consecutive items of one key, as an interface: what a merge must promise about keys
  and counters so that the groups of a list that is ordered by key are its keys, once each, with
  the sum of the counters of their items.
\<close>

locale key_merge =
  fixes merge :: "'a \<Rightarrow> 'a \<Rightarrow> 'a"
    and key :: "'a \<Rightarrow> int"
    and val :: "'a \<Rightarrow> 'p \<Rightarrow> int"
    and ok :: "'a \<Rightarrow> bool"
    and fits :: "'a \<Rightarrow> 'a \<Rightarrow> bool"
  assumes merge_ok: "ok m \<Longrightarrow> ok x \<Longrightarrow> ok (merge m x)"
    and merge_key: "ok m \<Longrightarrow> ok x \<Longrightarrow> key (merge m x) = key m"
    and merge_val: "ok m \<Longrightarrow> ok x \<Longrightarrow> fits m x \<Longrightarrow> val (merge m x) p = val m p + val x p"
begin

fun groups :: "'a \<Rightarrow> 'a list \<Rightarrow> 'a list" where
  "groups m [] = [m]"
| "groups m (x # xs) = (if key m = key x then groups (merge m x) xs else m # groups x xs)"

fun all_fit :: "'a \<Rightarrow> 'a list \<Rightarrow> bool" where
  "all_fit m [] = True"
| "all_fit m (x # xs) =
     (if key m = key x then fits m x \<and> all_fit (merge m x) xs else all_fit x xs)"

lemma groups_ok: "ok m \<Longrightarrow> list_all ok xs \<Longrightarrow> list_all ok (groups m xs)"
  by (induction m xs rule: groups.induct) (auto simp: merge_ok)

lemma groups_keys: "ok m \<Longrightarrow> list_all ok xs \<Longrightarrow> key ` set (groups m xs) = key ` set (m # xs)"
  by (induction m xs rule: groups.induct) (auto simp: merge_ok merge_key)

lemma groups_sorted:
  "ok m \<Longrightarrow> list_all ok xs \<Longrightarrow> sorted (map key (m # xs)) \<Longrightarrow> sorted_wrt (<) (map key (groups m xs))"
proof (induction m xs rule: groups.induct)
  case (2 m x xs)
  show ?case
  proof (cases "key m = key x")
    case True
    then show ?thesis using 2 by (simp add: merge_ok merge_key)
  next
    case False
    then have lt: "key m < key x" using 2 by simp
    have "key m < key g" if "g \<in> set (groups x xs)" for g
    proof -
      have "key g \<in> key ` set (x # xs)" using that groups_keys[of x xs] "2.prems"(2) by auto
      then show ?thesis using lt "2.prems"(3) by fastforce
    qed
    then show ?thesis using False 2 by auto
  qed
qed simp

lemma groups_val:
  assumes "ok m" "list_all ok xs" "sorted (map key (m # xs))" "all_fit m xs" "g \<in> set (groups m xs)"
  shows "val g p = (\<Sum>x\<leftarrow>filter (\<lambda>x. key x = key g) (m # xs). val x p)"
  using assms
proof (induction m xs rule: groups.induct)
  case (2 m x xs)
  show ?case
  proof (cases "key m = key x")
    case True
    then have "val g p = (\<Sum>y\<leftarrow>filter (\<lambda>y. key y = key g) (merge m x # xs). val y p)"
      using 2 by (intro "2.IH") (simp_all add: merge_ok merge_key)
    moreover have "key (merge m x) = key m" "val (merge m x) p = val m p + val x p"
      using True "2.prems" by (simp_all add: merge_key merge_val)
    ultimately show ?thesis using True by (cases "key m = key g") simp_all
  next
    case False
    then have lt: "key m < key x" using 2 by simp
    show ?thesis
    proof (cases "g = m \<and> g \<notin> set (groups x xs)")
      case True
      have "filter (\<lambda>y. key y = key m) (x # xs) = []"
        using lt "2.prems"(3) by (auto simp: filter_empty_conv)
      then show ?thesis using True by simp
    next
      case g: False
      then have g: "g \<in> set (groups x xs)" using "2.prems"(5) False by auto
      then have "key g \<in> key ` set (x # xs)" using groups_keys[of x xs] "2.prems"(2) by auto
      then have "key m \<noteq> key g" using lt "2.prems"(3) by fastforce
      then show ?thesis using "2.IH"(2)[OF False] "2.prems" False g by simp
    qed
  qed
qed simp

end

end
