(* ===== verification/Stats_Minutes.thy ===== *)
theory Stats_Minutes
  imports Stats_Reports Grouping
begin

text \<open>
  The array of minutes that \<open>getStatsOfDay\<close> builds: where an item is stored, how the array is
  filled up, and what it holds in the end for one node and for all nodes merged.
\<close>

subsection \<open>Arrays\<close>

abbreviation arr_at :: "(string \<times> jsval) list \<Rightarrow> int \<Rightarrow> jsval" where
  "arr_at ps i \<equiv> at_key ps (int_digits i)"

lemma arr_length_Max: "arr_length ps = Max (insert 0 ((\<lambda>k. if is_index k then digits_to_int k + 1 else 0) ` fst ` set ps))"
proof -
  have "arr_length ps = Max (set (0 # map (\<lambda>(k, _). if is_index k then digits_to_int k + 1 else 0) ps))"
    unfolding arr_length_def by (simp only: Max.set_eq_fold)
  also have "set (0 # map (\<lambda>(k, _). if is_index k then digits_to_int k + 1 else 0) ps)
      = insert 0 ((\<lambda>k. if is_index k then digits_to_int k + 1 else 0) ` fst ` set ps)"
    by (auto simp: image_image case_prod_beta)
  finally show ?thesis .
qed

lemma keys_put_prop: "fst ` set (put_prop k v ps) = insert k (fst ` set ps)"
proof (rule set_eqI)
  fix k'
  have key: "x \<in> fst ` set qs \<longleftrightarrow> lookup_prop qs x \<noteq> None" for x and qs :: "(string \<times> 'a) list"
    by (simp only: lookup_prop_None_iff not_not)
  show "k' \<in> fst ` set (put_prop k v ps) \<longleftrightarrow> k' \<in> insert k (fst ` set ps)"
    unfolding insert_iff key by (simp add: lookup_put_prop)
qed

lemma arr_length_put:
  assumes "is_index k"
  shows "arr_length (put_prop k v ps) = max (arr_length ps) (digits_to_int k + 1)"
proof -
  let ?f = "\<lambda>k. if is_index k then digits_to_int k + 1 else 0"
  have "arr_length (put_prop k v ps) = Max (insert (?f k) (insert 0 (?f ` fst ` set ps)))"
    by (simp only: arr_length_Max keys_put_prop image_insert insert_commute)
  also have "\<dots> = max (?f k) (arr_length ps)"
    by (subst Max_insert) (simp_all add: arr_length_Max)
  finally show ?thesis using assms by (simp add: max.commute)
qed

lemma arr_length_empty [simp]: "arr_length [] = 0"
  by (simp add: arr_length_def)

lemma int_digits_eq_iff [simp]: "0 \<le> i \<Longrightarrow> 0 \<le> j \<Longrightarrow> int_digits i = int_digits j \<longleftrightarrow> i = j"
  by (auto simp: int_digits_inj)

lemma int_digits_not_length [simp]: "0 \<le> i \<Longrightarrow> int_digits i \<noteq> ''length''"
proof
  assume "0 \<le> i" "int_digits i = ''length''"
  then have "list_all is_digit ''length''" using int_digits_all_digits[of i] by (simp add: list_all_iff)
  then show False by (simp add: is_digit_def)
qed

lemma prop_of_arr [simp]: "0 \<le> i \<Longrightarrow> prop_of (Obj Array ps) (int_digits i) = arr_at ps i"
  by (simp add: prop_of_def at_key_def js_get.simps(6))

subsection \<open>Filling up\<close>

text \<open>What \<open>fill_minute\<close> makes of the element \<open>x\<close> at index \<open>i\<close>.\<close>

definition filled :: "jsenv \<Rightarrow> jsnum \<Rightarrow> jsval \<Rightarrow> int \<Rightarrow> jsval \<Rightarrow> jsval" where
  "filled E node_id one i x =
     (if \<not> truthy x then empty_minute node_id i one
      else with_prop x ''minute'' (StrV (getMinuteOfTime E (prop_of x ''time''))))"

abbreviation obj_or_hole :: "jsval \<Rightarrow> bool" where
  "obj_or_hole x \<equiv> x = Undef \<or> (\<exists>kd qs. x = Obj kd qs)"

lemma fill_minute_arr:
  assumes "0 \<le> i" "obj_or_hole (arr_at ps i)"
  shows "fill_minute E node_id one i (Obj Array ps) =
    Obj Array (put_prop (int_digits i) (filled E node_id one i (arr_at ps i)) ps)"
  using assms by (auto simp: fill_minute_def Let_def filled_def store_back_def)

lemma fold_fill_minute:
  assumes "distinct js" "\<And>j. j \<in> set js \<Longrightarrow> obj_or_hole (arr_at ps (int j))"
    "\<And>j. j \<in> set js \<Longrightarrow> int j < arr_length ps" "arr_length ps < 4294967295"
  shows "\<exists>rs. fold (\<lambda>j. fill_minute E node_id one (int j)) js (Obj Array ps) = Obj Array rs
    \<and> arr_length rs = arr_length ps
    \<and> (\<forall>i. arr_at rs (int i) = (if i \<in> set js then filled E node_id one (int i) (arr_at ps (int i)) else arr_at ps (int i)))"
  using assms
proof (induction js arbitrary: ps)
  case (Cons j js)
  let ?ps = "put_prop (int_digits (int j)) (filled E node_id one (int j) (arr_at ps (int j))) ps"
  have idx: "is_index (int_digits (int j))" using Cons.prems(3)[of j] Cons.prems(4)
    by (intro is_index_int_digits) auto
  have len: "arr_length ?ps = arr_length ps"
    using Cons.prems(3)[of j] by (simp add: arr_length_put[OF idx] digits_to_int_int_digits)
  have st: "fill_minute E node_id one (int j) (Obj Array ps) = Obj Array ?ps"
    using Cons.prems(2)[of j] by (intro fill_minute_arr) auto
  have "\<exists>rs. fold (\<lambda>j. fill_minute E node_id one (int j)) js (Obj Array ?ps) = Obj Array rs
    \<and> arr_length rs = arr_length ?ps
    \<and> (\<forall>i. arr_at rs (int i) = (if i \<in> set js then filled E node_id one (int i) (arr_at ?ps (int i)) else arr_at ?ps (int i)))"
    using Cons.prems(1,2,3,4) len by (intro Cons.IH) auto
  then show ?case using Cons.prems(1) st len by auto
qed auto

lemma fill_minutes_arr:
  assumes "\<And>j. 0 \<le> j \<Longrightarrow> obj_or_hole (arr_at ps j)" "arr_length ps < 4294967295"
  shows "\<exists>rs. fill_minutes E node_id one (Obj Array ps) = Obj Array rs
    \<and> arr_length rs = arr_length ps
    \<and> (\<forall>i. 0 \<le> i \<longrightarrow> i < arr_length ps \<longrightarrow> arr_at rs i = filled E node_id one i (arr_at ps i))"
proof -
  have "\<exists>rs. fold (\<lambda>j. fill_minute E node_id one (int j)) [0 ..< nat (arr_length ps)] (Obj Array ps) = Obj Array rs
    \<and> arr_length rs = arr_length ps
    \<and> (\<forall>i. arr_at rs (int i) = (if i \<in> set [0 ..< nat (arr_length ps)]
           then filled E node_id one (int i) (arr_at ps (int i)) else arr_at ps (int i)))"
    using assms by (intro fold_fill_minute) auto
  then obtain rs where rs: "fill_minutes E node_id one (Obj Array ps) = Obj Array rs"
    "arr_length rs = arr_length ps"
    and at: "\<And>i. arr_at rs (int i) = (if i < nat (arr_length ps)
           then filled E node_id one (int i) (arr_at ps (int i)) else arr_at ps (int i))"
    by (auto simp: fill_minutes_def)
  have "arr_at rs i = filled E node_id one i (arr_at ps i)" if "0 \<le> i" "i < arr_length ps" for i
    using at[of "nat i"] that by simp
  with rs show ?thesis by blast
qed

subsection \<open>Storing\<close>

text \<open>An item whose \<open>m_index\<close> is a minute of the day, and that minute.\<close>

definition minute_no :: "jsval \<Rightarrow> int" where
  "minute_no item = count_at item [''m_index'']"

definition is_minute :: "jsval \<Rightarrow> bool" where
  "is_minute item \<longleftrightarrow>
     (case item of Obj Plain ps \<Rightarrow> at_key ps ''m_index'' = IntV (minute_no item) | _ \<Rightarrow> False)
     \<and> 0 \<le> minute_no item \<and> minute_no item < 1440"

lemma is_minuteD:
  assumes "is_minute g"
  shows "js_get g ''m_index'' = Inr (IntV (minute_no g))" "0 \<le> minute_no g" "minute_no g < 1440"
    "\<exists>ps. g = Obj Plain ps" "truthy g"
  using assms by (auto simp: is_minute_def split: jsval.splits okind.splits)

lemma to_str_minute: "0 \<le> i \<Longrightarrow> i < 1440 \<Longrightarrow> to_str (IntV i) = int_digits i"
  by (simp add: num_to_string_int safe_int_def del: num_to_string.simps)

definition store_all :: "jsval list \<Rightarrow> jsval \<Rightarrow> jsval" where
  "store_all gs l = fold (\<lambda>g l. with_prop l (int_digits (minute_no g)) g) gs l"

lemma store_all_arr:
  assumes "list_all is_minute gs"
  shows "\<exists>ps. store_all gs (Obj Array []) = Obj Array ps
    \<and> arr_length ps = Max (insert 0 ((\<lambda>g. minute_no g + 1) ` set gs))
    \<and> (\<forall>i. 0 \<le> i \<longrightarrow> arr_at ps i = (case find (\<lambda>g. minute_no g = i) (rev gs) of None \<Rightarrow> Undef | Some g \<Rightarrow> g))"
  using assms
proof (induction gs rule: rev_induct)
  case (snoc g gs)
  then obtain ps where ps: "store_all gs (Obj Array []) = Obj Array ps"
      "arr_length ps = Max (insert 0 ((\<lambda>g. minute_no g + 1) ` set gs))"
    and at: "\<And>i. 0 \<le> i \<Longrightarrow> arr_at ps i = (case find (\<lambda>g. minute_no g = i) (rev gs) of None \<Rightarrow> Undef | Some g \<Rightarrow> g)"
    by auto
  have g: "0 \<le> minute_no g" "minute_no g < 1440" using snoc.prems is_minuteD by auto
  have idx: "is_index (int_digits (minute_no g))" using g by (intro is_index_int_digits) auto
  let ?ps = "put_prop (int_digits (minute_no g)) g ps"
  have "arr_length ?ps = Max (insert 0 ((\<lambda>g. minute_no g + 1) ` set (gs @ [g])))"
    using g ps(2) by (subst arr_length_put[OF idx]) (simp add: digits_to_int_int_digits insert_commute[of 0] max.commute)
  moreover have "store_all (gs @ [g]) (Obj Array []) = Obj Array ?ps"
    using ps(1) by (simp add: store_all_def)
  moreover have "arr_at ?ps i = (case find (\<lambda>g. minute_no g = i) (rev (gs @ [g])) of None \<Rightarrow> Undef | Some g \<Rightarrow> g)"
    if "0 \<le> i" for i using that g at[OF that] by auto
  ultimately show ?case by blast
qed (simp add: store_all_def at_key_def)

lemma stored_obj_or_hole:
  assumes "list_all is_minute gs"
  shows "obj_or_hole (case find P (rev gs) of None \<Rightarrow> Undef | Some g \<Rightarrow> g)"
proof (cases "find P (rev gs)")
  case (Some g)
  then have "g \<in> set gs" by (metis find_Some_iff nth_mem set_rev)
  then show ?thesis using assms is_minuteD(4)[of g] Some by (auto simp: list_all_iff)
qed simp

subsection \<open>The minutes of one node\<close>

lemma minutes_item_node:
  assumes "\<not> num_eq node_id (Fin (- 1))" "from_node node_id item \<Longrightarrow> is_minute item"
  shows "merged (minutes_item node_id l item s) = merged s"
    and "one_valid_item (minutes_item node_id l item s) =
      (if truthy (one_valid_item s) then one_valid_item s else item)"
    and "stats_list (minutes_item node_id l item s) =
      (if from_node node_id item then store_all [item] (stats_list s) else stats_list s)"
proof -
  have "js_get item ''m_index'' = Inr (IntV (minute_no item))"
    and "to_str (IntV (minute_no item)) = int_digits (minute_no item)" if "from_node node_id item"
    using is_minuteD(1-3)[OF assms(2)[OF that]] to_str_minute by auto
  then show "merged (minutes_item node_id l item s) = merged s"
    and "one_valid_item (minutes_item node_id l item s) =
      (if truthy (one_valid_item s) then one_valid_item s else item)"
    and "stats_list (minutes_item node_id l item s) =
      (if from_node node_id item then store_all [item] (stats_list s) else stats_list s)"
    using assms(1)
    by (auto simp: minutes_item_def Let_def from_node_def minutes_caught_def put_stats_def
        store_all_def simp del: to_str.simps split: sum.splits)
qed

lemma fold_minutes_node:
  assumes "\<not> num_eq node_id (Fin (- 1))" "list_all is_minute (filter (from_node node_id) items)"
    and "s = fold (\<lambda>v. minutes_item node_id (the (stringify v)) v) items minutes_init"
  shows "merged s = Obj Plain []" "stats_list s = store_all (filter (from_node node_id) items) (Obj Array [])"
    "filter truthy items \<noteq> [] \<Longrightarrow> one_valid_item s = hd (filter truthy items)"
proof -
  have "merged s = Obj Plain [] \<and> stats_list s = store_all (filter (from_node node_id) items) (Obj Array [])
    \<and> (filter truthy items \<noteq> [] \<longrightarrow> one_valid_item s = hd (filter truthy items))
    \<and> (filter truthy items = [] \<longrightarrow> \<not> truthy (one_valid_item s))"
    using assms(2,3)
  proof (induction items arbitrary: s rule: rev_induct)
    case (snoc item items)
    let ?s = "fold (\<lambda>v. minutes_item node_id (the (stringify v)) v) items minutes_init"
    have fn: "from_node node_id item \<Longrightarrow> is_minute item" using snoc.prems(1) by simp
    have "truthy (hd (filter truthy items))" if "filter truthy items \<noteq> []"
      using hd_in_set[OF that] by simp
    then show ?case
      using snoc.IH[OF _ refl] snoc.prems
      by (cases "filter truthy items = []")
         (simp_all add: minutes_item_node[OF assms(1) fn] store_all_def hd_append)
  qed (simp add: minutes_init_def store_all_def)
  then show "merged s = Obj Plain []" "stats_list s = store_all (filter (from_node node_id) items) (Obj Array [])"
    "filter truthy items \<noteq> [] \<Longrightarrow> one_valid_item s = hd (filter truthy items)"
    by simp_all
qed

text \<open>
  For one node: the array reaches to the node's last minute; at every index stands the last item
  the node logged for that minute, with its \<open>minute\<close> text, or the placeholder.
\<close>

lemma minute_range:
  assumes "list_all is_minute gs"
  shows "Max (insert 0 ((\<lambda>g. minute_no g + 1) ` set gs)) \<le> 1440"
  using assms is_minuteD(3) by (force simp: list_all_iff)

lemma stats_of_content_node:
  assumes "list_all json_ok items" "\<not> num_eq node_id (Fin (- 1))"
    "own = filter (from_node node_id) items" "list_all is_minute own" "own \<noteq> []"
  shows "\<exists>rs. stats_of_content E node_id (log_text items) = Inr (Obj Array rs)
    \<and> arr_length rs = Max ((\<lambda>g. minute_no g + 1) ` set own)
    \<and> (\<forall>i. 0 \<le> i \<longrightarrow> i < arr_length rs \<longrightarrow>
         arr_at rs i = filled E node_id (hd (filter truthy items)) i
           (case find (\<lambda>g. minute_no g = i) (rev own) of None \<Rightarrow> Undef | Some g \<Rightarrow> g))"
proof -
  define s where "s = fold (minutes_line node_id) (split_on (CHR 0x0A) (log_text items)) minutes_init"
  have s: "s = fold (\<lambda>v. minutes_item node_id (the (stringify v)) v) items minutes_init"
    by (simp add: s_def fold_minutes_lines[OF assms(1)])
  note st = fold_minutes_node[OF assms(2) assms(4)[unfolded assms(3)] s]
  obtain ps where ps: "store_all own (Obj Array []) = Obj Array ps"
      "arr_length ps = Max (insert 0 ((\<lambda>g. minute_no g + 1) ` set own))"
    and at: "\<And>i. 0 \<le> i \<Longrightarrow> arr_at ps i = (case find (\<lambda>g. minute_no g = i) (rev own) of None \<Rightarrow> Undef | Some g \<Rightarrow> g)"
    using store_all_arr[OF assms(4)] by blast
  have "arr_length ps < 4294967295" using minute_range[OF assms(4)] unfolding ps(2) by linarith
  moreover have "obj_or_hole (arr_at ps j)" if "0 \<le> j" for j
    using at[OF that] stored_obj_or_hole[OF assms(4)] by simp
  ultimately obtain rs where rs: "fill_minutes E node_id (one_valid_item s) (Obj Array ps) = Obj Array rs"
    "arr_length rs = arr_length ps"
    "\<And>i. 0 \<le> i \<Longrightarrow> i < arr_length ps \<Longrightarrow> arr_at rs i = filled E node_id (one_valid_item s) i (arr_at ps i)"
    using fill_minutes_arr[of ps E node_id "one_valid_item s"] by blast
  have "hd own \<in> set items" "truthy (hd own)"
    using assms(3,5) hd_in_set[OF assms(5)] from_node_Obj[of node_id "hd own"] by auto
  then have one: "one_valid_item s = hd (filter truthy items)"
    by (intro st(3)) (auto simp: filter_empty_conv)
  have "push_last s = Inr (Obj Array ps)"
    using st(1,2) ps(1) assms(3) by (simp add: push_last_def Let_def at_key_def)
  then have "stats_of_content E node_id (log_text items) = Inr (Obj Array rs)"
    using rs(1) by (simp add: stats_of_content_def Let_def flip: s_def)
  moreover have "arr_length rs = Max ((\<lambda>g. minute_no g + 1) ` set own)"
  proof -
    have "0 \<le> minute_no (hd own) + 1" "hd own \<in> set own"
      using assms(4,5) is_minuteD(2)[of "hd own"] by (auto simp: list_all_iff)
    then have "0 \<le> Max ((\<lambda>g. minute_no g + 1) ` set own)" by (meson Max_ge finite_imageI finite_set image_eqI order_trans)
    then show ?thesis using rs(2) ps(2) assms(5) by simp
  qed
  ultimately show ?thesis using rs(2,3) at one by auto
qed

subsection \<open>All nodes merged\<close>

text \<open>
  The merged minutes of a log: consecutive items of one minute are merged into the first of them.
\<close>

fun merge_groups :: "jsval \<Rightarrow> jsval list \<Rightarrow> jsval list" where
  "merge_groups m [] = [m]"
| "merge_groups m (x # xs) =
     (if minute_no m = minute_no x then merge_groups (fst (merge_info m x)) xs
      else m # merge_groups x xs)"

fun merged_minutes :: "jsval list \<Rightarrow> jsval list" where
  "merged_minutes [] = []"
| "merged_minutes (x # xs) = merge_groups x xs"

lemma merge_groups_not_Nil [simp]: "merge_groups m xs \<noteq> []"
  by (induction m xs rule: merge_groups.induct) auto

lemma merge_groups_snoc:
  "merge_groups m (xs @ [x]) =
     (let gs = merge_groups m xs; g = last gs in
      if minute_no g = minute_no x then butlast gs @ [fst (merge_info g x)] else gs @ [x])"
  by (induction m xs rule: merge_groups.induct) (auto simp: Let_def)

lemma merge_info_plain:
  "\<exists>us e. merge_info (Obj Plain ps) (Obj kd qs) = (Obj Plain us, e) \<and> (\<forall>k. k \<noteq> ''info'' \<longrightarrow> at_key us k = at_key ps k)"
  by (cases "js_get (Obj kd qs) ''info''")
     (auto simp: merge_info_def store_back_def js_get.simps(6) split: prod.splits jsval.splits)

lemma is_minute_plain:
  "is_minute (Obj Plain ps) \<longleftrightarrow> at_key ps ''m_index'' = IntV (count_at (at_key ps ''m_index'') [])
     \<and> 0 \<le> count_at (at_key ps ''m_index'') [] \<and> count_at (at_key ps ''m_index'') [] < 1440"
  by (simp add: is_minute_def minute_no_def count_at_key del: count_at.simps(2))

lemma minute_no_plain: "minute_no (Obj Plain ps) = count_at (at_key ps ''m_index'') []"
  by (simp add: minute_no_def count_at_key del: count_at.simps(2))

lemma merge_info_minute:
  assumes "is_minute m" "is_minute x"
  shows "is_minute (fst (merge_info m x))" "minute_no (fst (merge_info m x)) = minute_no m"
proof -
  obtain ps qs where o: "m = Obj Plain ps" "x = Obj Plain qs" using assms is_minuteD(4) by blast
  then obtain us e where us: "merge_info m x = (Obj Plain us, e)"
    "\<And>k. k \<noteq> ''info'' \<Longrightarrow> at_key us k = at_key ps k"
    using merge_info_plain[of ps Plain qs] by blast
  from us(2)[of "''m_index''"] have "at_key us ''m_index'' = at_key ps ''m_index''" by simp
  then show "is_minute (fst (merge_info m x))" "minute_no (fst (merge_info m x)) = minute_no m"
    using assms(1) us(1) o(1) by (simp_all add: is_minute_plain minute_no_plain)
qed

lemma merge_groups_minute:
  "is_minute m \<Longrightarrow> list_all is_minute xs \<Longrightarrow> list_all is_minute (merge_groups m xs)"
  by (induction m xs rule: merge_groups.induct) (auto simp: merge_info_minute)

lemma daily_item_merged:
  assumes "num_eq node_id (Fin (- 1))" "is_minute x" "is_minute (merged_stats s)"
  shows "merged_stats (daily_item node_id l x s) =
      (if minute_no (merged_stats s) = minute_no x then fst (merge_info (merged_stats s) x) else x)"
    and "min_log (daily_item node_id l x s) =
      (if minute_no (merged_stats s) \<noteq> minute_no x \<and> \<not> truthy (min_log s) then merged_stats s else min_log s)"
    and "max_log (daily_item node_id l x s) =
      (if minute_no (merged_stats s) \<noteq> minute_no x then merged_stats s else max_log s)"
  using assms(1) is_minuteD(1)[OF assms(2)] is_minuteD(1)[OF assms(3)]
  by (auto simp: daily_item_def daily_caught_def split: prod.splits option.splits)

lemma fold_daily_merged:
  assumes "num_eq node_id (Fin (- 1))" "list_all is_minute (x # xs)"
    and "s = fold (\<lambda>v. daily_item node_id (the (stringify v)) v) (x # xs) daily_init"
    and "gs = merge_groups x xs"
  shows "merged_stats s = last gs \<and> min_log s = (if butlast gs = [] then Null else hd (butlast gs))
    \<and> max_log s = (if butlast gs = [] then Null else last (butlast gs))"
  using assms(2-)
proof (induction xs arbitrary: s gs rule: rev_induct)
  case Nil
  then show ?case using assms(1) by (simp add: daily_item_def daily_init_def at_key_def)
next
  case (snoc y xs)
  let ?s = "fold (\<lambda>v. daily_item node_id (the (stringify v)) v) (x # xs) daily_init"
  let ?gs = "merge_groups x xs"
  have ih: "merged_stats ?s = last ?gs" "min_log ?s = (if butlast ?gs = [] then Null else hd (butlast ?gs))"
    "max_log ?s = (if butlast ?gs = [] then Null else last (butlast ?gs))"
    using snoc.IH[OF _ refl refl] snoc.prems(1) by simp_all
  have all: "list_all is_minute ?gs" using snoc.prems(1) by (intro merge_groups_minute) simp_all
  then have lg: "is_minute (last ?gs)" by (simp add: list_all_iff)
  have hb: "truthy (hd (butlast ?gs))" if "butlast ?gs \<noteq> []"
    using all hd_in_set[OF that] is_minuteD(5) by (auto simp: list_all_iff dest: in_set_butlastD)
  have s: "s = daily_item node_id (the (stringify y)) y ?s" using snoc.prems(2) by simp
  have "is_minute y" using snoc.prems(1) by simp
  note step = daily_item_merged[OF assms(1) this, of ?s, unfolded ih(1), OF lg]
  obtain bs g where gs: "?gs = bs @ [g]" by (cases ?gs rule: rev_cases) auto
  show ?case unfolding s step snoc.prems(3) merge_groups_snoc ih(2,3) Let_def using hb
    by (cases bs) (simp_all add: ih(1) gs butlast_append)
qed

text \<open>
  The report over all nodes compares the first merged minute with the last but one: the last group
  of the file is never looked at.
\<close>

lemma parseDailyStat_merged:
  assumes "list_all json_ok items" "list_all is_minute items" "num_eq node_id (Fin (- 1))"
    "ms = butlast (merged_minutes items)"
  shows "parseDailyStat E (log_text items) node_id =
    (if ms = [] then Inr None
     else rbind (subtractObj (last ms) (hd ms)) (\<lambda>d.
       Inr (Some \<lparr>diff_log = with_prop (with_prop d ''start_minute'' (StrV (getMinuteOfTime E (prop_of (hd ms) ''time''))))
                  ''end_minute'' (StrV (getMinuteOfTime E (prop_of (last ms) ''time''))),
             stat_date = new_date E (prop_of (hd ms) ''time'')\<rparr>)))"
proof (cases items)
  case Nil
  then show ?thesis using assms by (simp add: parseDailyStat_def log_text_def daily_line_def daily_init_def)
next
  case (Cons x xs)
  define s where "s = fold (daily_line node_id) (split_on (CHR 0x0A) (log_text items)) daily_init"
  have s: "s = fold (\<lambda>v. daily_item node_id (the (stringify v)) v) (x # xs) daily_init"
    using fold_daily_lines[OF assms(1), of node_id daily_init] by (simp only: s_def Cons)
  have ms: "ms = butlast (merge_groups x xs)" using Cons assms(4) by simp
  have "list_all is_minute (x # xs)" using Cons assms(2) by simp
  note st = fold_daily_merged[OF assms(3) this s refl]
  have "list_all is_minute (merge_groups x xs)" using assms(2) Cons by (intro merge_groups_minute) simp_all
  then have tr: "truthy g" if "g \<in> set ms" for g
    using that is_minuteD(5) by (auto simp: ms list_all_iff dest: in_set_butlastD)
  show ?thesis
  proof (cases "ms = []")
    case True
    then show ?thesis using st by (simp add: parseDailyStat_def Let_def ms flip: s_def)
  next
    case False
    then have "min_log s = hd ms" "max_log s = last ms" "truthy (hd ms)" "truthy (last ms)"
      using st tr by (simp_all add: ms)
    with False show ?thesis by (simp add: parseDailyStat_def Let_def flip: s_def)
  qed
qed

lemma minutes_item_merged:
  assumes "num_eq node_id (Fin (- 1))" "is_minute x" "is_minute (merged s)" "is_minute (one_valid_item s)"
  shows "merged (minutes_item node_id l x s) =
      (if minute_no (merged s) = minute_no x then fst (merge_info (merged s) x) else x)"
    and "stats_list (minutes_item node_id l x s) =
      (if minute_no (merged s) = minute_no x then stats_list s else store_all [merged s] (stats_list s))"
    and "one_is_merged (minutes_item node_id l x s) = (minute_no (merged s) = minute_no x \<and> one_is_merged s)"
    and "one_valid_item (minutes_item node_id l x s) =
      (if minute_no (merged s) = minute_no x \<and> one_is_merged s then fst (merge_info (merged s) x) else one_valid_item s)"
  using assms(1) is_minuteD(1)[OF assms(2)] is_minuteD(1-3)[OF assms(3)] is_minuteD(5)[OF assms(4)]
    to_str_minute[of "minute_no (merged s)"]
  by (auto simp: minutes_item_def Let_def minutes_caught_def set_merged_def put_stats_def store_all_def
      simp del: to_str.simps split: prod.splits option.splits)

lemma fold_minutes_merged:
  assumes "num_eq node_id (Fin (- 1))" "list_all is_minute (x # xs)"
    and "s = fold (\<lambda>v. minutes_item node_id (the (stringify v)) v) (x # xs) minutes_init"
    and "gs = merge_groups x xs"
  shows "merged s = last gs \<and> stats_list s = store_all (butlast gs) (Obj Array [])
    \<and> one_valid_item s = hd gs \<and> one_is_merged s = (butlast gs = [])"
  using assms(2-)
proof (induction xs arbitrary: s gs rule: rev_induct)
  case Nil
  then show ?case using assms(1) by (simp add: minutes_item_def minutes_init_def at_key_def Let_def store_all_def)
next
  case (snoc y xs)
  let ?s = "fold (\<lambda>v. minutes_item node_id (the (stringify v)) v) (x # xs) minutes_init"
  let ?gs = "merge_groups x xs"
  have ih: "merged ?s = last ?gs" "stats_list ?s = store_all (butlast ?gs) (Obj Array [])"
    "one_valid_item ?s = hd ?gs" "one_is_merged ?s = (butlast ?gs = [])"
    using snoc.IH[OF _ refl refl] snoc.prems(1) by simp_all
  have "list_all is_minute ?gs" using snoc.prems(1) by (intro merge_groups_minute) simp_all
  then have lg: "is_minute (last ?gs)" "is_minute (hd ?gs)" by (simp_all add: list_all_iff)
  have s: "s = minutes_item node_id (the (stringify y)) y ?s" using snoc.prems(2) by simp
  have "is_minute y" using snoc.prems(1) by simp
  note step = minutes_item_merged[OF assms(1) this, of ?s, unfolded ih(1,3), OF lg]
  obtain bs g where gs: "?gs = bs @ [g]" by (cases ?gs rule: rev_cases) auto
  show ?case unfolding s step snoc.prems(3) merge_groups_snoc ih(2,3,4) Let_def
    by (cases bs) (simp_all add: gs butlast_append store_all_def)
qed

lemma Max_minutes:
  assumes "list_all is_minute gs" "sorted_wrt (\<lambda>a b. minute_no a < minute_no b) gs" "gs \<noteq> []"
  shows "Max (insert 0 ((\<lambda>g. minute_no g + 1) ` set gs)) = minute_no (last gs) + 1"
proof -
  obtain bs g where gs: "gs = bs @ [g]" using assms(3) by (cases gs rule: rev_cases) auto
  have "0 \<le> minute_no g" using assms(1) is_minuteD(2) gs by simp
  then show ?thesis
    using assms(2) gs by (intro Max_eqI) (auto simp: sorted_wrt_append less_imp_le)
qed

lemma find_last: "gs \<noteq> [] \<Longrightarrow> P (last gs) \<Longrightarrow> find P (rev gs) = Some (last gs)"
  by (cases gs rule: rev_cases) auto

text \<open>
  The last merged minute is pushed right behind the minute before it, whatever its own index is.
\<close>

lemma push_last_merged:
  assumes "list_all is_minute (gs @ [g])" "sorted_wrt (\<lambda>a b. minute_no a < minute_no b) (gs @ [g])" "gs \<noteq> []"
    and "merged s = g" "stats_list s = store_all gs (Obj Array [])"
  shows "\<exists>ps. push_last s = Inr (Obj Array ps) \<and> arr_length ps = minute_no (last gs) + 2
    \<and> (\<forall>i. 0 \<le> i \<longrightarrow> arr_at ps i =
         (if i = minute_no (last gs) + 1 then g
          else case find (\<lambda>g. minute_no g = i) (rev gs) of None \<Rightarrow> Undef | Some h \<Rightarrow> h))"
proof -
  have all: "list_all is_minute gs" "is_minute g" "is_minute (last gs)"
    using assms(1,3) by (simp_all add: list_all_iff)
  have sorted: "sorted_wrt (\<lambda>a b. minute_no a < minute_no b) gs"
    and lt: "minute_no (last gs) < minute_no g"
    using assms(2,3) by (simp_all add: sorted_wrt_append)
  define n where "n = minute_no (last gs) + 1"
  obtain ps where ps: "store_all gs (Obj Array []) = Obj Array ps" "arr_length ps = n"
    and at: "\<And>i. 0 \<le> i \<Longrightarrow> arr_at ps i = (case find (\<lambda>g. minute_no g = i) (rev gs) of None \<Rightarrow> Undef | Some g \<Rightarrow> g)"
    using store_all_arr[OF all(1)] Max_minutes[OF all(1) sorted assms(3)] unfolding n_def by metis
  have n: "0 < n" "n \<le> 1440" using is_minuteD(2,3)[OF all(3)] by (simp_all add: n_def)
  have "arr_at ps (n - 1) = last gs"
    using at[of "n - 1"] n find_last[OF assms(3)] by (simp add: n_def)
  then have lst: "js_get (Obj Array ps) (int_digits (n - 1)) = Inr (last gs)"
    using n by (simp add: js_get.simps(6) at_key_def)
  let ?ps = "put_prop (int_digits n) g ps"
  have "push_last s = Inr (Obj Array ?ps)"
    using is_minuteD(1)[OF all(2)] is_minuteD(1)[OF all(3)] n lst lt assms(4,5) ps
    by (simp add: push_last_def Let_def)
  moreover have "arr_length ?ps = minute_no (last gs) + 2"
  proof -
    have "is_index (int_digits n)" using n by (intro is_index_int_digits) auto
    then show ?thesis using n ps(2) by (simp add: arr_length_put digits_to_int_int_digits n_def)
  qed
  moreover have "arr_at ?ps i = (if i = minute_no (last gs) + 1 then g
          else case find (\<lambda>g. minute_no g = i) (rev gs) of None \<Rightarrow> Undef | Some h \<Rightarrow> h)" if "0 \<le> i" for i
    using that at[OF that] n by (simp flip: n_def)
  ultimately show ?thesis by blast
qed

lemma stats_of_content_merged:
  assumes "list_all json_ok items" "list_all is_minute items" "num_eq node_id (Fin (- 1))"
    and "merged_minutes items = gs @ [g]" "gs \<noteq> []"
    and "sorted_wrt (\<lambda>a b. minute_no a < minute_no b) (gs @ [g])"
  shows "\<exists>rs. stats_of_content E node_id (log_text items) = Inr (Obj Array rs)
    \<and> arr_length rs = minute_no (last gs) + 2
    \<and> (\<forall>i. 0 \<le> i \<longrightarrow> i < arr_length rs \<longrightarrow> arr_at rs i = filled E node_id (hd gs) i
         (if i = minute_no (last gs) + 1 then g
          else case find (\<lambda>g. minute_no g = i) (rev gs) of None \<Rightarrow> Undef | Some h \<Rightarrow> h))"
proof -
  obtain x xs where items: "items = x # xs" using assms(4,5) by (cases items) auto
  define s where "s = fold (minutes_line node_id) (split_on (CHR 0x0A) (log_text items)) minutes_init"
  have s: "s = fold (\<lambda>v. minutes_item node_id (the (stringify v)) v) (x # xs) minutes_init"
    using fold_minutes_lines[OF assms(1), of node_id minutes_init] by (simp only: s_def items)
  have mg: "merge_groups x xs = gs @ [g]" using assms(4) items by simp
  have st: "merged s = g" "stats_list s = store_all gs (Obj Array [])" "one_valid_item s = hd gs"
    using fold_minutes_merged[OF assms(3) _ s refl] assms(2,5) items by (simp_all add: mg)
  have all: "list_all is_minute (gs @ [g])"
    using merge_groups_minute[of x xs] assms(2) items mg by simp
  obtain ps where ps: "push_last s = Inr (Obj Array ps)" "arr_length ps = minute_no (last gs) + 2"
    and at: "\<And>i. 0 \<le> i \<Longrightarrow> arr_at ps i = (if i = minute_no (last gs) + 1 then g
          else case find (\<lambda>g. minute_no g = i) (rev gs) of None \<Rightarrow> Undef | Some h \<Rightarrow> h)"
    using push_last_merged[OF all assms(6,5) st(1,2)] by blast
  have "is_minute (last gs)" using all assms(5) by (simp add: list_all_iff)
  then have "arr_length ps < 4294967295" using is_minuteD(3)[of "last gs"] ps(2) by simp
  moreover have "obj_or_hole (arr_at ps j)" if "0 \<le> j" for j
    using at[OF that] stored_obj_or_hole[of gs] all is_minuteD(4)[of g] by auto
  ultimately obtain rs where rs: "fill_minutes E node_id (hd gs) (Obj Array ps) = Obj Array rs"
    "arr_length rs = arr_length ps"
    "\<And>i. 0 \<le> i \<Longrightarrow> i < arr_length ps \<Longrightarrow> arr_at rs i = filled E node_id (hd gs) i (arr_at ps i)"
    using fill_minutes_arr[of ps E node_id "hd gs"] by blast
  have "stats_of_content E node_id (log_text items) = Inr (Obj Array rs)"
    using rs(1) ps(1) st(3) by (simp add: stats_of_content_def Let_def flip: s_def)
  with rs(2,3) ps(2) at show ?thesis by auto
qed

lemma stats_of_content_one_minute:
  assumes "list_all json_ok items" "list_all is_minute items" "num_eq node_id (Fin (- 1))"
    and "merged_minutes items = [g]"
  shows "stats_of_content E node_id (log_text items) = Inr (Obj Array [])"
proof -
  obtain x xs where items: "items = x # xs" using assms(4) by (cases items) auto
  define s where "s = fold (minutes_line node_id) (split_on (CHR 0x0A) (log_text items)) minutes_init"
  have s: "s = fold (\<lambda>v. minutes_item node_id (the (stringify v)) v) (x # xs) minutes_init"
    using fold_minutes_lines[OF assms(1), of node_id minutes_init] by (simp only: s_def items)
  have mg: "merge_groups x xs = [g]" using assms(4) items by simp
  have st: "merged s = g" "stats_list s = Obj Array []"
    using fold_minutes_merged[OF assms(3) _ s refl] assms(2) items by (simp_all add: mg store_all_def)
  have "list_all is_minute (merge_groups x xs)" using assms(2) items by (intro merge_groups_minute) simp_all
  then have "js_get g ''m_index'' = Inr (IntV (minute_no g))" using mg is_minuteD(1) by simp
  then have "push_last s = Inr (Obj Array [])" using st by (simp add: push_last_def)
  then show ?thesis by (simp add: stats_of_content_def Let_def fill_minutes_def flip: s_def)
qed

subsection \<open>What a merged minute holds\<close>

definition info_count :: "jsval \<Rightarrow> string list \<Rightarrow> int" where
  "info_count item p = count_at (prop_of item ''info'') p"

definition info_fits :: "jsval \<Rightarrow> jsval \<Rightarrow> bool" where
  "info_fits m x \<longleftrightarrow> mergeable (prop_of m ''info'') (prop_of x ''info'')
     \<and> wf_val (prop_of x ''info'') \<and> (case prop_of x ''info'' of Obj _ _ \<Rightarrow> True | _ \<Rightarrow> False)"

lemma merge_info_count:
  assumes "is_minute m" "is_minute x" "info_fits m x"
  shows "snd (merge_info m x) = None" "info_count (fst (merge_info m x)) p = info_count m p + info_count x p"
proof -
  obtain ps qs where o: "m = Obj Plain ps" "x = Obj Plain qs" using assms is_minuteD(4) by blast
  obtain kd ss where ss: "at_key qs ''info'' = Obj kd ss"
    using assms(3) o by (auto simp: info_fits_def split: jsval.splits)
  have f: "mergeable (at_key ps ''info'') (at_key qs ''info'')" "wf_val (at_key qs ''info'')"
    using assms(3) o by (simp_all add: info_fits_def)
  obtain us where us: "accumulateObj (at_key ps ''info'') (at_key qs ''info'') = (Obj Plain us, None)"
    "\<And>p. count_at (Obj Plain us) p = count_at (at_key ps ''info'') p + count_at (at_key qs ''info'') p"
    using accumulateObj_counts[OF f ss] by blast
  obtain ds where "at_key ps ''info'' = Obj Plain ds" using mergeable_plain[OF f(1)] by blast
  then have m: "merge_info m x = (Obj Plain (put_prop ''info'' (Obj Plain us) ps), None)"
    using o us(1) by (simp add: merge_info_def store_back_def)
  show "snd (merge_info m x) = None" by (simp add: m)
  show "info_count (fst (merge_info m x)) p = info_count m p + info_count x p"
    unfolding m using us(2)[of p] o by (simp add: info_count_def)
qed

interpretation minute: key_merge "\<lambda>m x. fst (merge_info m x)" minute_no info_count is_minute info_fits
  by unfold_locales (simp_all add: merge_info_minute merge_info_count)

lemma merge_groups_groups: "merge_groups m xs = minute.groups m xs"
  by (induction m xs rule: merge_groups.induct) auto

text \<open>Each item that is merged fits the merged item it meets.\<close>

fun groups_fit :: "jsval \<Rightarrow> jsval list \<Rightarrow> bool" where
  "groups_fit m [] = True"
| "groups_fit m (x # xs) =
     (if minute_no m = minute_no x then info_fits m x \<and> groups_fit (fst (merge_info m x)) xs
      else groups_fit x xs)"

fun merged_fits :: "jsval list \<Rightarrow> bool" where
  "merged_fits [] = True"
| "merged_fits (x # xs) = groups_fit x xs"

lemma groups_fit_all: "groups_fit m xs = minute.all_fit m xs"
  by (induction m xs rule: groups_fit.induct) auto

lemma merged_minutes_sorted:
  "list_all is_minute items \<Longrightarrow> sorted (map minute_no items) \<Longrightarrow>
   sorted_wrt (\<lambda>a b. minute_no a < minute_no b) (merged_minutes items)"
  using minute.groups_sorted[of "hd items" "tl items"]
  by (cases items) (auto simp: merge_groups_groups sorted_wrt_map)

lemma merged_minutes_count:
  assumes "list_all is_minute items" "sorted (map minute_no items)" "merged_fits items" "g \<in> set (merged_minutes items)"
  shows "info_count g p = (\<Sum>x\<leftarrow>filter (\<lambda>x. minute_no x = minute_no g) items. info_count x p)"
proof (cases items)
  case (Cons x xs)
  then show ?thesis
    using assms minute.groups_val[of x xs g p] by (simp add: merge_groups_groups groups_fit_all)
qed (use assms in simp)

lemma merged_minutes_keys:
  "list_all is_minute items \<Longrightarrow> minute_no ` set (merged_minutes items) = minute_no ` set items"
  using minute.groups_keys[of "hd items" "tl items"] by (cases items) (auto simp: merge_groups_groups)

subsection \<open>Properties\<close>

text \<open>
  C4: the minutes of one node. The array of \<open>getStatsOfDay\<close> ends with the node's last minute; at
  every index stands the last item the node logged for that minute of the day, with its minute as
  text, or the placeholder with zero counters.
\<close>

theorem getStatsOfDay_one_node:
  assumes "fs (getFileName E dirname (set_date E (Some now) (num_add (get_date E (Some now)) offset))) = Some (log_text items)"
    and "list_all json_ok items" "\<not> num_eq node_id (Fin (- 1))"
    and "own = filter (from_node node_id) items" "list_all is_minute own" "own \<noteq> []"
  shows "\<exists>rs. getStatsOfDay E dirname fs now offset node_id = Inr (Obj Array rs)
    \<and> arr_length rs = Max ((\<lambda>g. minute_no g + 1) ` set own)
    \<and> (\<forall>i. 0 \<le> i \<longrightarrow> i < arr_length rs \<longrightarrow>
         arr_at rs i = filled E node_id (hd (filter truthy items)) i
           (case find (\<lambda>g. minute_no g = i) (rev own) of None \<Rightarrow> Undef | Some g \<Rightarrow> g))"
  using stats_of_content_node[OF assms(2-6)] by (simp add: getStatsOfDay_def Let_def assms(1))

theorem getStatsOfDay_one_node_witness:
  "\<exists>rs. getStatsOfDay utc_env ''/srv'' (\<lambda>_. Some (log_text
        [up_item 1 0 ''2015-06-01T00:00:59.000Z'' 10, up_item 2 1 ''2015-06-01T00:01:59.000Z'' 99,
         up_item 1 2 ''2015-06-01T00:02:59.000Z'' 14])) 1433116800000 (Fin 0) (Fin 1) = Inr (Obj Array rs)
     \<and> arr_length rs = 3
     \<and> arr_at rs 1 = empty_minute (Fin 1) 1 (up_item 1 0 ''2015-06-01T00:00:59.000Z'' 10)
     \<and> count_at (arr_at rs 2) [''info'', ''up''] = 14"
proof -
  let ?a = "up_item 1 0 ''2015-06-01T00:00:59.000Z'' 10" and ?c = "up_item 1 2 ''2015-06-01T00:02:59.000Z'' 14"
  let ?items = "[?a, up_item 2 1 ''2015-06-01T00:01:59.000Z'' 99, ?c]"
  let ?fs = "\<lambda>_. Some (log_text ?items)"
  have h: "list_all json_ok ?items" "\<not> num_eq (Fin 1) (Fin (- 1))"
    "[?a, ?c] = filter (from_node (Fin 1)) ?items" "list_all is_minute [?a, ?c]" "[?a, ?c] \<noteq> []"
    by code_simp+
  have m: "minute_no ?a = 0" "minute_no ?c = 2" "truthy ?a" by code_simp+
  obtain rs where rs: "getStatsOfDay utc_env ''/srv'' ?fs 1433116800000 (Fin 0) (Fin 1) = Inr (Obj Array rs)"
    and len: "arr_length rs = Max ((\<lambda>g. minute_no g + 1) ` set [?a, ?c])"
    and at: "\<And>i. 0 \<le> i \<Longrightarrow> i < arr_length rs \<Longrightarrow> arr_at rs i = filled utc_env (Fin 1) (hd (filter truthy ?items)) i
           (case find (\<lambda>g. minute_no g = i) (rev [?a, ?c]) of None \<Rightarrow> Undef | Some g \<Rightarrow> g)"
    using getStatsOfDay_one_node[of ?fs utc_env "''/srv''" 1433116800000 "Fin 0" ?items, OF refl h] by blast
  have l: "arr_length rs = 3" using len m by simp
  have "arr_at rs 1 = empty_minute (Fin 1) 1 ?a" using at[of 1] l m by (simp add: filled_def)
  moreover have "count_at (arr_at rs 2) [''info'', ''up''] = 14"
    using at[of 2] l m by (simp add: filled_def count_at_key at_key_def lookup_put_prop)
  ultimately show ?thesis using rs l by blast
qed



text \<open>
  C6: the minutes of all nodes merged. Every merged minute but the last is stored at its own
  index; the last one is pushed right behind the one before it, whatever its index is. The other
  places hold the placeholder.
\<close>

theorem getStatsOfDay_merged:
  assumes "fs (getFileName E dirname (set_date E (Some now) (num_add (get_date E (Some now)) offset))) = Some (log_text items)"
    and "list_all json_ok items" "list_all is_minute items" "sorted (map minute_no items)"
    and "merged_minutes items = gs @ [g]" "gs \<noteq> []"
  shows "\<exists>rs. getStatsOfDay E dirname fs now offset (Fin (- 1)) = Inr (Obj Array rs)
    \<and> arr_length rs = minute_no (last gs) + 2
    \<and> (\<forall>i. 0 \<le> i \<longrightarrow> i < arr_length rs \<longrightarrow> arr_at rs i = filled E (Fin (- 1)) (hd gs) i
         (if i = minute_no (last gs) + 1 then g
          else case find (\<lambda>g. minute_no g = i) (rev gs) of None \<Rightarrow> Undef | Some h \<Rightarrow> h))"
  using stats_of_content_merged[OF assms(2,3) _ assms(5,6), of "Fin (- 1)" E]
    merged_minutes_sorted[OF assms(3,4)] assms(5)
  by (simp add: getStatsOfDay_def Let_def assms(1))

theorem getStatsOfDay_merged_witness:
  "\<exists>rs. getStatsOfDay utc_env ''/srv'' (\<lambda>_. Some (log_text
        [up_item 1 0 [] 10, up_item 2 0 [] 20, up_item 1 5 [] 14])) 1433116800000 (Fin 0) (Fin (- 1)) = Inr (Obj Array rs)
     \<and> arr_length rs = 2 \<and> minute_no (arr_at rs 1) = 5"
proof -
  let ?items = "[up_item 1 0 [] 10, up_item 2 0 [] 20, up_item 1 5 [] 14]"
  let ?g = "up_item 1 5 [] 14" and ?h = "fst (merge_info (up_item 1 0 [] 10) (up_item 2 0 [] 20))"
  let ?fs = "\<lambda>_. Some (log_text ?items)"
  have h: "list_all json_ok ?items" "list_all is_minute ?items" "map minute_no ?items = [0, 0, 5]"
    "merged_minutes ?items = [?h] @ [?g]" "minute_no ?h = 0" by code_simp+
  have "sorted (map minute_no ?items)" unfolding h(3) by simp
  from getStatsOfDay_merged[of ?fs utc_env "''/srv''" 1433116800000 "Fin 0" ?items "[?h]" ?g, OF refl h(1,2) this h(4)]
  obtain rs where rs: "getStatsOfDay utc_env ''/srv'' ?fs 1433116800000 (Fin 0) (Fin (- 1)) = Inr (Obj Array rs)"
      "arr_length rs = minute_no ?h + 2"
    and at: "\<And>i. 0 \<le> i \<Longrightarrow> i < arr_length rs \<Longrightarrow> i = minute_no ?h + 1 \<Longrightarrow> arr_at rs i = filled utc_env (Fin (- 1)) ?h i ?g"
    by auto
  have "arr_at rs 1 = filled utc_env (Fin (- 1)) ?h 1 ?g" using at[of 1] rs(2) h(5) by simp
  moreover have "minute_no (filled utc_env (Fin (- 1)) ?h 1 ?g) = 5"
    by (simp add: filled_def minute_no_plain at_key_def lookup_put_prop)
  ultimately show ?thesis using rs h(5) by auto
qed

text \<open>
  C7: the daily report over all nodes is the difference of the first merged minute and the last but
  one: the last merged minute of the file is not taken into account, and a file with a single
  merged minute has no report.
\<close>

theorem parseDailyStat_all_nodes:
  assumes "list_all json_ok items" "list_all is_minute items" "ms = butlast (merged_minutes items)"
  shows "parseDailyStat E (log_text items) (Fin (- 1)) =
    (if ms = [] then Inr None
     else rbind (subtractObj (last ms) (hd ms)) (\<lambda>d.
       Inr (Some \<lparr>diff_log = with_prop (with_prop d ''start_minute'' (StrV (getMinuteOfTime E (prop_of (hd ms) ''time''))))
                  ''end_minute'' (StrV (getMinuteOfTime E (prop_of (last ms) ''time''))),
             stat_date = new_date E (prop_of (hd ms) ''time'')\<rparr>)))"
  using parseDailyStat_merged[OF assms(1,2) _ assms(3)] by simp

theorem parseDailyStat_all_nodes_witness:
  "parseDailyStat utc_env (log_text [up_item 1 0 [] 10, up_item 2 0 [] 20]) (Fin (- 1)) = Inr None"
proof -
  let ?items = "[up_item 1 0 [] 10, up_item 2 0 [] 20]"
  have h: "list_all json_ok ?items" "list_all is_minute ?items" "[] = butlast (merged_minutes ?items)" by code_simp+
  show ?thesis using parseDailyStat_all_nodes[OF h, of utc_env] by simp
qed

text \<open>
  a day whose log has only one merged minute is shown as an empty day.
\<close>

theorem getStatsOfDay_single_minute:
  assumes "fs (getFileName E dirname (set_date E (Some now) (num_add (get_date E (Some now)) offset))) = Some (log_text items)"
    and "list_all json_ok items" "list_all is_minute items" "merged_minutes items = [g]"
  shows "getStatsOfDay E dirname fs now offset (Fin (- 1)) = Inr (Obj Array [])"
  using stats_of_content_one_minute[OF assms(2,3) _ assms(4)] by (simp add: getStatsOfDay_def Let_def assms(1))

theorem getStatsOfDay_single_minute_witness:
  "getStatsOfDay utc_env ''/srv'' (\<lambda>_. Some (log_text [up_item 1 0 [] 10])) 1433116800000 (Fin 0) (Fin (- 1))
   = Inr (Obj Array [])"
  by (rule getStatsOfDay_single_minute[OF refl, of _ _ _ _ _ "up_item 1 0 [] 10"]) code_simp+

end
