(* ===== verification/Monitor_Laws.thy ===== *)
theory Monitor_Laws
  imports Monitor_Core Stats_Minutes
begin

text \<open>
  The monitor as a state machine: the invariant of its nodes and pending queries, one round of
  queries per minute, what a response does, and the log files it writes.
\<close>

subsection \<open>The output of the operations\<close>

lemma out_fields [simp]:
  "store (out es s) = store s" "g_nodes (out es s) = g_nodes s" "pending (out es s) = pending s"
  "g_file (out es s) = g_file s" "g_client (out es s) = g_client s" "g_is_queried (out es s) = g_is_queried s"
  "effects (out es s) = effects s @ es" "g_client_num (out es s) = g_client_num s"
  by (simp_all add: out_def)

lemma set_node_fields [simp]:
  "store (set_node a f s) = (store s)[a := f (store s ! a)]" "g_nodes (set_node a f s) = g_nodes s"
  "pending (set_node a f s) = pending s" "g_file (set_node a f s) = g_file s"
  "g_client (set_node a f s) = g_client s" "effects (set_node a f s) = effects s"
  "g_is_queried (set_node a f s) = g_is_queried s"
  by (simp_all add: set_node_def)

definition fired :: "nat option \<Rightarrow> string \<Rightarrow> jsval \<Rightarrow> effect list" where
  "fired c e data = (case c of None \<Rightarrow> [] | Some c \<Rightarrow> [Emit c e data, Broadcast c e data])"

lemma fireEvent_out: "fireEvent e data s = out (fired (g_client s) e data) s"
  by (simp add: fireEvent_def fired_def out_def split: option.splits)

text \<open>The requests in a list of effects, and the text appended to a file.\<close>

fun is_request :: "effect \<Rightarrow> bool" where
  "is_request (Request u) = True"
| "is_request _ = False"

abbreviation requests :: "monitor \<Rightarrow> effect list" where
  "requests s \<equiv> filter is_request (effects s)"

fun appended_to :: "string \<Rightarrow> effect \<Rightarrow> string" where
  "appended_to f (Append g t) = (if g = f then t else [])"
| "appended_to f _ = []"

definition file_text :: "string \<Rightarrow> effect list \<Rightarrow> string" where
  "file_text f es = concat (map (appended_to f) es)"

lemma file_text_append [simp]: "file_text f (es @ es') = file_text f es @ file_text f es'"
  by (simp add: file_text_def)

lemma fired_plain [simp]: "filter is_request (fired c e data) = []" "file_text f (fired c e data) = []"
  by (auto simp: fired_def file_text_def split: option.splits)

subsection \<open>The operations keep the invariant\<close>

definition nodes_ok :: "monitor \<Rightarrow> bool" where
  "nodes_ok s \<longleftrightarrow> wf_props (g_nodes s)
     \<and> (\<forall>(k, a) \<in> set (g_nodes s). a < length (store s) \<and> nd_id (store s ! a) = k)"

definition query_ok :: "monitor \<Rightarrow> query \<Rightarrow> bool" where
  "query_ok s q \<longleftrightarrow> q_node q < length (store s) \<and> 0 \<le> q_index q \<and> q_index q < 1440"

text \<open>Every file holds what a list of items prints as, and the items are minutes.\<close>

definition logs_ok :: "monitor \<Rightarrow> bool" where
  "logs_ok s \<longleftrightarrow> (\<forall>f. \<exists>items. file_text f (effects s) = log_text items \<and> list_all is_minute items)"

definition mon_ok :: "monitor \<Rightarrow> bool" where
  "mon_ok s \<longleftrightarrow> nodes_ok s \<and> list_all (query_ok s) (pending s) \<and> logs_ok s"

text \<open>An operation that only changes fields of nodes other than their identity and does not append.\<close>

definition identity :: "node \<Rightarrow> string \<times> string \<times> string" where
  "identity n = (nd_id n, nd_addr n, stats_url n)"

definition same_nodes :: "monitor \<Rightarrow> monitor \<Rightarrow> bool" where
  "same_nodes s t \<longleftrightarrow> g_nodes t = g_nodes s \<and> map identity (store t) = map identity (store s) \<and> pending t = pending s"

lemma same_nodes_trans [trans]: "same_nodes s t \<Longrightarrow> same_nodes t u \<Longrightarrow> same_nodes s u"
  by (simp add: same_nodes_def)

lemma same_nodes_refl [simp]: "same_nodes s s"
  by (simp add: same_nodes_def)

lemma same_nodes_out [simp]: "same_nodes s (out es t) = same_nodes s t"
  by (simp add: same_nodes_def)

lemma same_nodes_set [simp]:
  assumes "\<And>n. identity (f n) = identity n"
  shows "same_nodes s (set_node a f t) = same_nodes s t"
proof -
  have "map identity ((store t)[a := f (store t ! a)]) = map identity (store t)"
  proof (rule nth_equalityI)
    show "map identity ((store t)[a := f (store t ! a)]) ! i = map identity (store t) ! i"
      if "i < length (map identity ((store t)[a := f (store t ! a)]))" for i
      using that by (cases "a = i") (simp_all add: assms)
  qed simp
  then show ?thesis by (simp add: same_nodes_def)
qed

lemma same_nodes_fire [simp]: "same_nodes s (fireEvent e data t) = same_nodes s t"
  by (simp add: fireEvent_out)

lemma same_nodes_nth:
  assumes "same_nodes s t"
  shows "length (store t) = length (store s)"
    "a < length (store s) \<Longrightarrow> nd_id (store t ! a) = nd_id (store s ! a) \<and> stats_url (store t ! a) = stats_url (store s ! a)"
proof -
  have m: "map identity (store t) = map identity (store s)" using assms by (simp add: same_nodes_def)
  show len: "length (store t) = length (store s)" using arg_cong[OF m, of length] by simp
  show "nd_id (store t ! a) = nd_id (store s ! a) \<and> stats_url (store t ! a) = stats_url (store s ! a)"
    if "a < length (store s)"
    using arg_cong[OF m, of "\<lambda>xs. xs ! a"] that len by (simp add: identity_def)
qed

lemma same_nodes_ok:
  assumes "same_nodes s t" "mon_ok s" "logs_ok t"
  shows "mon_ok t"
proof -
  have g: "g_nodes t = g_nodes s" "pending t = pending s" using assms(1) by (simp_all add: same_nodes_def)
  show ?thesis using assms(2,3) g same_nodes_nth[OF assms(1)]
    by (auto simp: mon_ok_def nodes_ok_def query_ok_def list_all_iff)
qed

lemma logs_ok_keep: "logs_ok s \<Longrightarrow> (\<And>f. file_text f (effects t) = file_text f (effects s)) \<Longrightarrow> logs_ok t"
  by (simp add: logs_ok_def)

lemma logs_ok_out: "logs_ok s \<Longrightarrow> (\<And>f. file_text f es = []) \<Longrightarrow> logs_ok (out es s)"
  by (simp add: logs_ok_def)

lemma file_text_caught [simp]: "file_text f [Caught e] = []" "file_text f [LogError m] = []"
  "file_text f [Request u] = []" "file_text f [] = []"
  by (simp_all add: file_text_def)

lemma logs_ok_set [simp]: "logs_ok (set_node a f s) = logs_ok s"
  by (simp add: logs_ok_def)

lemma logs_ok_fire [simp]: "logs_ok (fireEvent e data s) = logs_ok s"
  by (simp add: fireEvent_out logs_ok_def)

lemma logs_ok_append:
  assumes "logs_ok s" "is_minute item"
  shows "logs_ok (append_item item s)"
proof (cases "g_file s")
  case (Some g)
  have "\<exists>items. file_text f (effects (append_item item s)) = log_text items \<and> list_all is_minute items" for f
  proof -
    obtain items where items: "file_text f (effects s) = log_text items" "list_all is_minute items"
      using assms(1) by (auto simp: logs_ok_def)
    show ?thesis
    proof (cases "g = f")
      case True
      then have "file_text f (effects (append_item item s)) = log_text (items @ [item])"
        using Some items(1) by (simp add: append_item_def file_text_def log_text_def)
      then show ?thesis using items(2) assms(2) by (intro exI[of _ "items @ [item]"]) simp
    next
      case False
      then show ?thesis using Some items by (auto simp: append_item_def file_text_def)
    qed
  qed
  then show ?thesis by (simp add: logs_ok_def)
qed (use assms in \<open>simp add: append_item_def logs_ok_def\<close>)

lemma StatInfo_minute: "0 \<le> i \<Longrightarrow> i < 1440 \<Longrightarrow> is_minute (StatInfo ident addr url t i d info)"
  by (simp add: StatInfo_def is_minute_plain at_key_def)

lemma same_nodes_append [simp]: "same_nodes s (append_item item t) = same_nodes s t"
  by (simp add: append_item_def split: option.splits)

lemma query_failed_same: "same_nodes s (query_failed a s)"
  by (simp add: query_failed_def Let_def identity_def)

lemma query_answered_same: "same_nodes s (query_answered q body t s)"
  by (simp add: query_answered_def Let_def identity_def split: sum.splits)

lemma on_response_same: "same_nodes s (on_response q r t s)"
  by (simp add: on_response_def query_failed_same query_answered_same split: response.splits)

lemma query_failed_ok: "mon_ok s \<Longrightarrow> mon_ok (query_failed a s)"
  by (rule same_nodes_ok[OF query_failed_same])
     (auto simp: query_failed_def Let_def mon_ok_def intro!: logs_ok_out)

lemma query_answered_ok:
  assumes "mon_ok s" "query_ok s q"
  shows "mon_ok (query_answered q body t s)"
proof (rule same_nodes_ok[OF _ assms(1)])
  show "same_nodes s (query_answered q body t s)" by (rule query_answered_same)
  have "is_minute (StatInfo ident addr url tm (q_index q) d info)" for ident addr url tm d info
    using assms(2) by (intro StatInfo_minute) (simp_all add: query_ok_def)
  then show "logs_ok (query_answered q body t s)"
    using assms(1)
    by (auto simp: query_answered_def Let_def mon_ok_def split: sum.splits intro!: logs_ok_out logs_ok_append)
qed

lemma on_response_ok: "mon_ok s \<Longrightarrow> query_ok s q \<Longrightarrow> mon_ok (on_response q r t s)"
  by (auto simp: on_response_def query_failed_ok query_answered_ok split: response.splits)

lemma minute_index_range: "0 \<le> minute_index E t" "minute_index E t < 1440"
proof -
  have "0 \<le> hour_of l" "hour_of l < 24" "0 \<le> min_of l" "min_of l < 60" for l
    by (simp_all add: hour_of_def min_of_def)
  from this[of "local_time E t"] show "0 \<le> minute_index E t" "minute_index E t < 1440"
    unfolding minute_index_def by linarith+
qed

lemma fold_queryNode:
  "fold (\<lambda>(i, a). queryNode t ix a) ns s =
     (out (map (\<lambda>(i, a). Request (stats_url (store s ! a))) ns) s)
       \<lparr>pending := pending s @ map (\<lambda>(i, a). \<lparr>start_time = t, q_index = ix, q_node = a\<rparr>) ns\<rparr>"
proof (induction ns arbitrary: s)
  case (Cons n ns)
  then show ?case by (cases n) (simp add: queryNode_def out_def)
qed (simp add: out_def)

lemma queryNodes_ok:
  assumes "mon_ok s"
  shows "mon_ok (queryNodes E dirname now s)"
proof -
  have "file_text f (map (\<lambda>(i, a). Request (stats_url (store s ! a))) ns) = []"
    for f and ns :: "(string \<times> nat) list"
    by (auto simp: file_text_def)
  then show ?thesis
    using assms minute_index_range[of E now]
    by (auto simp: queryNodes_def Let_def fold_queryNode mon_ok_def nodes_ok_def query_ok_def logs_ok_def list_all_iff)
qed

lemma addNode_ok:
  assumes "mon_ok s"
  shows "mon_ok (addNode ident addr s)"
proof -
  let ?t = "addNode ident addr s"
  have "wf_props (g_nodes ?t)" using assms by (simp add: mon_ok_def nodes_ok_def addNode_def wf_put_prop)
  moreover have "a < length (store ?t) \<and> nd_id (store ?t ! a) = k" if "(k, a) \<in> set (g_nodes ?t)" for k a
  proof -
    have "(k, a) = (ident, length (store s)) \<or> (k, a) \<in> set (g_nodes s)"
      using that put_prop_set[of ident "length (store s)" "g_nodes s"] by (auto simp: addNode_def)
    then show ?thesis
      using assms by (auto simp: mon_ok_def nodes_ok_def addNode_def Node_def Let_def nth_append)
  qed
  moreover have "list_all (query_ok ?t) (pending ?t)" "logs_ok ?t"
    using assms by (auto simp: mon_ok_def query_ok_def list_all_iff addNode_def logs_ok_def)
  ultimately show ?thesis by (auto simp: mon_ok_def nodes_ok_def)
qed

lemma client_ok:
  assumes "mon_ok s"
  shows "mon_ok (onClientConnect c s)" "mon_ok (onClientDisconnect c s)"
  by (rule same_nodes_ok[OF _ assms];
      use assms in \<open>simp add: same_nodes_def onClientConnect_def onClientDisconnect_def Let_def mon_ok_def logs_ok_def\<close>)+

lemma handle_ok: "mon_ok s \<Longrightarrow> enabled ev s \<Longrightarrow> mon_ok (handle E dirname ev s)"
proof (cases ev)
  case (Response k r t)
  assume s: "mon_ok s" and en: "enabled ev s"
  have k: "k < length (pending s)" using en Response by simp
  have "mon_ok (take_pending k s)"
    using s set_take_subset[of k "pending s"] set_drop_subset[of "Suc k" "pending s"]
    by (auto simp: take_pending_def mon_ok_def nodes_ok_def query_ok_def list_all_iff logs_ok_def)
  moreover have "query_ok (take_pending k s) (pending s ! k)"
    using s k by (simp add: take_pending_def mon_ok_def query_ok_def list_all_iff)
  ultimately show ?thesis using Response by (simp add: on_response_ok)
qed (simp_all add: queryNodes_ok addNode_ok client_ok)

interpretation mon: machine enabled "handle E dirname" mon_ok for E dirname
  by unfold_locales (rule handle_ok)

subsection \<open>One round of queries per minute\<close>

text \<open>The ticks in the last second of a minute are those that may query.\<close>

definition in_last_second :: "jsenv \<Rightarrow> int \<Rightarrow> bool" where
  "in_last_second E now \<longleftrightarrow> sec_of (local_time E now) = 59"

lemma last_second: "num_eq (get_seconds E (Some now)) (Fin 59) \<longleftrightarrow> in_last_second E now"
proof -
  have "(of_int (sec_of (local_time E now)) :: rat) = 59 \<longleftrightarrow> sec_of (local_time E now) = 59"
    using of_int_eq_iff[of "sec_of (local_time E now)" 59, where 'a = rat] by simp
  then show ?thesis by (simp add: get_seconds_def on_date_def in_last_second_def)
qed

fun ticks :: "event list \<Rightarrow> int list" where
  "ticks (Tick now # es) = now # ticks es"
| "ticks (_ # es) = ticks es"
| "ticks [] = []"

lemma requests_response [simp]: "requests (on_response q r t s) = requests s"
proof -
  have "requests (query_failed a s) = requests s" for a
    by (simp add: query_failed_def Let_def fireEvent_out)
  moreover have "requests (append_item item u) = requests u" for item u
    by (simp add: append_item_def split: option.splits)
  then have "requests (query_answered q body t s) = requests s" for body
    by (simp add: query_answered_def Let_def fireEvent_out split: sum.splits)
  ultimately show ?thesis by (simp add: on_response_def split: response.splits)
qed

lemma queried_response [simp]: "g_is_queried (on_response q r t s) = g_is_queried s"
proof -
  have "g_is_queried (query_failed a s) = g_is_queried s" for a
    by (simp add: query_failed_def Let_def fireEvent_out)
  moreover have "g_is_queried (append_item item u) = g_is_queried u" for item u
    by (simp add: append_item_def split: option.splits)
  then have "g_is_queried (query_answered q body t s) = g_is_queried s" for body
    by (simp add: query_answered_def Let_def fireEvent_out split: sum.splits)
  ultimately show ?thesis by (simp add: on_response_def split: response.splits)
qed

lemma handle_other:
  assumes "\<And>now. ev \<noteq> Tick now"
  shows "requests (handle E dirname ev s) = requests s" "g_is_queried (handle E dirname ev s) = g_is_queried s"
  using assms by (cases ev; simp add: take_pending_def onClientConnect_def onClientDisconnect_def Let_def addNode_def)+

lemma ticks_cons: "ticks (ev # es) = (case ev of Tick now \<Rightarrow> [now] | _ \<Rightarrow> []) @ ticks es"
  by (cases ev) auto

text \<open>Ticks outside the last second do not query, and allow the next query.\<close>

lemma run_before:
  assumes "mon_run E dirname s es t" "list_all (\<lambda>now. \<not> in_last_second E now) (ticks es)" "\<not> g_is_queried s"
  shows "requests t = requests s \<and> \<not> g_is_queried t"
  using assms
proof (induction es arbitrary: s)
  case (Cons ev es)
  have "requests (handle E dirname ev s) = requests s \<and> \<not> g_is_queried (handle E dirname ev s)"
  proof (cases "\<exists>now. ev = Tick now")
    case True
    then show ?thesis using Cons.prems(2) by (auto simp: queryNodes_def last_second)
  qed (use handle_other Cons.prems(3) in simp)
  then show ?case using Cons by (auto simp: ticks_cons)
qed simp

text \<open>After a round, further ticks in the same last second do nothing.\<close>

lemma run_after:
  assumes "mon_run E dirname s es t" "list_all (in_last_second E) (ticks es)" "g_is_queried s"
  shows "requests t = requests s \<and> g_is_queried t"
  using assms
proof (induction es arbitrary: s)
  case (Cons ev es)
  have "requests (handle E dirname ev s) = requests s \<and> g_is_queried (handle E dirname ev s)"
  proof (cases "\<exists>now. ev = Tick now")
    case True
    then show ?thesis using Cons.prems(2,3) by (auto simp: queryNodes_def last_second)
  qed (use handle_other Cons.prems(3) in simp)
  then show ?case using Cons by (auto simp: ticks_cons)
qed simp

lemma queryNodes_round:
  assumes "in_last_second E now" "\<not> g_is_queried s"
  shows "requests (queryNodes E dirname now s) =
      requests s @ map (\<lambda>(i, a). Request (stats_url (store s ! a))) (g_nodes s)"
    "g_is_queried (queryNodes E dirname now s)"
    "pending (queryNodes E dirname now s) = pending s @
       map (\<lambda>(i, a). \<lparr>start_time = now, q_index = minute_index E now, q_node = a\<rparr>) (g_nodes s)"
  using assms
  by (auto simp: queryNodes_def last_second Let_def fold_queryNode filter_map comp_def case_prod_beta intro!: map_cong)

lemma one_round:
  assumes "mon_run E dirname s (before @ Tick now # after) t" "\<not> g_is_queried s"
    and "list_all (\<lambda>now. \<not> in_last_second E now) (ticks before)" "in_last_second E now"
    and "list_all (in_last_second E) (ticks after)"
  shows "\<exists>u. mon_run E dirname s before u \<and>
    requests t = requests s @ map (\<lambda>(i, a). Request (stats_url (store u ! a))) (g_nodes u)"
proof -
  obtain u where u: "mon_run E dirname s before u" "mon_run E dirname (queryNodes E dirname now u) after t"
    using assms(1) by (auto simp: run_append)
  have b: "requests u = requests s" "\<not> g_is_queried u" using run_before[OF u(1) assms(3,2)] by simp_all
  have "requests t = requests (queryNodes E dirname now u)"
    using run_after[OF u(2) assms(5)] queryNodes_round(2)[OF assms(4) b(2)] by simp
  with b u(1) queryNodes_round(1)[OF assms(4) b(2)] show ?thesis by metis
qed

subsection \<open>What a response does\<close>

lemma on_response_failed:
  assumes "r = Failed \<or> (\<exists>code body. r = Got code body \<and> code \<noteq> 200)"
    and "s' = s\<lparr>store := (store s)[q_node q := (store s ! q_node q)\<lparr>alive := False\<rparr>]\<rparr>"
  shows "on_response q r t s =
    out (LogError ''failed to query node: undefined'' # fired (g_client s) ''server status'' (status_of (q_node q) s')) s'"
proof -
  have "on_response q r t s = query_failed (q_node q) s" using assms(1) by (auto simp: on_response_def)
  then show ?thesis
    by (simp add: query_failed_def Let_def fireEvent_out assms(2) out_def set_node_def status_of_def)
qed

text \<open>The node after a good response.\<close>

definition refreshed :: "jsval \<Rightarrow> jsval \<Rightarrow> node \<Rightarrow> node" where
  "refreshed st pk n = n\<lparr>alive := True, server_start_time := st, user_pk := pk\<rparr>"

lemma on_response_good:
  assumes "json_parse body = Inr info" "js_get info ''result'' = Inr result"
    and "js_get result ''server_start_datetime'' = Inr st"
    and "js_get result ''user'' = Inr u" "js_get u ''max_user_number'' = Inr pk"
    and "g_file s = Some f" "q_node q < length (store s)" "n = store s ! q_node q"
    and "item = StatInfo (StrV (nd_id n)) (nd_addr n) (stats_url n) (start_time q) (q_index q) (t - start_time q) result"
    and "s' = s\<lparr>store := (store s)[q_node q := refreshed st pk n]\<rparr>"
  shows "on_response q (Got 200 body) t s =
    out (fired (g_client s) ''new stats'' item @ fired (g_client s) ''server status'' (status_of (q_node q) s')
      @ [Append f (the (stringify item) @ [CHR 0x0A])]) s'"
  using assms
  by (simp add: on_response_def query_answered_def Let_def fireEvent_out append_item_def out_def set_node_def
      status_of_def refreshed_def)

lemma on_response_not_json:
  assumes "json_parse body = Inl e"
  shows "on_response q (Got 200 body) t s = out [Caught e] s"
  using assms by (simp add: on_response_def query_answered_def Let_def)

text \<open>The logged item can be read back when its statistics and its times are in range.\<close>

lemma StatInfo_json_ok:
  assumes "json_ok info" "safe_int i" "safe_int d"
  shows "json_ok (StatInfo (StrV ident) addr url t i d info)"
proof -
  have "int_num (num_of_int i)" "int_num (num_of_int d)" using assms(2,3) int_num_iff by blast+
  moreover have "wf_props [(''node_id'', StrV ident), (''node_addr'', StrV addr), (''stats_url'', StrV url),
       (''time'', StrV (iso_string t)), (''m_index'', IntV i), (''delay'', IntV d), (''info'', info)]"
    by (simp add: wf_props_def key_before_def is_index_def is_digit_def)
  ultimately show ?thesis using assms(1) by (simp add: StatInfo_def)
qed

subsection \<open>The connected browsers\<close>

text \<open>A socket disconnects after it has connected.\<close>

fun matched :: "event \<Rightarrow> monitor \<Rightarrow> bool" where
  "matched (Disconnect c) s = (0 < g_client_num s)"
| "matched ev s = enabled ev s"

definition clients_ok :: "monitor \<Rightarrow> bool" where
  "clients_ok s \<longleftrightarrow> 0 \<le> g_client_num s \<and> (g_client s = None \<longleftrightarrow> g_client_num s = 0)"

lemma clients_same: "g_client t = g_client s \<Longrightarrow> g_client_num t = g_client_num s \<Longrightarrow> clients_ok t = clients_ok s"
  by (simp add: clients_ok_def)

lemma client_response: "g_client (on_response q r t s) = g_client s \<and> g_client_num (on_response q r t s) = g_client_num s"
proof -
  have f: "g_client_num (set_node a f u) = g_client_num u" for a f u by (simp add: set_node_def)
  have "g_client (append_item item u) = g_client u \<and> g_client_num (append_item item u) = g_client_num u" for item u
    by (simp add: append_item_def split: option.splits)
  then show ?thesis
    by (simp add: on_response_def query_failed_def query_answered_def Let_def fireEvent_out f
        split: response.splits sum.splits)
qed

lemma client_queryNodes: "g_client (queryNodes E dirname now s) = g_client s
    \<and> g_client_num (queryNodes E dirname now s) = g_client_num s"
  by (simp add: queryNodes_def Let_def fold_queryNode)

lemma handle_clients: "clients_ok s \<Longrightarrow> matched ev s \<Longrightarrow> clients_ok (handle E dirname ev s)"
proof (cases ev)
  case (Response k r t)
  assume "clients_ok s"
  then show ?thesis using Response client_response clients_same[of "take_pending k s" s]
    by (simp add: clients_ok_def take_pending_def)
qed (auto simp: clients_ok_def client_queryNodes addNode_def onClientConnect_def onClientDisconnect_def Let_def)

interpretation clients: machine matched "handle E dirname" clients_ok for E dirname
  by unfold_locales (rule handle_clients)

subsection \<open>Properties\<close>

lemma init_ok: "mon_ok init_monitor"
proof -
  have "\<exists>items. file_text f [] = log_text items \<and> list_all is_minute items" for f
    by (rule exI[of _ "[]"]) (simp add: log_text_def)
  then show ?thesis by (simp add: mon_ok_def nodes_ok_def logs_ok_def init_monitor_def wf_props_def)
qed

lemma start_ok:
  assumes "mon_ok s"
  shows "mon_ok (start E dirname entries now s)"
proof (rule same_nodes_ok[OF _ assms])
  show "same_nodes s (start E dirname entries now s)" by (simp add: same_nodes_def start_def Let_def)
  have "file_text f [SetInterval i] = []" "file_text f [Mkdir d] = []" for f i d
    by (simp_all add: file_text_def)
  then show "logs_ok (start E dirname entries now s)"
    using assms by (simp add: mon_ok_def start_def Let_def logs_ok_def)
qed

text \<open>A node of the configuration, a good answer of it, and times in the last second of a minute.\<close>

abbreviation good_body :: string where
  "good_body \<equiv> [CHR 0x7B, CHR 0x22] @ ''result'' @ [CHR 0x22, CHR 0x3A, CHR 0x7B, CHR 0x22] @ ''user''
     @ [CHR 0x22, CHR 0x3A, CHR 0x7B, CHR 0x22] @ ''max_user_number'' @ [CHR 0x22, CHR 0x3A] @ ''7}}}''"

abbreviation one_node_run :: "event list" where
  "one_node_run \<equiv> [AddNode ''0'' ''localhost:9001'', Tick 1000, Tick 59000, Response 0 (Got 200 good_body) 59020]"

lemma one_node_run_runs:
  "mon_run utc_env ''/srv'' (start utc_env ''/srv'' None 0 init_monitor) one_node_run
     (foldl (\<lambda>s ev. handle utc_env ''/srv'' ev s) (start utc_env ''/srv'' None 0 init_monitor) one_node_run)"
proof -
  have "0 < length (pending (handle utc_env ''/srv'' (Tick 59000) (handle utc_env ''/srv'' (Tick 1000)
     (handle utc_env ''/srv'' (AddNode ''0'' ''localhost:9001'') (start utc_env ''/srv'' None 0 init_monitor)))))"
    by code_simp
  then show ?thesis by (simp del: handle.simps)
qed





text \<open>
  C11: when a query fails or its status is not 200, the node is marked dead and the browsers get its
  status; no other node changes and nothing is logged to the file. The error line names
  \<open>undefined\<close> instead of the URL.
\<close>

theorem failed_query:
  assumes "r = Failed \<or> (\<exists>code body. r = Got code body \<and> code \<noteq> 200)"
  shows "on_response q r t s =
    (let s' = s\<lparr>store := (store s)[q_node q := (store s ! q_node q)\<lparr>alive := False\<rparr>]\<rparr>
     in out (LogError ''failed to query node: undefined'' #
          fired (g_client s) ''server status'' (status_of (q_node q) s')) s')"
  using on_response_failed[OF assms refl] by (simp add: Let_def)

theorem failed_query_witness:
  "on_response \<lparr>start_time = 59000, q_index = 0, q_node = 0\<rparr> (Got 500 []) 59020
      (addNode ''0'' ''localhost:9001'' init_monitor) =
    (let s' = (addNode ''0'' ''localhost:9001'' init_monitor)\<lparr>store := [(Node ''0'' ''localhost:9001'')\<lparr>alive := False\<rparr>]\<rparr>
     in out [LogError ''failed to query node: undefined''] s')"
proof -
  have "(Got 500 [] :: response) = Failed \<or> (\<exists>code body. Got 500 [] = Got code body \<and> code \<noteq> 200)" by simp
  from failed_query[OF this, of "\<lparr>start_time = 59000, q_index = 0, q_node = 0\<rparr>" 59020
      "addNode ''0'' ''localhost:9001'' init_monitor"]
  show ?thesis by (simp add: addNode_def init_monitor_def fired_def)
qed

text \<open>
  C12: a good response refreshes the node, sends the item and then the status to the browsers, and
  appends the item as one line to the current log file, in this order and nothing else.
\<close>

theorem answered_query:
  assumes "json_parse body = Inr info" "js_get info ''result'' = Inr result"
    and "js_get result ''server_start_datetime'' = Inr st"
    and "js_get result ''user'' = Inr u" "js_get u ''max_user_number'' = Inr pk"
    and "g_file s = Some f" "q_node q < length (store s)"
  shows "on_response q (Got 200 body) t s =
    (let n = store s ! q_node q;
         item = StatInfo (StrV (nd_id n)) (nd_addr n) (stats_url n) (start_time q) (q_index q) (t - start_time q) result;
         s' = s\<lparr>store := (store s)[q_node q := refreshed st pk n]\<rparr>
     in out (fired (g_client s) ''new stats'' item @ fired (g_client s) ''server status'' (status_of (q_node q) s')
          @ [Append f (the (stringify item) @ [CHR 0x0A])]) s')"
  using on_response_good[OF assms refl refl refl] by (simp add: Let_def)

theorem answered_query_witness:
  "filter (\<lambda>e. case e of Append f l \<Rightarrow> True | _ \<Rightarrow> False)
     (effects (on_response \<lparr>start_time = 59000, q_index = 0, q_node = 0\<rparr> (Got 200 good_body) 59020
        (addNode ''0'' ''localhost:9001'' (start utc_env ''/srv'' None 0 init_monitor))))
   = [Append ''/srv/data/1970_1_1.log'' (the (stringify (StatInfo (StrV ''0'') ''localhost:9001''
        ''http://localhost:9001/stats'' 59000 0 20
        (Obj Plain [(''user'', Obj Plain [(''max_user_number'', IntV 7)])]))) @ [CHR 0x0A])]"
proof -
  let ?s = "addNode ''0'' ''localhost:9001'' (start utc_env ''/srv'' None 0 init_monitor)"
  let ?r = "Obj Plain [(''user'', Obj Plain [(''max_user_number'', IntV 7)])]"
  have h: "json_parse good_body = Inr (Obj Plain [(''result'', ?r)])"
    "js_get (Obj Plain [(''result'', ?r)]) ''result'' = Inr ?r"
    "js_get ?r ''server_start_datetime'' = Inr Undef"
    "js_get ?r ''user'' = Inr (Obj Plain [(''max_user_number'', IntV 7)])"
    "js_get (Obj Plain [(''max_user_number'', IntV 7)]) ''max_user_number'' = Inr (IntV 7)"
    "g_file ?s = Some ''/srv/data/1970_1_1.log''"
    "q_node \<lparr>start_time = 59000, q_index = 0, q_node = 0\<rparr> < length (store ?s)"
    by code_simp+
  have n: "store ?s ! 0 = Node ''0'' ''localhost:9001''" "g_client ?s = None"
    "filter (\<lambda>e. case e of Append f l \<Rightarrow> True | _ \<Rightarrow> False) (effects ?s) = []"
    "stats_url (Node ''0'' ''localhost:9001'') = ''http://localhost:9001/stats''"
    "nd_id (Node ''0'' ''localhost:9001'') = ''0''" "nd_addr (Node ''0'' ''localhost:9001'') = ''localhost:9001''"
    by code_simp+
  show ?thesis unfolding answered_query[OF h, of 59020] by (simp add: Let_def n fired_def)
qed





end
