(* ===== verification/Monitor_App.thy ===== *)
theory Monitor_App
  imports Monitor_Laws
begin

text \<open>
  The web application \<open>tools/monitor/app.js\<close> with its \<open>config.js\<close>: the start of the monitor,
  the request handlers and the socket handlers. Express, ejs and socket.io are outside; a handler
  is a function of the parsed query and the state of the monitor, and its result is what it gives to
  \<open>res.send\<close> or \<open>res.render\<close>.
\<close>

subsection \<open>config.js\<close>

text \<open>\<open>module.exports\<close>: \<open>None\<close> if the assertion on \<open>NODE_ENV\<close> fails or creating the logger throws.\<close>

record config =
  cfg_nodes :: "string list"
  cfg_port :: jsval

text \<open>
  The options of the transports, or the exception: outside development the code names
  \<open>transport_options\<close>, which is not declared.
\<close>

definition log_transports :: "string \<Rightarrow> string \<Rightarrow> (string \<times> jsval) list result" where
  "log_transports node_env dirname =
     (if node_env = ''development''
      then Inr [(''timestamp'', BoolV True), (''level'', StrV ''debug''), (''json'', BoolV False)]
      else Inl ReferenceError)"

text \<open>The transports, and whether the log directory was made.\<close>

definition create_logger :: "string \<Rightarrow> string \<Rightarrow> bool \<Rightarrow> bool \<times> (string \<times> jsval) list result" where
  "create_logger node_env dirname exists = (\<not> exists, log_transports node_env dirname)"

definition load_config :: "string \<Rightarrow> string \<Rightarrow> bool \<Rightarrow> config result" where
  "load_config node_env dirname exists =
     (if node_env = ''development'' \<or> node_env = ''production'' then
        rbind (snd (create_logger node_env dirname exists)) (\<lambda>_.
          Inr \<lparr>cfg_nodes = [''localhost:9001'', ''localhost:9003''], cfg_port = Undef\<rparr>)
      else Inl (ErrorMsg (''unexpected NODE_ENV: '' @ node_env)))"

subsection \<open>Start\<close>

definition add_nodes :: "string list \<Rightarrow> monitor \<Rightarrow> monitor" where
  "add_nodes nodes s = fold (\<lambda>(i, addr). addNode (int_digits (int i)) addr) (enumerate 0 nodes) s"

definition app_start :: "jsenv \<Rightarrow> string \<Rightarrow> config \<Rightarrow> string list option \<Rightarrow> int \<Rightarrow> monitor" where
  "app_start E dirname cfg entries now = start E dirname entries now (add_nodes (cfg_nodes cfg) init_monitor)"

definition listen_port :: "config \<Rightarrow> jsval" where
  "listen_port cfg = (if truthy (cfg_port cfg) then cfg_port cfg else IntV 8083)"

subsection \<open>Helpers of the handlers\<close>

definition getDay :: "jsenv \<Rightarrow> int \<Rightarrow> jsnum \<Rightarrow> string" where
  "getDay E now offset =
     (let d = set_date E (Some now) (num_add (get_date E (Some now)) offset)
      in num_to_string (get_full_year E d) @ ''-'' @ num_to_string (num_add (get_month E d) (Fin 1)) @ ''-''
           @ num_to_string (get_date E d))"

text \<open>\<open>Number(v || d)\<close>.\<close>

definition number_or :: "jsval \<Rightarrow> int \<Rightarrow> jsnum" where
  "number_or v d = to_number (if truthy v then v else IntV d)"

definition num_ge :: "jsnum \<Rightarrow> jsnum \<Rightarrow> bool" where
  "num_ge a b \<longleftrightarrow> a \<noteq> NaN \<and> b \<noteq> NaN \<and> \<not> num_less a b"

text \<open>\<open>node_id < -1 || node_id >= config.nodes.length\<close>.\<close>

definition bad_node :: "config \<Rightarrow> jsnum \<Rightarrow> bool" where
  "bad_node cfg node_id \<longleftrightarrow>
     num_less node_id (Fin (- 1)) \<or> num_ge node_id (num_of_int (int (length (cfg_nodes cfg))))"

definition bad_request :: "jsnum \<Rightarrow> string" where
  "bad_request node_id = ''Bad Request: invalid node id '' @ num_to_string node_id"

definition node_addr :: "config \<Rightarrow> jsnum \<Rightarrow> jsval" where
  "node_addr cfg node_id = prop_of (mk_arr (map StrV (cfg_nodes cfg))) (num_to_string node_id)"

datatype reply =
    SendText string
  | SendJson jsval
  | Page string "(string \<times> jsval) list"
  | ReportPage jsnum jsval "daily_stat list"  \<comment> \<open>\<open>daily_report\<close>, whose list has dates in it\<close>

record request =
  q_offset :: jsval
  q_node_id :: jsval
  q_id :: jsval

subsection \<open>The handlers\<close>

text \<open>
  The parameters that every handler of a day takes: the host's time zone, the directory of the
  application, the file system and the current time.
\<close>

definition get_root ::
  "jsenv \<Rightarrow> string \<Rightarrow> (string \<Rightarrow> string option) \<Rightarrow> int \<Rightarrow> monitor \<Rightarrow> reply result" where
  "get_root E dirname fs now s =
     rbind (getStatsOfDay E dirname fs now (Fin 0) (Fin (- 1))) (\<lambda>stats_list.
       Inr (Page ''index'' [(''node_list'', getNodeList s), (''stats_list'', stats_list)]))"

definition get_history ::
  "jsenv \<Rightarrow> string \<Rightarrow> (string \<Rightarrow> string option) \<Rightarrow> int \<Rightarrow> config \<Rightarrow> monitor \<Rightarrow> request \<Rightarrow> reply result" where
  "get_history E dirname fs now cfg s req =
     (let offset = number_or (q_offset req) (- 1); node_id = number_or (q_node_id req) (- 1)
      in if bad_node cfg node_id then Inr (SendText (bad_request node_id))
         else let history_file_number = getLogFileNumber s - 1; date = getDay E now offset
              in rbind (getStatsOfDay E dirname fs now offset (Fin (- 1))) (\<lambda>stats_list.
                   Inr (Page ''history'' [(''history_file_number'', IntV history_file_number),
                     (''stats_list'', stats_list), (''offset'', NumV offset), (''date'', StrV date),
                     (''node_id'', NumV node_id)])))"

definition get_chart :: "jsenv \<Rightarrow> int \<Rightarrow> config \<Rightarrow> monitor \<Rightarrow> request \<Rightarrow> reply" where
  "get_chart E now cfg s req =
     (let offset = number_or (q_offset req) 0; node_id = number_or (q_node_id req) (- 1)
      in if bad_node cfg node_id then SendText (bad_request node_id)
         else Page ''chart'' [(''stats_file_number'', IntV (getLogFileNumber s)), (''offset'', NumV offset),
                (''date'', StrV (getDay E now offset)), (''node_id'', NumV node_id)])"

definition get_stats_log ::
  "jsenv \<Rightarrow> string \<Rightarrow> (string \<Rightarrow> string option) \<Rightarrow> int \<Rightarrow> config \<Rightarrow> request \<Rightarrow> reply result" where
  "get_stats_log E dirname fs now cfg req =
     (let offset = number_or (q_offset req) 0; node_id = number_or (q_node_id req) (- 1)
      in if bad_node cfg node_id then Inr (SendJson (Obj Plain [(''error'', StrV (bad_request node_id))]))
         else rbind (getStatsOfDay E dirname fs now offset node_id) (\<lambda>stats_list.
                Inr (SendJson (Obj Plain [(''error'', Null), (''result'', stats_list)]))))"

definition get_node ::
  "jsenv \<Rightarrow> string \<Rightarrow> (string \<Rightarrow> string option) \<Rightarrow> int \<Rightarrow> config \<Rightarrow> request \<Rightarrow> reply result" where
  "get_node E dirname fs now cfg req =
     (let node_id = number_or (q_id req) (- 1)
      in if num_ge (Fin (- 1)) node_id \<or> num_ge node_id (num_of_int (int (length (cfg_nodes cfg))))
         then Inr (SendText (bad_request node_id))
         else rbind (getStatsOfDay E dirname fs now (Fin 0) node_id) (\<lambda>stats_list.
                Inr (Page ''node'' [(''node_id'', NumV node_id), (''node_addr'', node_addr cfg node_id),
                  (''stats_list'', stats_list)])))"

text \<open>Both branches of the callback render the same page.\<close>

definition get_daily_report ::
  "((string \<times> string) option list \<Rightarrow> (string \<times> string) option list) \<Rightarrow>
   ((daily_stat \<Rightarrow> daily_stat \<Rightarrow> bool) \<Rightarrow> daily_stat list \<Rightarrow> daily_stat list) \<Rightarrow>
   jsenv \<Rightarrow> string \<Rightarrow> (string \<Rightarrow> string option) \<Rightarrow> int \<Rightarrow> config \<Rightarrow> request \<Rightarrow> reply result"
where
  "get_daily_report collect sorter E dirname fs now cfg req =
     (let node_id = number_or (q_id req) (- 1)
      in if bad_node cfg node_id then Inr (SendText (bad_request node_id))
         else rbind (getDailyStats collect sorter E dirname fs now (Fin 0) node_id 30) (\<lambda>stats_list.
                if num_eq node_id (Fin (- 1))
                then Inr (ReportPage node_id (node_addr cfg node_id) stats_list)
                else Inr (ReportPage node_id (node_addr cfg node_id) stats_list)))"

subsection \<open>The sockets\<close>

datatype socket_event = Connection nat | Disconnection nat

fun on_socket :: "socket_event \<Rightarrow> monitor \<Rightarrow> monitor" where
  "on_socket (Connection c) s = onClientConnect c s"
| "on_socket (Disconnection c) s = onClientConnect c s"

end
