(* ===== verification/App_Laws.thy ===== *)
theory App_Laws
  imports Monitor_App
begin

text \<open>
  What the web application guarantees: which requests it accepts, what it answers, and how it
  drives the monitor.
\<close>

subsection \<open>Requests\<close>

lemma bad_node_cases:
  "bad_node cfg n = (case n of NaN \<Rightarrow> False | Infin b \<Rightarrow> True
     | Fin x \<Rightarrow> x < - 1 \<or> of_int (int (length (cfg_nodes cfg))) \<le> x)"
  by (cases n) (auto simp: bad_node_def num_ge_def)

lemma from_node_NaN: "\<not> from_node NaN item"
proof -
  have "\<not> js_eq v (NumV NaN)" for v
  proof -
    have "\<not> num_eq x NaN" for x by (cases x) auto
    then show ?thesis by (cases v) auto
  qed
  then show ?thesis by (simp add: from_node_def split: sum.splits)
qed

lemma stats_of_content_NaN:
  assumes "list_all json_ok items"
  shows "stats_of_content E NaN (log_text items) = Inr (Obj Array [])"
proof -
  define s where "s = fold (minutes_line NaN) (split_on (CHR 0x0A) (log_text items)) minutes_init"
  have s: "s = fold (\<lambda>v. minutes_item NaN (the (stringify v)) v) items minutes_init"
    by (simp add: s_def fold_minutes_lines[OF assms])
  have own: "filter (from_node NaN) items = []" by (simp add: from_node_NaN)
  have "merged s = Obj Plain []" "stats_list s = Obj Array []"
    using fold_minutes_node(1,2)[OF _ _ s] own by (simp_all add: store_all_def)
  then have "push_last s = Inr (Obj Array [])" by (simp add: push_last_def at_key_def)
  then show ?thesis by (simp add: stats_of_content_def Let_def fill_minutes_def flip: s_def)
qed

subsection \<open>The nodes after the start\<close>

lemma add_nodes_props:
  assumes "length nodes < 4294967295"
  shows "store (add_nodes nodes init_monitor) = map (\<lambda>(i, addr). Node (int_digits (int i)) addr) (enumerate 0 nodes)
    \<and> g_nodes (add_nodes nodes init_monitor) = arr_props [0 ..< length nodes]"
  using assms
proof (induction nodes rule: rev_induct)
  case (snoc addr nodes)
  let ?n = "length nodes"
  have "wf_props (arr_props [0 ..< Suc ?n])" using snoc.prems wf_arr_props[of "[0 ..< Suc ?n]"] by simp
  moreover have e: "arr_props [0 ..< Suc ?n] = arr_props [0 ..< ?n] @ [(int_digits (int ?n), ?n)]"
    by (simp add: enumerate_append_eq)
  ultimately have "put_prop (int_digits (int ?n)) ?n (arr_props [0 ..< ?n]) = arr_props [0 ..< Suc ?n]"
    using put_prop_last[of "arr_props [0 ..< ?n]" "int_digits (int ?n)" ?n] by simp
  moreover have "add_nodes (nodes @ [addr]) init_monitor = addNode (int_digits (int ?n)) addr (add_nodes nodes init_monitor)"
    by (simp add: add_nodes_def enumerate_append_eq)
  ultimately show ?case using snoc by (simp add: addNode_def enumerate_append_eq)
qed (simp add: add_nodes_def init_monitor_def)

definition urls :: "monitor \<Rightarrow> string list" where
  "urls s = map (\<lambda>(i, a). stats_url (store s ! a)) (g_nodes s)"

definition url_of :: "string \<Rightarrow> string" where
  "url_of addr = stats_url (Node [] addr)"

lemma urls_app_start:
  assumes "length (cfg_nodes cfg) < 4294967295"
  shows "urls (app_start E dirname cfg entries now) = map url_of (cfg_nodes cfg)"
proof -
  have "g_nodes (app_start E dirname cfg entries now) = g_nodes (add_nodes (cfg_nodes cfg) init_monitor)"
    "store (app_start E dirname cfg entries now) = store (add_nodes (cfg_nodes cfg) init_monitor)"
    by (simp_all add: app_start_def start_def Let_def)
  then show ?thesis
    using add_nodes_props[OF assms]
    by (auto simp: urls_def url_of_def Node_def Let_def nth_enumerate_eq intro!: nth_equalityI)
qed

lemma urls_same: "same_nodes s t \<Longrightarrow> nodes_ok s \<Longrightarrow> urls t = urls s"
  using same_nodes_nth[of s t] by (auto simp: urls_def same_nodes_def nodes_ok_def intro!: map_cong)

fun adds_node :: "event \<Rightarrow> bool" where
  "adds_node (AddNode i a) = True"
| "adds_node _ = False"

lemma handle_urls:
  assumes "mon_ok s" "\<not> adds_node ev"
  shows "urls (handle E dirname ev s) = urls s"
proof (cases ev)
  case (Response k r t)
  have "nodes_ok (take_pending k s)" "urls (take_pending k s) = urls s"
    using assms(1) by (auto simp: mon_ok_def nodes_ok_def take_pending_def urls_def)
  then show ?thesis
    using Response urls_same[OF on_response_same, of "take_pending k s"] by simp
qed (use assms in \<open>auto simp: urls_def queryNodes_def Let_def fold_queryNode onClientConnect_def onClientDisconnect_def\<close>)

lemma run_urls:
  assumes "mon_run E dirname s evs t" "mon_ok s" "list_all (\<lambda>ev. \<not> adds_node ev) evs"
  shows "urls t = urls s"
  using assms
proof (induction rule: run.induct)
  case (run_cons ev s evs t)
  then show ?case using handle_ok[of s ev E dirname] handle_urls[of s ev E dirname] by simp
qed simp

lemma app_start_ok: "mon_ok (app_start E dirname cfg entries now)"
proof -
  have "mon_ok (fold (\<lambda>(i, addr). addNode (int_digits (int i)) addr) ns s)" if "mon_ok s" for ns s
    using that by (induction ns arbitrary: s) (auto simp: addNode_ok)
  then show ?thesis by (simp add: app_start_def add_nodes_def start_ok init_ok)
qed

fun socket_of :: "socket_event \<Rightarrow> nat" where
  "socket_of (Connection c) = c"
| "socket_of (Disconnection c) = c"

subsection \<open>Properties\<close>

abbreviation dev_config :: config where
  "dev_config \<equiv> \<lparr>cfg_nodes = [''localhost:9001'', ''localhost:9003''], cfg_port = Undef\<rparr>"

text \<open>
  C15: after the application has started, the first tick in the last second of the minute requests
  the statistics of every configured node, in the order of the configuration, once.
\<close>

theorem app_queries_configured_nodes:
  assumes "mon_run E dirname (app_start E dirname cfg entries t0) (before @ Tick now # after) t"
    and "length (cfg_nodes cfg) < 4294967295" "list_all (\<lambda>ev. \<not> adds_node ev) before"
    and "list_all (\<lambda>now. \<not> in_last_second E now) (ticks before)" "in_last_second E now"
    and "list_all (in_last_second E) (ticks after)"
  shows "requests t = map (\<lambda>addr. Request (url_of addr)) (cfg_nodes cfg)"
proof -
  let ?s = "app_start E dirname cfg entries t0"
  have s: "\<not> g_is_queried ?s" "requests ?s = []"
  proof -
    have "effects (add_nodes ns init_monitor) = [] \<and> \<not> g_is_queried (add_nodes ns init_monitor)" for ns
      by (induction ns rule: rev_induct) (simp_all add: add_nodes_def init_monitor_def enumerate_append_eq addNode_def)
    then show "\<not> g_is_queried ?s" "requests ?s = []" by (simp_all add: app_start_def start_def Let_def)
  qed
  obtain u where u: "mon_run E dirname ?s before u"
    "requests t = requests ?s @ map (\<lambda>(i, a). Request (stats_url (store u ! a))) (g_nodes u)"
    using one_round[OF assms(1) s(1) assms(4-6)] by blast
  have "requests t = map Request (urls u)" using u(2) s(2) by (simp add: urls_def case_prod_beta comp_def)
  then show ?thesis
    using run_urls[OF u(1) app_start_ok assms(3)] urls_app_start[OF assms(2)] by (simp add: comp_def)
qed

theorem app_queries_configured_nodes_witness:
  "\<exists>t. mon_run utc_env ''/srv'' (app_start utc_env ''/srv'' dev_config None 0)
       ([Tick 1000, Connect 1] @ Tick 59000 # [Tick 59010]) t
     \<and> requests t = [Request ''http://localhost:9001/stats'', Request ''http://localhost:9003/stats'']"
proof -
  obtain t where t: "mon_run utc_env ''/srv'' (app_start utc_env ''/srv'' dev_config None 0)
       ([Tick 1000, Connect 1] @ Tick 59000 # [Tick 59010]) t" by (simp del: handle.simps)
  have "length (cfg_nodes dev_config) < 4294967295" "list_all (\<lambda>ev. \<not> adds_node ev) [Tick 1000, Connect 1]" by simp_all
  moreover have "list_all (\<lambda>now. \<not> in_last_second utc_env now) (ticks [Tick 1000, Connect 1])"
    "in_last_second utc_env 59000" "list_all (in_last_second utc_env) (ticks [Tick 59010])" by code_simp+
  ultimately have "requests t = map (\<lambda>addr. Request (url_of addr)) (cfg_nodes dev_config)"
    using app_queries_configured_nodes[OF t] by blast
  also have "\<dots> = [Request ''http://localhost:9001/stats'', Request ''http://localhost:9003/stats'']" by code_simp
  finally show ?thesis using t by blast
qed

text \<open>
  which node ids are refused. A handler that checks its node id answers with the error exactly
  for the numbers below -1 and from the number of nodes on, and for the infinities. A value that is
  not a number passes the check.
\<close>

theorem get_stats_log_refuses:
  "get_stats_log E dirname fs now cfg req =
     Inr (SendJson (Obj Plain [(''error'', StrV (bad_request (number_or (q_node_id req) (- 1))))]))
   \<longleftrightarrow> (case number_or (q_node_id req) (- 1) of NaN \<Rightarrow> False | Infin b \<Rightarrow> True
     | Fin x \<Rightarrow> x < - 1 \<or> of_int (int (length (cfg_nodes cfg))) \<le> x)"
  by (auto simp: get_stats_log_def Let_def rbind_Inr_iff bad_node_cases split: jsnum.splits)

text \<open>
  a node id that is not a number gives an empty day, without an error.
\<close>

theorem get_stats_log_not_a_number:
  assumes "number_or (q_node_id req) (- 1) = NaN" "list_all json_ok items"
    and "fs (getFileName E dirname (set_date E (Some now) (num_add (get_date E (Some now)) (number_or (q_offset req) 0))))
      = Some (log_text items)"
  shows "get_stats_log E dirname fs now cfg req =
    Inr (SendJson (Obj Plain [(''error'', Null), (''result'', Obj Array [])]))"
  using assms by (simp add: get_stats_log_def Let_def bad_node_cases getStatsOfDay_def stats_of_content_NaN)

theorem get_stats_log_not_a_number_witness:
  "get_stats_log utc_env ''/srv'' (\<lambda>_. Some (log_text [up_item 1 0 [] 10])) 1433116800000 dev_config
     \<lparr>q_offset = Undef, q_node_id = StrV ''abc'', q_id = Undef\<rparr> =
   Inr (SendJson (Obj Plain [(''error'', Null), (''result'', Obj Array [])]))"
proof (rule get_stats_log_not_a_number)
  show "number_or (q_node_id \<lparr>q_offset = Undef, q_node_id = StrV ''abc'', q_id = Undef\<rparr>) (- 1) = NaN" by code_simp
  show "list_all json_ok [up_item 1 0 [] 10]" by code_simp
qed simp

text \<open>
  the history page shows the merged minutes of all nodes whatever node was asked for: two
  accepted requests that differ in the node id only get the same list.
\<close>

theorem history_ignores_node:
  assumes "get_history E dirname fs now cfg s req = Inr (Page ''history'' ps)"
    and "get_history E dirname fs now cfg s (req\<lparr>q_node_id := v\<rparr>) = Inr (Page ''history'' qs)"
  shows "map_of ps ''stats_list'' = map_of qs ''stats_list''"
  using assms by (auto simp: get_history_def Let_def rbind_Inr_iff split: if_splits)

theorem history_ignores_node_witness:
  "\<exists>ps qs. get_history utc_env ''/srv'' (\<lambda>_. None) 1433116800000 dev_config init_monitor
        \<lparr>q_offset = Undef, q_node_id = Undef, q_id = Undef\<rparr> = Inr (Page ''history'' ps)
     \<and> get_history utc_env ''/srv'' (\<lambda>_. None) 1433116800000 dev_config init_monitor
        \<lparr>q_offset = Undef, q_node_id = StrV ''1'', q_id = Undef\<rparr> = Inr (Page ''history'' qs)
     \<and> map_of ps ''stats_list'' = map_of qs ''stats_list''"
proof -
  let ?g = "get_history utc_env ''/srv'' (\<lambda>_. None) 1433116800000 dev_config init_monitor"
  let ?r = "\<lparr>q_offset = Undef, q_node_id = Undef, q_id = Undef\<rparr>"
  have "\<not> bad_node dev_config (number_or Undef (- 1))" "\<not> bad_node dev_config (number_or (StrV ''1'') (- 1))"
    by code_simp+
  then obtain ps qs where p: "?g ?r = Inr (Page ''history'' ps)" "?g (?r\<lparr>q_node_id := StrV ''1''\<rparr>) = Inr (Page ''history'' qs)"
    by (simp add: get_history_def getStatsOfDay_def Let_def)
  from history_ignores_node[OF p] p show ?thesis by auto
qed

text \<open>
  C16: the count of browsers only grows. Every connection and also every disconnection counts one
  more client, and the client to send to is the socket of the last event, also when it has left.
\<close>

theorem clients_never_leave:
  "g_client_num (fold on_socket evs s) = g_client_num s + int (length evs)
   \<and> g_client (fold on_socket evs s) = (if evs = [] then g_client s else Some (socket_of (last evs)))"
proof (induction evs rule: rev_induct)
  case (snoc ev evs)
  then show ?case by (cases ev) (simp_all add: onClientConnect_def)
qed simp

text \<open>
  the configuration loads in development only. In production the creation of the logger uses an
  undeclared variable, and any other environment fails the assertion.
\<close>

theorem config_loads_in_development_only:
  "load_config env dirname exists =
     (if env = ''development'' then Inr dev_config
      else if env = ''production'' then Inl ReferenceError
      else Inl (ErrorMsg (''unexpected NODE_ENV: '' @ env)))"
  by (simp add: load_config_def create_logger_def log_transports_def)

end
