(* ===== verification/Monitor_Base.thy ===== *)
theory Monitor_Base
  imports Monitor_App
begin

text \<open>
  The scripts of the monitor's pages, \<open>tools/monitor/public/js/base.js\<close> and \<open>chart.js\<close>.
\<close>

subsection \<open>String.prototype.format\<close>

text \<open>
  A match of the pattern \<open>{{\<close>, \<open>}}\<close> or \<open>{digits}\<close> at the front of a text: the text the callback
  returns for it, and the text behind the match.
\<close>

definition format_match :: "jsval list \<Rightarrow> string \<Rightarrow> (string \<times> string) option" where
  "format_match args s =
     (case s of
        c # d # t \<Rightarrow>
          if c = CHR ''{'' \<and> d = CHR ''{'' then Some (''{'', t)
          else if c = CHR ''}'' \<and> d = CHR ''}'' then Some (''}'', t)
          else if c = CHR ''{'' then
            (let n = takeWhile is_digit (d # t); r = dropWhile is_digit (d # t)
             in if n \<noteq> [] \<and> r \<noteq> [] \<and> hd r = CHR ''}''
                then Some (to_str (prop_of (mk_arr args) n), tl r) else None)
          else None
      | _ \<Rightarrow> None)"

lemma format_match_length: "format_match args s = Some (x, r) \<Longrightarrow> length r < length s"
proof -
  have "length (dropWhile is_digit s) \<le> length s" for s by (simp add: length_dropWhile_le)
  then have "length (tl (dropWhile is_digit u)) \<le> length u" for u
    by (metis diff_le_self length_tl order_trans)
  then show "format_match args s = Some (x, r) \<Longrightarrow> length r < length s"
    by (auto simp: format_match_def Let_def less_Suc_eq_le intro: le_SucI split: list.splits if_splits)
qed

function format_string :: "string \<Rightarrow> jsval list \<Rightarrow> string" where
  "format_string s args =
     (case format_match args s of
        Some (x, r) \<Rightarrow> x @ format_string r args
      | None \<Rightarrow> (case s of [] \<Rightarrow> [] | c # t \<Rightarrow> c # format_string t args))"
  by pat_completeness auto
termination
  by (relation "measure (\<lambda>(s, args). length s)") (auto dest: format_match_length)

declare format_string.simps [simp del]

subsection \<open>Tables\<close>

definition getMinuteOfTime_page :: "jsenv \<Rightarrow> jsval \<Rightarrow> string" where
  "getMinuteOfTime_page E time =
     (let d = new_date E time; hour = two_digits (get_hours E d); mn = two_digits (get_minutes E d)
      in hour @ '':'' @ mn)"

text \<open>\<open>src\<close> is an array; the loop runs over the indices from 1 below its length.\<close>

definition accumulateArray :: "jsval \<Rightarrow> jsval \<Rightarrow> jsval" where
  "accumulateArray dst src =
     fold (\<lambda>i dst.
         let k = int_digits (int i);
             dst1 = (if js_eq (prop_of dst k) Undef then with_prop dst k (IntV 0) else dst)
         in with_prop dst1 k (js_add (prop_of dst1 k) (prop_of src k)))
       [1 ..< nat (arr_length (own_props src))] (with_prop dst ''0'' (prop_of src ''0''))"

text \<open>The texts of the cells of a row; a cell that does not exist is not written.\<close>

definition updateTr :: "string list \<Rightarrow> jsval list \<Rightarrow> string list" where
  "updateTr tds data_arr = fold (\<lambda>i tds. tds[i := to_str (data_arr ! i)]) [0 ..< length data_arr] tds"

definition buildNewTr :: "jsval list \<Rightarrow> string" where
  "buildNewTr data_arr =
     fold (\<lambda>v new_tr. ((new_tr @ ''<td>'') @ to_str v) @ ''</td>'') data_arr
       (''<tr class='' @ [CHR 0x22] @ ''tr_latest'' @ [CHR 0x22] @ ''>'')"

subsection \<open>Dates\<close>

definition getDay_page :: "jsenv \<Rightarrow> int \<Rightarrow> jsnum \<Rightarrow> string" where
  "getDay_page E now offset =
     (let d = set_date E (Some now) (num_add (get_date E (Some now)) offset)
      in format_string ''{0}-{1}-{2}''
           [NumV (get_full_year E d), NumV (num_add (get_month E d) (Fin 1)), NumV (get_date E d)])"

text \<open>\<open>d.setHours(h)\<close>, \<open>d.setMinutes(m)\<close> and \<open>d.setSeconds(s)\<close> with one argument.\<close>

definition set_local_time :: "jsenv \<Rightarrow> (int \<Rightarrow> int) \<Rightarrow> int option \<Rightarrow> int option" where
  "set_local_time E f d =
     (case d of None \<Rightarrow> None
      | Some t \<Rightarrow> let l = local_time E t in time_clip (utc E (day_of l * ms_per_day + f l)))"

definition set_hours :: "jsenv \<Rightarrow> int option \<Rightarrow> int \<Rightarrow> int option" where
  "set_hours E d h = set_local_time E (\<lambda>l. make_time h (min_of l) (sec_of l) (ms_of l)) d"

definition set_minutes :: "jsenv \<Rightarrow> int option \<Rightarrow> int \<Rightarrow> int option" where
  "set_minutes E d m = set_local_time E (\<lambda>l. make_time (hour_of l) m (sec_of l) (ms_of l)) d"

definition set_seconds :: "jsenv \<Rightarrow> int option \<Rightarrow> int \<Rightarrow> int option" where
  "set_seconds E d s = set_local_time E (\<lambda>l. make_time (hour_of l) (min_of l) s (ms_of l)) d"

definition getDateStart :: "jsenv \<Rightarrow> int \<Rightarrow> int option" where
  "getDateStart E now = set_seconds E (set_minutes E (set_hours E (Some now) 0) 0) 0"

subsection \<open>Charts\<close>

text \<open>\<open>touch\<close>: \<open>document.ontouchstart\<close> is defined.\<close>

definition getDefaultCharOption :: "bool \<Rightarrow> jsval" where
  "getDefaultCharOption touch =
     mk_obj [
       (''chart'', mk_obj [(''zoomType'', StrV ''x''), (''spacingRight'', IntV 20)]),
       (''title'', mk_obj [(''text'', StrV ''Chart Title'')]),
       (''subtitle'', mk_obj [(''text'',
          StrV (if \<not> touch then ''Click and drag in the plot area to zoom in'' else ''Pinch the chart to zoom in''))]),
       (''xAxis'', mk_obj [(''type'', StrV ''datetime''), (''maxZoom'', IntV (60 * 60 * 1000)),
          (''title'', mk_obj [(''text'', Null)])]),
       (''yAxis'', mk_obj [(''title'', mk_obj [(''text'', StrV ''Number'')])]),
       (''tooltip'', mk_obj [(''shared'', BoolV True)]),
       (''legend'', mk_obj [(''enabled'', BoolV False)]),
       (''plotOptions'', mk_obj [(''area'', mk_obj [(''stacking'', StrV ''normal''), (''lineColor'', StrV ''#666666''),
          (''lineWidth'', IntV 1), (''marker'', mk_obj [(''lineWidth'', IntV 1), (''lineColor'', StrV ''#666666'')])])]),
       (''series'', mk_arr [mk_obj [(''type'', StrV ''area''), (''name'', StrV []),
          (''pointInterval'', IntV (60 * 1000)), (''pointStart'', IntV 0), (''data'', mk_arr [])]])]"

subsection \<open>Laws\<close>

definition no_brace :: "char \<Rightarrow> bool" where
  "no_brace c \<longleftrightarrow> c \<noteq> CHR ''{'' \<and> c \<noteq> CHR ''}''"

lemma format_match_None: "s = [] \<or> no_brace (hd s) \<Longrightarrow> format_match args s = None"
  by (auto simp: format_match_def no_brace_def split: list.splits)

lemma format_plain: "list_all no_brace p \<Longrightarrow> format_string (p @ r) args = p @ format_string r args"
proof (induction p)
  case (Cons c p)
  then have "format_match args (c # p @ r) = None" by (intro format_match_None) simp
  with Cons show ?case by (simp add: format_string.simps[of "c # p @ r"])
qed simp

lemma format_string_Nil [simp]: "format_string [] args = []"
  by (subst format_string.simps) (simp add: format_match_None)

lemma takeWhile_digits: "list_all is_digit n \<Longrightarrow> takeWhile is_digit (n @ CHR ''}'' # r) = n"
  and dropWhile_digits: "list_all is_digit n \<Longrightarrow> dropWhile is_digit (n @ CHR ''}'' # r) = CHR ''}'' # r"
  by (induction n) (auto simp: is_digit_def)

text \<open>A numbered place.\<close>

lemma format_place:
  assumes "list_all is_digit n" "n \<noteq> []"
  shows "format_string (CHR ''{'' # n @ CHR ''}'' # r) args = to_str (prop_of (mk_arr args) n) @ format_string r args"
proof -
  obtain d t where n: "n = d # t" using assms(2) by (cases n) auto
  have "d \<noteq> CHR ''{''" using assms(1) n by (auto simp: is_digit_def)
  then have "format_match args (CHR ''{'' # n @ CHR ''}'' # r) = Some (to_str (prop_of (mk_arr args) n), r)"
    using takeWhile_digits[OF assms(1)] dropWhile_digits[OF assms(1)] n by (simp add: format_match_def Let_def)
  then show ?thesis by (subst format_string.simps) simp
qed

text \<open>Doubled braces stand for braces.\<close>

definition escape_braces :: "string \<Rightarrow> string" where
  "escape_braces s = concat (map (\<lambda>c. if no_brace c then [c] else [c, c]) s)"

lemma format_escape: "format_string (escape_braces s @ r) args = s @ format_string r args"
proof (induction s)
  case (Cons c s)
  let ?t = "escape_braces s @ r"
  show ?case
  proof (cases "no_brace c")
    case True
    then have "escape_braces (c # s) @ r = [c] @ ?t" by (simp add: escape_braces_def)
    then show ?thesis using format_plain[of "[c]" ?t args] True Cons.IH by simp
  next
    case False
    then have "format_match args (c # c # ?t) = Some ([c], ?t)" by (auto simp: format_match_def no_brace_def)
    moreover have "escape_braces (c # s) @ r = c # c # ?t" using False by (simp add: escape_braces_def)
    ultimately show ?thesis using Cons.IH by (simp add: format_string.simps[of "c # c # ?t"])
  qed
qed (simp add: escape_braces_def)

text \<open>Templates: literal texts, with their braces doubled, and numbered places.\<close>

datatype piece = Text string | Place nat

fun piece_text :: "piece \<Rightarrow> string" where
  "piece_text (Text s) = escape_braces s"
| "piece_text (Place i) = CHR ''{'' # int_digits (int i) @ ''}''"

fun piece_value :: "jsval list \<Rightarrow> piece \<Rightarrow> string" where
  "piece_value args (Text s) = s"
| "piece_value args (Place i) = to_str (if i < length args then args ! i else Undef)"

lemma arr_at_mk:
  "at_key (arr_props vs) (int_digits (int i)) = (if i < length vs then vs ! i else Undef)"
proof (cases "i < length vs")
  case False
  have "int_digits (int i) \<notin> fst ` set (arr_props vs)"
    using False by (auto simp: in_set_enumerate_eq)
  then have "lookup_prop (arr_props vs) (int_digits (int i)) = None" by (simp only: lookup_prop_None_iff not_False_eq_True)
  with False show ?thesis by (simp add: at_key_def)
qed (simp add: at_key_def lookup_arr_props)

lemma mk_arr_props: "mk_arr vs = Obj Array (arr_props vs)"
  by (simp add: mk_arr_def)

lemma prop_of_mk_arr: "prop_of (mk_arr vs) (int_digits (int i)) = (if i < length vs then vs ! i else Undef)"
  unfolding mk_arr_props by (simp add: arr_at_mk)

lemma format_pieces: "format_string (concat (map piece_text ps)) args = concat (map (piece_value args) ps)"
proof (induction ps)
  case (Cons p ps)
  show ?case
  proof (cases p)
    case (Text s)
    then show ?thesis using Cons format_escape by simp
  next
    case (Place i)
    have "list_all is_digit (int_digits (int i))" using int_digits_all_digits[of "int i"] by (simp add: list_all_iff)
    from format_place[OF this] show ?thesis using Place Cons by (simp add: prop_of_mk_arr)
  qed
qed simp

lemma fold_accumulate:
  assumes "\<And>i. i \<in> set js \<Longrightarrow> 0 < i \<and> i < length ss \<and> safe_int ((if i < length ds then ds ! i else 0) + ss ! i)"
    and "distinct js" "length ss < 4294967295"
    and "\<And>i. i \<in> set js \<Longrightarrow> arr_at us (int i) = (if i < length ds then IntV (ds ! i) else Undef)"
  shows "\<exists>rs. fold (\<lambda>i dst.
         let k = int_digits (int i);
             dst1 = (if js_eq (prop_of dst k) Undef then with_prop dst k (IntV 0) else dst)
         in with_prop dst1 k (js_add (prop_of dst1 k) (prop_of (mk_arr (map IntV ss)) k))) js (Obj Array us) = Obj Array rs
    \<and> (\<forall>i. arr_at rs (int i) = (if i \<in> set js then IntV ((if i < length ds then ds ! i else 0) + ss ! i) else arr_at us (int i)))"
  using assms
proof (induction js arbitrary: us)
  case (Cons j js)
  let ?k = "int_digits (int j)" and ?d = "if j < length ds then ds ! j else 0"
  let ?f = "\<lambda>i dst. let k = int_digits (int i);
             dst1 = (if js_eq (prop_of dst k) Undef then with_prop dst k (IntV 0) else dst)
         in with_prop dst1 k (js_add (prop_of dst1 k) (prop_of (mk_arr (map IntV ss)) k))"
  have j: "0 < j" "j < length ss" "safe_int (?d + ss ! j)" using Cons.prems(1)[of j] by auto
  have old: "arr_at us (int j) = (if j < length ds then IntV (ds ! j) else Undef)" using Cons.prems(4) by simp
  obtain us' where us': "?f j (Obj Array us) = Obj Array us'"
    "\<And>k. at_key us' k = (if k = ?k then IntV (?d + ss ! j) else at_key us k)"
  proof (cases "j < length ds")
    case True
    have "?f j (Obj Array us) = Obj Array (put_prop ?k (IntV (?d + ss ! j)) us)"
      using True old j by (simp add: Let_def prop_of_mk_arr js_add_int)
    then show ?thesis using that[of "put_prop ?k (IntV (?d + ss ! j)) us"] by simp
  next
    case False
    have "?f j (Obj Array us) = Obj Array (put_prop ?k (IntV (?d + ss ! j)) (put_prop ?k (IntV 0) us))"
      using False old j js_add_int[of 0 "ss ! j"] by (simp add: Let_def prop_of_mk_arr)
    then show ?thesis using that[of "put_prop ?k (IntV (?d + ss ! j)) (put_prop ?k (IntV 0) us)"] by simp
  qed
  have "arr_at us' (int i) = (if i < length ds then IntV (ds ! i) else Undef)" if "i \<in> set js" for i
    using us'(2)[of "int_digits (int i)"] that Cons.prems(2,4) by auto
  from Cons.IH[OF _ _ Cons.prems(3) this] Cons.prems(1,2) obtain rs where
    rs: "fold ?f js (Obj Array us') = Obj Array rs"
      "\<And>i. arr_at rs (int i) = (if i \<in> set js then IntV ((if i < length ds then ds ! i else 0) + ss ! i) else arr_at us' (int i))"
    by auto
  have "fold ?f (j # js) (Obj Array us) = Obj Array rs" using rs(1) us'(1) by simp
  moreover have "arr_at rs (int i) = (if i \<in> set (j # js) then IntV ((if i < length ds then ds ! i else 0) + ss ! i) else arr_at us (int i))" for i
    using rs(2)[of i] us'(2)[of "int_digits (int i)"] Cons.prems(2) by auto
  ultimately show ?case by blast
qed auto

subsection \<open>The start of the day\<close>

text \<open>A time zone without jumps, at most a day off UTC.\<close>

definition fixed_zone :: "jsenv \<Rightarrow> bool" where
  "fixed_zone E \<longleftrightarrow> (\<forall>l. local_time E (utc E l) = l) \<and> (\<forall>t b. \<bar>tza E t b\<bar> \<le> ms_per_day)"

lemma set_local_time_fixed:
  assumes "fixed_zone E" "\<bar>local_time E t\<bar> \<le> 8600000000000000" "\<And>l. 0 \<le> f l \<and> f l < ms_per_day"
  shows "\<exists>t'. set_local_time E f (Some t) = Some t'
    \<and> local_time E t' = day_of (local_time E t) * ms_per_day + f (local_time E t)"
proof -
  let ?l = "local_time E t"
  define l' where "l' = day_of ?l * ms_per_day + f ?l"
  have "?l = day_of ?l * ms_per_day + time_within_day ?l" "0 \<le> time_within_day ?l" "time_within_day ?l < ms_per_day"
    by (simp_all add: day_of_def time_within_day_def ms_per_day_def)
  moreover have "0 \<le> f ?l" "f ?l < ms_per_day" "\<bar>tza E l' False\<bar> \<le> ms_per_day"
    using assms(1,3) by (simp_all add: fixed_zone_def)
  moreover have "ms_per_day = 86400000" by (simp add: ms_per_day_def)
  ultimately have "\<bar>utc E l'\<bar> \<le> 8640000000000000"
    using assms(2) unfolding utc_def l'_def by linarith
  then have "set_local_time E f (Some t) = Some (utc E l')"
    by (simp add: set_local_time_def Let_def l'_def time_clip_def)
  then show ?thesis using assms(1) by (auto simp: fixed_zone_def l'_def)
qed

lemma time_fields:
  "0 \<le> h \<Longrightarrow> h < 24 \<Longrightarrow> 0 \<le> m \<Longrightarrow> m < 60 \<Longrightarrow> 0 \<le> s \<Longrightarrow> s < 60 \<Longrightarrow> 0 \<le> ms \<Longrightarrow> ms < 1000 \<Longrightarrow>
   0 \<le> make_time h m s ms \<and> make_time h m s ms < ms_per_day"
  by (simp add: make_time_def ms_per_day_def)

lemma fields_range: "0 \<le> hour_of l" "hour_of l < 24" "0 \<le> min_of l" "min_of l < 60" "0 \<le> sec_of l" "sec_of l < 60"
  "0 \<le> ms_of l" "ms_of l < 1000"
  by (simp_all add: hour_of_def min_of_def sec_of_def ms_of_def)

lemma made_time_fields:
  assumes "0 \<le> h" "h < 24" "0 \<le> m" "m < 60" "0 \<le> s" "s < 60" "0 \<le> ms" "ms < 1000"
    and "t = d * ms_per_day + make_time h m s ms"
  shows "day_of t = d" "hour_of t = h" "min_of t = m" "sec_of t = s" "ms_of t = ms"
proof -
  have t: "t = 86400000 * d + (3600000 * h + 60000 * m + 1000 * s + ms)"
    using assms(9) by (simp add: ms_per_day_def make_time_def)
  define q r where "q = 60000 * m + 1000 * s + ms" and "r = 1000 * s + ms"
  have b: "0 \<le> 3600000 * h + q" "3600000 * h + q < 86400000" "0 \<le> q" "q < 3600000" "0 \<le> r" "r < 60000"
    unfolding q_def r_def using assms(1-8) by linarith+
  have e: "t = 86400000 * d + (3600000 * h + q)" "t = 3600000 * (24 * d + h) + q"
    "t = 60000 * (60 * (24 * d + h) + m) + r" "t = 1000 * (60 * (60 * (24 * d + h) + m) + s) + ms"
    by (simp_all add: t q_def r_def)
  show "day_of t = d" unfolding day_of_def ms_per_day_def by (rule int_div_pos_eq[OF e(1) b(1,2)])
  show "hour_of t = h" unfolding hour_of_def int_div_pos_eq[OF e(2) b(3,4)] by (rule int_mod_pos_eq[OF refl assms(1,2)])
  show "min_of t = m" unfolding min_of_def int_div_pos_eq[OF e(3) b(5,6)] by (rule int_mod_pos_eq[OF refl assms(3,4)])
  show "sec_of t = s" unfolding sec_of_def int_div_pos_eq[OF e(4) assms(7,8)] by (rule int_mod_pos_eq[OF refl assms(5,6)])
  show "ms_of t = ms" unfolding ms_of_def by (rule int_mod_pos_eq[OF e(4) assms(7,8)])
qed

lemma getDateStart_fixed:
  assumes "fixed_zone E" "\<bar>local_time E now\<bar> \<le> 8000000000000000"
  shows "\<exists>t. getDateStart E now = Some t
    \<and> local_time E t = day_of (local_time E now) * ms_per_day + ms_of (local_time E now)"
proof -
  let ?l = "local_time E now" and ?d = "day_of (local_time E now)"
  note r = fields_range[of ?l]
  have d: "\<bar>?d * ms_per_day\<bar> \<le> 8100000000000000"
  proof -
    have "?l = ?d * ms_per_day + time_within_day ?l" "0 \<le> time_within_day ?l" "time_within_day ?l < ms_per_day"
      by (simp_all add: day_of_def time_within_day_def ms_per_day_def)
    then show ?thesis using assms(2) by (simp add: ms_per_day_def)
  qed
  have b: "\<bar>?d * ms_per_day + x\<bar> \<le> 8600000000000000" if "0 \<le> x" "x < ms_per_day" for x
    using d that by (simp add: ms_per_day_def)
  have in_day: "0 \<le> make_time h m s (ms_of l) \<and> make_time h m s (ms_of l) < ms_per_day"
    if "0 \<le> h" "h < 24" "0 \<le> m" "m < 60" "0 \<le> s" "s < 60" for h m s l
    using that fields_range(7,8)[of l] by (intro time_fields)
  obtain t1 where t1: "set_hours E (Some now) 0 = Some t1"
      "local_time E t1 = ?d * ms_per_day + make_time 0 (min_of ?l) (sec_of ?l) (ms_of ?l)"
    using set_local_time_fixed[OF assms(1), of now "\<lambda>l. make_time 0 (min_of l) (sec_of l) (ms_of l)"]
      assms(2) in_day fields_range by (fastforce simp: set_hours_def)
  have f1: "day_of (local_time E t1) = ?d" "hour_of (local_time E t1) = 0" "sec_of (local_time E t1) = sec_of ?l"
    "ms_of (local_time E t1) = ms_of ?l"
    using made_time_fields[OF _ _ r(3-8) t1(2)] by simp_all
  have "\<bar>local_time E t1\<bar> \<le> 8600000000000000" unfolding t1(2) using in_day r by (intro b) auto
  then obtain t2 where t2: "set_minutes E (Some t1) 0 = Some t2"
      "local_time E t2 = ?d * ms_per_day + make_time 0 0 (sec_of ?l) (ms_of ?l)"
    using set_local_time_fixed[OF assms(1), of t1 "\<lambda>l. make_time (hour_of l) 0 (sec_of l) (ms_of l)"]
      in_day fields_range f1 by (fastforce simp: set_minutes_def)
  have f2: "day_of (local_time E t2) = ?d" "hour_of (local_time E t2) = 0" "min_of (local_time E t2) = 0"
    "ms_of (local_time E t2) = ms_of ?l"
    using made_time_fields[OF _ _ _ _ r(5-8) t2(2)] by simp_all
  have "\<bar>local_time E t2\<bar> \<le> 8600000000000000" unfolding t2(2) using in_day r by (intro b) auto
  then obtain t3 where "set_seconds E (Some t2) 0 = Some t3"
      "local_time E t3 = ?d * ms_per_day + make_time 0 0 0 (ms_of ?l)"
    using set_local_time_fixed[OF assms(1), of t2 "\<lambda>l. make_time (hour_of l) (min_of l) 0 (ms_of l)"]
      in_day fields_range f2 by (fastforce simp: set_seconds_def)
  then show ?thesis using t1(1) t2(1) by (simp add: getDateStart_def make_time_def)
qed

subsection \<open>Properties\<close>

text \<open>
  \<open>format\<close> on a template. Literal text with its braces doubled comes out as it is, and a
  place \<open>{i}\<close> is replaced by the text of the i-th argument, \<open>undefined\<close> if there is none; the
  replaced texts are not looked at again.
\<close>

theorem format_template:
  "format_string (concat (map piece_text ps)) args = concat (map (piece_value args) ps)"
  by (rule format_pieces)

text \<open>
  the page and the server write a day the same way: \<open>getDay\<close> of \<open>base.js\<close>, which uses
  \<open>format\<close>, equals \<open>getDay\<close> of \<open>app.js\<close>, which uses \<open>util.format\<close>.
\<close>

theorem getDay_page_server: "getDay_page E now offset = getDay E now offset"
proof -
  let ?ps = "[Place 0, Text ''-'', Place 1, Text ''-'', Place 2]"
  have "concat (map piece_text ?ps) = ''{0}-{1}-{2}''" by code_simp
  from format_pieces[of ?ps, unfolded this] show ?thesis by (simp add: getDay_page_def getDay_def Let_def)
qed

text \<open>
  \<open>getDateStart\<close> keeps the local day and sets the hours, minutes and seconds to 0, but keeps
  the milliseconds: it is the start of the day only up to a second.
\<close>

theorem getDateStart_keeps_milliseconds:
  assumes "fixed_zone E" "\<bar>local_time E now\<bar> \<le> 8000000000000000"
  shows "\<exists>t. getDateStart E now = Some t
    \<and> local_time E t = day_of (local_time E now) * ms_per_day + ms_of (local_time E now)"
  using getDateStart_fixed[OF assms] .

theorem getDateStart_keeps_milliseconds_witness:
  "\<exists>t. getDateStart \<lparr>tza = (\<lambda>_ _. 28800000), other_date = (\<lambda>_. None)\<rparr> 1433116812345 = Some t
    \<and> local_time \<lparr>tza = (\<lambda>_ _. 28800000), other_date = (\<lambda>_. None)\<rparr> t = 1433116800345"
proof -
  let ?E = "\<lparr>tza = (\<lambda>_ _. 28800000), other_date = (\<lambda>_. None)\<rparr> :: jsenv"
  have h: "fixed_zone ?E" "\<bar>local_time ?E 1433116812345\<bar> \<le> 8000000000000000"
    by (simp_all add: fixed_zone_def local_time_def utc_def ms_per_day_def)
  have "day_of (local_time ?E 1433116812345) * ms_per_day + ms_of (local_time ?E 1433116812345) = 1433116800345"
    by code_simp
  with getDateStart_keeps_milliseconds[OF h] show ?thesis by simp
qed

text \<open>
  \<open>accumulateArray(dst, src)\<close> copies the first element and adds the others: a missing element
  of \<open>dst\<close> counts as 0.
\<close>

theorem accumulateArray_adds:
  assumes "ss \<noteq> []" "length ss < 4294967295" "length ds < 4294967295"
    and "\<And>i. i < length ss \<Longrightarrow> safe_int ((if i < length ds then ds ! i else 0) + ss ! i)"
  shows "\<exists>rs. accumulateArray (mk_arr (map IntV ds)) (mk_arr (map IntV ss)) = Obj Array rs
    \<and> arr_at rs 0 = IntV (hd ss)
    \<and> (\<forall>i. 0 < i \<longrightarrow> i < length ss \<longrightarrow> arr_at rs (int i) = IntV ((if i < length ds then ds ! i else 0) + ss ! i))"
proof -
  let ?us = "put_prop ''0'' (IntV (hd ss)) (arr_props (map IntV ds))"
  have zero: "''0'' = int_digits (int 0)" by code_simp
  have len: "nat (arr_length (arr_props (map IntV ss))) = length ss"
    using assms(2) arr_length_props[of "map IntV ss"] by simp
  have p0: "prop_of (mk_arr (map IntV ss)) ''0'' = IntV (hd ss)"
    using assms(1) unfolding zero prop_of_mk_arr by (cases ss) simp_all
  have at: "arr_at ?us (int i) = (if i < length ds then IntV (ds ! i) else Undef)" if "0 < i" for i
    using that unfolding zero by (simp add: arr_at_mk)
  have "\<exists>rs. accumulateArray (mk_arr (map IntV ds)) (mk_arr (map IntV ss)) = Obj Array rs
    \<and> (\<forall>i. arr_at rs (int i) = (if i \<in> set [1 ..< length ss]
          then IntV ((if i < length ds then ds ! i else 0) + ss ! i) else arr_at ?us (int i)))"
  proof -
    have "with_prop (mk_arr (map IntV ds)) ''0'' (IntV (hd ss)) = Obj Array ?us" by (simp add: mk_arr_props)
    moreover have "nat (arr_length (own_props (mk_arr (map IntV ss)))) = length ss" using len by (simp add: mk_arr_props)
    ultimately show ?thesis unfolding accumulateArray_def p0
      by (simp only:) (rule fold_accumulate, use assms at in auto)
  qed
  then obtain rs where rs: "accumulateArray (mk_arr (map IntV ds)) (mk_arr (map IntV ss)) = Obj Array rs"
    "\<And>i. arr_at rs (int i) = (if i \<in> set [1 ..< length ss]
          then IntV ((if i < length ds then ds ! i else 0) + ss ! i) else arr_at ?us (int i))" by blast
  have "arr_at rs 0 = IntV (hd ss)" using rs(2)[of 0] zero by simp
  with rs show ?thesis by auto
qed

theorem accumulateArray_adds_witness:
  "\<exists>rs. accumulateArray (mk_arr (map IntV [1, 5])) (mk_arr (map IntV [2, 7, 9])) = Obj Array rs
    \<and> arr_at rs 0 = IntV 2 \<and> arr_at rs (int 1) = IntV 12 \<and> arr_at rs (int 2) = IntV 9"
proof -
  have "safe_int ((if i < length [1, 5] then [1, 5] ! i else 0) + [2, 7, 9] ! i)" if "i < length [2, 7, 9 :: int]" for i
    using that by (auto simp: safe_int_def less_Suc_eq nth_Cons numeral_3_eq_3 split: nat.splits)
  from accumulateArray_adds[OF _ _ _ this] obtain rs where
    rs: "accumulateArray (mk_arr (map IntV [1, 5])) (mk_arr (map IntV [2, 7, 9])) = Obj Array rs"
      "arr_at rs 0 = IntV (hd [2, 7, 9])"
    and at: "\<And>i. 0 < i \<Longrightarrow> i < length [2, 7, 9 :: int] \<Longrightarrow>
      arr_at rs (int i) = IntV ((if i < length [1, 5 :: int] then [1, 5] ! i else 0) + [2, 7, 9] ! i)" by auto
  have "arr_at rs (int 1) = IntV 12" "arr_at rs (int 2) = IntV 9" using at[of 1] at[of 2] by simp_all
  with rs show ?thesis by auto
qed

end
