(* ===== verification/Node_Url.thy ===== *)
theory Node_Url
  imports Js_Json
begin

text \<open>
  \<open>querystring.stringify\<close> and \<open>url.format\<close> of Node, as far as the repository uses them. A
  string is its UTF-8 bytes, so escaping works byte by byte.
\<close>

definition unreserved :: "char \<Rightarrow> bool" where
  "unreserved c \<longleftrightarrow>
     (let n = (of_char c :: int) in
      48 \<le> n \<and> n \<le> 57 \<or> 65 \<le> n \<and> n \<le> 90 \<or> 97 \<le> n \<and> n \<le> 122) \<or> c \<in> set ''-_.!~*()'' \<or> c = CHR 0x27"

definition hex_upper :: "int \<Rightarrow> char" where
  "hex_upper d = (if d < 10 then digit_char d else char_of (55 + d))"

definition percent :: "char \<Rightarrow> string" where
  "percent c = [CHR ''%'', hex_upper (of_char c div 16), hex_upper (of_char c mod 16)]"

text \<open>\<open>encodeURIComponent\<close>.\<close>

definition uri_escape :: "string \<Rightarrow> string" where
  "uri_escape s = concat (map (\<lambda>c. if unreserved c then [c] else percent c) s)"

definition qs_primitive :: "jsval \<Rightarrow> string" where
  "qs_primitive v =
     (case v of StrV s \<Rightarrow> s | BoolV b \<Rightarrow> (if b then ''true'' else ''false'')
      | NumV (Fin x) \<Rightarrow> num_to_string (Fin x) | _ \<Rightarrow> [])"

definition qs_field :: "string \<times> jsval \<Rightarrow> string list" where
  "qs_field p = (case p of (k, v) \<Rightarrow>
     let ks = uri_escape k @ ''=''
     in case v of
          Obj Array ps \<Rightarrow> [join_with ''&''
            (map (\<lambda>i. ks @ uri_escape (qs_primitive
               (case lookup_prop ps (int_digits (int i)) of None \<Rightarrow> Undef | Some w \<Rightarrow> w))) [0 ..< nat (arr_length ps)])]
        | _ \<Rightarrow> [ks @ uri_escape (qs_primitive v)])"

definition qs_stringify :: "(string \<times> jsval) list \<Rightarrow> string" where
  "qs_stringify ps = join_with ''&'' (concat (map qs_field ps))"

fun replace_first :: "char \<Rightarrow> string \<Rightarrow> string \<Rightarrow> string" where
  "replace_first c r [] = []"
| "replace_first c r (x # xs) = (if x = c then r @ xs else x # replace_first c r xs)"

text \<open>
  \<open>url.format\<close> of an object with \<open>protocol\<close> \<open>http\<close>, \<open>hostname\<close>, \<open>port\<close>, \<open>pathname\<close> and
  \<open>search\<close>.
\<close>

definition url_format :: "string \<Rightarrow> jsval \<Rightarrow> string \<Rightarrow> string \<Rightarrow> string" where
  "url_format hostname port pathname search =
     (let host = (if CHR '':'' \<in> set hostname then ''['' @ hostname @ '']'' else hostname)
                 @ (if truthy port then '':'' @ to_str port else []);
          front = (if hostname \<noteq> [] then ''//'' @ host else []);
          path = concat (map (\<lambda>c. if c = CHR ''?'' \<or> c = CHR ''#'' then percent c else [c]) pathname);
          search1 = (if search \<noteq> [] \<and> hd search \<noteq> CHR ''?'' then ''?'' @ search else search)
      in ''http:'' @ front @ path @ replace_first (CHR ''#'') ''%23'' search1)"

subsection \<open>Reading an escaped text back\<close>

definition hex_digit :: "char \<Rightarrow> int" where
  "hex_digit c = (if is_digit c then digit_val c else of_char c - 55)"

fun percent_decode :: "string \<Rightarrow> string" where
  "percent_decode (c # a # b # s) =
     (if c = CHR ''%'' then char_of (hex_digit a * 16 + hex_digit b) # percent_decode s
      else c # percent_decode (a # b # s))"
| "percent_decode (c # s) = c # percent_decode s"
| "percent_decode [] = []"

lemma hex_digit_upper: "0 \<le> d \<Longrightarrow> d < 16 \<Longrightarrow> hex_digit (hex_upper d) = d"
proof -
  assume d: "0 \<le> d" "d < 16"
  show ?thesis
  proof (cases "d < 10")
    case True
    then have "is_digit (digit_char d)" "digit_val (digit_char d) = d"
      using d by (simp_all add: is_digit_def digit_val_def of_char_digit_char)
    with True show ?thesis by (simp add: hex_digit_def hex_upper_def)
  next
    case False
    then have "(of_char (char_of (55 + d)) :: int) = 55 + d" using d by simp
    with False show ?thesis by (simp add: hex_digit_def hex_upper_def is_digit_def)
  qed
qed

lemma decode_percent: "percent_decode (percent c @ s) = c # percent_decode s"
proof -
  have "hex_digit (hex_upper (of_char c div 16)) = of_char c div 16"
    "hex_digit (hex_upper (of_char c mod 16)) = of_char c mod 16"
    using byte_range[of c] by (auto intro!: hex_digit_upper)
  moreover have "char_of (of_char c div 16 * 16 + of_char c mod 16 :: int) = c" by simp
  ultimately show ?thesis by (simp add: percent_def)
qed

lemma percent_not_unreserved: "unreserved c \<Longrightarrow> c \<noteq> CHR ''%''"
  by (auto simp: unreserved_def)

lemma decode_plain: "c \<noteq> CHR ''%'' \<Longrightarrow> percent_decode (c # s) = c # percent_decode s"
  by (cases s rule: percent_decode.cases) (auto split: list.splits)

lemma percent_decode_escape: "percent_decode (uri_escape s) = s"
proof (induction s)
  case (Cons c s)
  then show ?case
    using decode_plain[of c "uri_escape s"] decode_percent[of c "uri_escape s"] percent_not_unreserved[of c]
    by (auto simp: uri_escape_def)
qed (simp add: uri_escape_def)

text \<open>An escaped text has none of the characters that structure a URL.\<close>

lemma hex_upper_unreserved: "0 \<le> d \<Longrightarrow> d < 16 \<Longrightarrow> unreserved (hex_upper d)"
  by (auto simp: unreserved_def hex_upper_def Let_def of_char_digit_char)

lemma uri_escape_chars: "c \<in> set (uri_escape s) \<Longrightarrow> unreserved c \<or> c = CHR ''%''"
proof (induction s)
  case (Cons d s)
  have "unreserved (hex_upper (of_char d div 16))" "unreserved (hex_upper (of_char d mod 16))"
    using byte_range[of d] by (auto intro!: hex_upper_unreserved)
  with Cons show ?case by (auto simp: uri_escape_def percent_def split: if_splits)
qed (simp add: uri_escape_def)

end
