(* ===== verification/Xcomet_Admin.thy ===== *)
theory Xcomet_Admin
  imports Node_Url
begin

text \<open>
  The admin client \<open>tools/node-xcomet-admin/index.js\<close>. The packages \<open>sharding\<close> and \<open>request\<close>
  are not part of the repository: the constructor and the \<open>shard\<close> method of a sharding are
  parameters, and a POST is an output together with the handler of its response.
\<close>

subsection \<open>NodeInfo\<close>

record NodeInfo =
  ni_public_host :: string
  ni_local_host :: string
  ni_client_port :: jsval
  ni_admin_port :: jsval
  ni_not_local :: jsval

definition new_NodeInfo :: "string \<Rightarrow> string \<Rightarrow> jsval \<Rightarrow> jsval \<Rightarrow> jsval \<Rightarrow> NodeInfo" where
  "new_NodeInfo public_host local_host client_port admin_port not_local =
     \<lparr>ni_public_host = public_host, ni_local_host = local_host, ni_client_port = client_port,
      ni_admin_port = admin_port, ni_not_local = (if truthy not_local then not_local else BoolV False)\<rparr>"

definition getPublicHost :: "NodeInfo \<Rightarrow> string" where "getPublicHost n = ni_public_host n"
definition getLocalHost :: "NodeInfo \<Rightarrow> string" where "getLocalHost n = ni_local_host n"
definition getClientPort :: "NodeInfo \<Rightarrow> jsval" where "getClientPort n = ni_client_port n"
definition getAdminPort :: "NodeInfo \<Rightarrow> jsval" where "getAdminPort n = ni_admin_port n"
definition notLocal :: "NodeInfo \<Rightarrow> jsval" where "notLocal n = ni_not_local n"

subsection \<open>XCometAdmin\<close>

text \<open>An element of the array given to the constructor: an instance of NodeInfo or something else.\<close>

datatype entry = Instance NodeInfo | Other jsval

fun all_instances :: "entry list \<Rightarrow> bool" where
  "all_instances [] = True"
| "all_instances (Instance n # es) = all_instances es"
| "all_instances (Other v # es) = False"

definition new_XCometAdmin ::
  "(entry list \<Rightarrow> jsval \<Rightarrow> 'sh result) \<Rightarrow> entry list \<Rightarrow> jsval \<Rightarrow> 'sh result" where
  "new_XCometAdmin Sharding nodes opts =
     rbind (Sharding nodes opts) (\<lambda>sharding.
       if all_instances nodes then Inr sharding
       else Inl (ErrorMsg ''all nodes must be instance of NodeInfo''))"

definition shard :: "('sh \<Rightarrow> jsval \<Rightarrow> NodeInfo) \<Rightarrow> 'sh \<Rightarrow> jsval \<Rightarrow> NodeInfo" where
  "shard sharding_shard sharding user = sharding_shard sharding user"

text \<open>\<open>option && option.k\<close> is true for each of the keys.\<close>

definition has_all :: "jsval \<Rightarrow> string list \<Rightarrow> bool" where
  "has_all opt ks \<longleftrightarrow> truthy opt \<and>
     list_all (\<lambda>k. case js_get opt k of Inr v \<Rightarrow> truthy v | Inl _ \<Rightarrow> False) ks"

definition opt_get :: "jsval \<Rightarrow> string \<Rightarrow> jsval" where
  "opt_get opt k = (case js_get opt k of Inr v \<Rightarrow> v | Inl _ \<Rightarrow> Undef)"

text \<open>The message as text. A String object does not occur as a value of the model.\<close>

definition msg_text :: "jsval \<Rightarrow> string option" where
  "msg_text msg =
     (let m = (if typeof msg = ''object''
               then (case stringify msg of Some t \<Rightarrow> StrV t | None \<Rightarrow> Undef) else msg)
      in case m of StrV t \<Rightarrow> Some t | _ \<Rightarrow> None)"

definition pub_query :: "jsval \<Rightarrow> (string \<times> jsval) list" where
  "pub_query opt =
     [(''to'', opt_get opt ''to''), (''from'', opt_get opt ''from'')]
     @ (if truthy (opt_get opt ''ttl'') then [(''ttl'', opt_get opt ''ttl'')] else [])"

definition pub_url :: "NodeInfo \<Rightarrow> jsval \<Rightarrow> string" where
  "pub_url n opt =
     url_format (if truthy (notLocal n) then getPublicHost n else getLocalHost n) (getAdminPort n)
       ''/pub'' (qs_stringify (pub_query opt))"

text \<open>The request that is posted: its URL and its form.\<close>

definition pub ::
  "('sh \<Rightarrow> jsval \<Rightarrow> NodeInfo) \<Rightarrow> 'sh \<Rightarrow> jsval \<Rightarrow> (string \<times> string) result" where
  "pub sharding_shard sharding opt =
     (if \<not> has_all opt [''to'', ''from'', ''msg''] then Inl (ErrorMsg ''invalid parameters'')
      else case msg_text (opt_get opt ''msg'') of
        None \<Rightarrow> Inl (ErrorMsg (''parameter '' @ [CHR 0x27] @ ''msg'' @ [CHR 0x27] @ '' must be string type''))
      | Some msg \<Rightarrow> Inr (pub_url (shard sharding_shard sharding (opt_get opt ''to'')) opt, msg))"

text \<open>What the callback is called with: an error, or a result.\<close>

datatype outcome_arg = CbError string | CbBody string | CbOk string

datatype http_result = HttpError string | HttpStatus int string

fun pub_response :: "http_result \<Rightarrow> outcome_arg" where
  "pub_response (HttpError err) = CbError (''pub request failed: '' @ err)"
| "pub_response (HttpStatus code body) = (if code \<noteq> 200 then CbBody body else CbOk body)"

subsection \<open>The example\<close>

text \<open>
  \<open>example.js\<close>: the node that the sharding names, and the two requests, the second with a time to
  live. The arguments come from the command line.
\<close>

definition example_nodes :: "NodeInfo list" where
  "example_nodes = [new_NodeInfo ''192.168.2.3'' ''127.0.0.1'' (IntV 9000) (IntV 9001) Undef,
     new_NodeInfo ''192.168.2.3'' ''127.0.0.1'' (IntV 9002) (IntV 9003) Undef,
     new_NodeInfo ''192.168.2.3'' ''127.0.0.1'' (IntV 9004) (IntV 9005) Undef]"

definition example ::
  "(entry list \<Rightarrow> jsval \<Rightarrow> 'sh result) \<Rightarrow> ('sh \<Rightarrow> jsval \<Rightarrow> NodeInfo) \<Rightarrow> jsval \<Rightarrow> jsval \<Rightarrow> jsval \<Rightarrow>
   (NodeInfo \<times> (string \<times> string) \<times> (string \<times> string)) result" where
  "example Sharding sharding_shard toUser fromUser message =
     rbind (new_XCometAdmin Sharding (map Instance example_nodes) Undef) (\<lambda>admin.
       let node_info = shard sharding_shard admin toUser
       in rbind (pub sharding_shard admin
                  (mk_obj [(''to'', toUser), (''from'', fromUser), (''msg'', message)])) (\<lambda>r1.
            rbind (pub sharding_shard admin
                    (mk_obj [(''to'', toUser), (''from'', fromUser), (''msg'', message), (''ttl'', IntV 10)])) (\<lambda>r2.
              Inr (node_info, r1, r2))))"

text \<open>The lines that the two callbacks print.\<close>

fun example_line :: "outcome_arg \<Rightarrow> string" where
  "example_line (CbError e) = ''pub err: '' @ ''Error: '' @ e"
| "example_line (CbBody b) = (if b = [] then ''pub result: undefined'' else ''pub err: '' @ b)"
| "example_line (CbOk b) = ''pub result: '' @ b"

subsection \<open>Laws\<close>

lemma replace_first_id: "c \<notin> set s \<Longrightarrow> replace_first c r s = s"
  by (induction s) auto

lemma escape_no_hash: "CHR ''#'' \<notin> set (uri_escape s)" "CHR ''?'' \<notin> set (uri_escape s)"
  "CHR ''&'' \<notin> set (uri_escape s)" "CHR ''='' \<notin> set (uri_escape s)"
proof -
  have "\<not> unreserved (CHR ''#'')" "\<not> unreserved (CHR ''?'')" "\<not> unreserved (CHR ''&'')" "\<not> unreserved (CHR ''='')"
    by code_simp+
  then show "CHR ''#'' \<notin> set (uri_escape s)" "CHR ''?'' \<notin> set (uri_escape s)"
    "CHR ''&'' \<notin> set (uri_escape s)" "CHR ''='' \<notin> set (uri_escape s)"
    using uri_escape_chars[of _ s] by force+
qed

lemma qs_two:
  "qs_stringify [(''to'', StrV a), (''from'', StrV b)] = ''to='' @ uri_escape a @ ''&from='' @ uri_escape b"
proof -
  have "uri_escape ''to'' = ''to''" "uri_escape ''from'' = ''from''" by code_simp+
  then show ?thesis by (simp add: qs_stringify_def qs_field_def qs_primitive_def)
qed

lemma pub_ok:
  assumes "opt = Obj Plain ps" "at_key ps ''to'' = StrV a" "at_key ps ''from'' = StrV b" "at_key ps ''msg'' = StrV m"
    and "a \<noteq> []" "b \<noteq> []" "m \<noteq> []" "\<not> truthy (at_key ps ''ttl'')"
    and "n = shd sh (StrV a)" "ni_admin_port n = IntV port" "0 < port" "port < 65536"
    and "host = (if truthy (ni_not_local n) then ni_public_host n else ni_local_host n)"
    and "host \<noteq> []" "CHR '':'' \<notin> set host"
  shows "pub shd sh opt = Inr (''http://'' @ host @ '':'' @ int_digits port @ ''/pub?to='' @ uri_escape a
      @ ''&from='' @ uri_escape b, m)"
proof -
  have q: "pub_query opt = [(''to'', StrV a), (''from'', StrV b)]"
    using assms(1-3,8) by (simp add: pub_query_def opt_get_def)
  have port: "truthy (IntV port)" "to_str (IntV port) = int_digits port"
    using assms(11,12) by (simp_all add: num_to_string_int safe_int_def del: num_to_string.simps)
  have nohash: "CHR ''#'' \<notin> set (''?to='' @ uri_escape a @ ''&from='' @ uri_escape b)"
    using escape_no_hash by auto
  have "pub_url n opt = url_format host (IntV port) ''/pub'' (''to='' @ uri_escape a @ ''&from='' @ uri_escape b)"
    by (simp only: pub_url_def notLocal_def getPublicHost_def getLocalHost_def getAdminPort_def q qs_two assms(10,13))
  moreover have "url_format host (IntV port) ''/pub'' (''to='' @ uri_escape a @ ''&from='' @ uri_escape b) =
      ''http://'' @ host @ '':'' @ int_digits port @ ''/pub?to='' @ uri_escape a @ ''&from='' @ uri_escape b"
    using port assms(14,15) replace_first_id[OF nohash, of "''%23''"]
    by (simp add: url_format_def Let_def del: to_str.simps)
  ultimately have "pub_url n opt = ''http://'' @ host @ '':'' @ int_digits port @ ''/pub?to='' @ uri_escape a
      @ ''&from='' @ uri_escape b" by simp
  moreover have "has_all opt [''to'', ''from'', ''msg'']" using assms(1-7) by (simp add: has_all_def)
  moreover have "msg_text (opt_get opt ''msg'') = Some m" "opt_get opt ''to'' = StrV a"
    using assms(1,2,4) by (simp_all add: msg_text_def opt_get_def)
  ultimately show ?thesis using assms(9) by (simp add: pub_def shard_def)
qed

subsection \<open>Properties\<close>

text \<open>
  C17: a message with text fields is posted to the admin port of the node that the sharding names
  for the receiver, on its public host exactly if the node is not local. The receiver and the
  sender are escaped in the URL, so that they cannot add fields to the query and are read back
  unchanged.
\<close>

theorem pub_posts_to_shard:
  assumes "opt = Obj Plain ps" "at_key ps ''to'' = StrV a" "at_key ps ''from'' = StrV b" "at_key ps ''msg'' = StrV m"
    and "a \<noteq> []" "b \<noteq> []" "m \<noteq> []" "\<not> truthy (at_key ps ''ttl'')"
    and "n = shd sh (StrV a)" "ni_admin_port n = IntV port" "0 < port" "port < 65536"
    and "host = (if truthy (ni_not_local n) then ni_public_host n else ni_local_host n)"
    and "host \<noteq> []" "CHR '':'' \<notin> set host"
  shows "pub shd sh opt = Inr (''http://'' @ host @ '':'' @ int_digits port @ ''/pub?to='' @ uri_escape a
      @ ''&from='' @ uri_escape b, m)
    \<and> percent_decode (uri_escape a) = a \<and> percent_decode (uri_escape b) = b
    \<and> CHR ''&'' \<notin> set (uri_escape a) \<and> CHR ''&'' \<notin> set (uri_escape b)"
  using pub_ok[where shd = shd and sh = sh, OF assms] percent_decode_escape escape_no_hash(3) by simp

text \<open>The node of the example, and a sharding with this node only.\<close>

abbreviation example_node :: NodeInfo where
  "example_node \<equiv> new_NodeInfo ''192.168.2.3'' ''127.0.0.1'' (IntV 9000) (IntV 9001) Undef"

theorem pub_posts_to_shard_witness:
  "pub (\<lambda>_ _. example_node) () (Obj Plain [(''to'', StrV ''a&b''), (''from'', StrV ''c''), (''msg'', StrV ''hi'')])
   = Inr (''http://127.0.0.1:9001/pub?to=a%26b&from=c'', ''hi'')"
proof -
  let ?ps = "[(''to'', StrV ''a&b''), (''from'', StrV ''c''), (''msg'', StrV ''hi'')]"
  have h: "Obj Plain ?ps = Obj Plain ?ps" "at_key ?ps ''to'' = StrV ''a&b''" "at_key ?ps ''from'' = StrV ''c''"
    "at_key ?ps ''msg'' = StrV ''hi''" "''a&b'' \<noteq> []" "''c'' \<noteq> []" "''hi'' \<noteq> []" "\<not> truthy (at_key ?ps ''ttl'')"
    "example_node = (\<lambda>_ _. example_node) () (StrV ''a&b'')" "ni_admin_port example_node = IntV 9001"
    "(0 :: int) < 9001" "(9001 :: int) < 65536"
    "''127.0.0.1'' = (if truthy (ni_not_local example_node) then ni_public_host example_node else ni_local_host example_node)"
    "''127.0.0.1'' \<noteq> []" "CHR '':'' \<notin> set ''127.0.0.1''"
    by (simp_all add: at_key_def new_NodeInfo_def)
  have e: "uri_escape ''a&b'' = ''a%26b''" "uri_escape ''c'' = ''c''" "int_digits 9001 = ''9001''" by code_simp+
  show ?thesis using pub_posts_to_shard[where shd = "\<lambda>_ _. example_node" and sh = "()", OF h, unfolded e] by simp
qed

text \<open>
  \<open>pub\<close> refuses an option without \<open>to\<close>, \<open>from\<close> or \<open>msg\<close> (also a \<open>null\<close> option) and
  a message that is neither text nor an object, and accepts every other one, whatever the sharding
  answers.
\<close>

theorem pub_accepts:
  "(\<exists>url msg. pub shd sh opt = Inr (url, msg)) \<longleftrightarrow>
     has_all opt [''to'', ''from'', ''msg''] \<and>
     (case opt_get opt ''msg'' of StrV s \<Rightarrow> True | Null \<Rightarrow> True | Obj kd ps \<Rightarrow> True | _ \<Rightarrow> False)"
proof -
  have "stringify (Obj kd ps) \<noteq> None" for kd ps by (cases kd) (simp_all add: Let_def)
  then have "msg_text v \<noteq> None \<longleftrightarrow> (case v of StrV s \<Rightarrow> True | Null \<Rightarrow> True | Obj kd ps \<Rightarrow> True | _ \<Rightarrow> False)" for v
    by (cases v) (auto simp: msg_text_def Let_def simp del: stringify.simps(6) split: option.splits)
  from this[of "opt_get opt ''msg''"] show ?thesis by (auto simp: pub_def split: option.splits)
qed

text \<open>
  the constructor fails exactly when the sharding does or when an element of the array is not
  a NodeInfo.
\<close>

theorem new_XCometAdmin_checks:
  "new_XCometAdmin Sharding nodes opts =
     (case Sharding nodes opts of
        Inl e \<Rightarrow> Inl e
      | Inr sh \<Rightarrow> if (\<exists>v. Other v \<in> set nodes) then Inl (ErrorMsg ''all nodes must be instance of NodeInfo'')
                   else Inr sh)"
proof -
  have "all_instances nodes \<longleftrightarrow> \<not> (\<exists>v. Other v \<in> set nodes)"
    by (induction nodes rule: all_instances.induct) auto
  then show ?thesis by (auto simp: new_XCometAdmin_def rbind_def split: sum.splits)
qed

end
