(* ===== verification/Base64.thy ===== *)
theory Base64
  imports Js_Text
begin

text \<open>
  The base64 decoding of Node's \<open>Buffer\<close>: characters outside of the alphabet (either the standard
  or the URL-safe one) are skipped and the padding ends the text. The encoding is the one of a
  browser's data URL; decoding takes it back.
\<close>

definition b64_val :: "char \<Rightarrow> int option" where
  "b64_val c =
     (let n = (of_char c :: int) in
      if 65 \<le> n \<and> n \<le> 90 then Some (n - 65)
      else if 97 \<le> n \<and> n \<le> 122 then Some (n - 71)
      else if 48 \<le> n \<and> n \<le> 57 then Some (n + 4)
      else if c = CHR ''+'' \<or> c = CHR ''-'' then Some 62
      else if c = CHR ''/'' \<or> c = CHR ''_'' then Some 63
      else None)"

fun sextets_to_bytes :: "int list \<Rightarrow> int list" where
  "sextets_to_bytes (a # b # c # d # s) =
     (a * 4 + b div 16) # (b mod 16 * 16 + c div 4) # (c mod 4 * 64 + d) # sextets_to_bytes s"
| "sextets_to_bytes [a, b, c] = [a * 4 + b div 16, b mod 16 * 16 + c div 4]"
| "sextets_to_bytes [a, b] = [a * 4 + b div 16]"
| "sextets_to_bytes _ = []"

definition b64_decode :: "string \<Rightarrow> string" where
  "b64_decode s =
     map char_of (sextets_to_bytes (List.map_filter b64_val (takeWhile (\<lambda>c. c \<noteq> CHR ''='') s)))"

subsection \<open>Encoding\<close>

definition b64_char :: "int \<Rightarrow> char" where
  "b64_char v =
     (if v < 26 then char_of (65 + v) else if v < 52 then char_of (71 + v)
      else if v < 62 then char_of (v - 4) else if v = 62 then CHR ''+'' else CHR ''/'')"

fun b64_sextets :: "int list \<Rightarrow> int list" where
  "b64_sextets (x # y # z # s) =
     (x div 4) # (x mod 4 * 16 + y div 16) # (y mod 16 * 4 + z div 64) # (z mod 64) # b64_sextets s"
| "b64_sextets [x, y] = [x div 4, x mod 4 * 16 + y div 16, y mod 16 * 4]"
| "b64_sextets [x] = [x div 4, x mod 4 * 16]"
| "b64_sextets [] = []"

definition b64_encode :: "string \<Rightarrow> string" where
  "b64_encode s =
     map b64_char (b64_sextets (map of_char s))
     @ (case length s mod 3 of 0 \<Rightarrow> [] | Suc 0 \<Rightarrow> ''=='' | _ \<Rightarrow> ''='')"

lemma b64_val_char: "0 \<le> v \<Longrightarrow> v < 64 \<Longrightarrow> b64_val (b64_char v) = Some v"
proof -
  assume v: "0 \<le> v" "v < 64"
  have "(of_char (char_of (65 + v)) :: int) = 65 + v" if "v < 26" using v that by simp
  moreover have "(of_char (char_of (71 + v)) :: int) = 71 + v" if "v < 52" using v that by simp
  moreover have "(of_char (char_of (v - 4)) :: int) = v - 4" if "\<not> v < 52" using v that by simp
  ultimately show ?thesis using v by (auto simp: b64_val_def b64_char_def Let_def)
qed

definition byte :: "int \<Rightarrow> bool" where
  "byte x \<longleftrightarrow> 0 \<le> x \<and> x < 256"

lemma sextet_range: "list_all byte bs \<Longrightarrow> list_all (\<lambda>v. 0 \<le> v \<and> v < 64) (b64_sextets bs)"
  by (induction bs rule: b64_sextets.induct) (auto simp: byte_def)

lemma split_byte:
  assumes "byte x" "byte y"
  shows "x div 4 * 4 + (x mod 4 * 16 + y div 16) div 16 = x"
    and "(x mod 4 * 16 + y div 16) mod 16 = y div 16"
proof -
  have y: "0 \<le> y div 16" "y div 16 < 16" using assms(2) by (auto simp: byte_def)
  then show "(x mod 4 * 16 + y div 16) mod 16 = y div 16" by simp
  have "(x mod 4 * 16 + y div 16) div 16 = x mod 4" using y by simp
  then show "x div 4 * 4 + (x mod 4 * 16 + y div 16) div 16 = x" by simp
qed

lemma sextets_round_trip: "list_all byte bs \<Longrightarrow> sextets_to_bytes (b64_sextets bs) = bs"
proof (induction bs rule: b64_sextets.induct)
  case (1 x y z s)
  have z: "0 \<le> z div 64" "z div 64 < 4" using 1 by (auto simp: byte_def)
  then have "(y mod 16 * 4 + z div 64) div 4 = y mod 16" "(y mod 16 * 4 + z div 64) mod 4 = z div 64" by simp_all
  then show ?case using 1 split_byte[of x y] by simp
next
  case (2 x y)
  then show ?case using split_byte[of x y] by simp
next
  case (3 x)
  then show ?case by simp
qed simp

lemma b64_char_not_pad: "0 \<le> v \<Longrightarrow> v < 64 \<Longrightarrow> b64_char v \<noteq> CHR ''=''"
  using b64_val_char[of v] by (auto simp: b64_val_def)

theorem b64_round_trip: "b64_decode (b64_encode s) = s"
proof -
  let ?bs = "map of_char s :: int list"
  have bytes: "list_all byte ?bs"
  proof -
    have "byte (of_char c)" for c :: char
      using byte_range[of c] by (simp add: byte_def)
    then show ?thesis by (simp add: list_all_iff)
  qed
  have r: "\<And>v. v \<in> set (b64_sextets ?bs) \<Longrightarrow> 0 \<le> v \<and> v < 64"
    using sextet_range[OF bytes] by (simp add: list_all_iff)
  let ?t = "map b64_char (b64_sextets ?bs)"
  let ?p = "(case length s mod 3 of 0 \<Rightarrow> [] | Suc 0 \<Rightarrow> ''=='' | _ \<Rightarrow> ''='')"
  have "takeWhile (\<lambda>c. c \<noteq> CHR ''='') (?t @ ?p) = ?t"
    using r b64_char_not_pad by (auto simp: takeWhile_append split: nat.splits)
  moreover have "List.map_filter b64_val (map b64_char vs) = vs" if "\<And>v. v \<in> set vs \<Longrightarrow> 0 \<le> v \<and> v < 64" for vs
    using that by (induction vs) (auto simp: b64_val_char map_filter_simps)
  ultimately show ?thesis
    using r sextets_round_trip[OF bytes] by (simp add: b64_decode_def b64_encode_def comp_def)
qed

end
