(* ===== verification/White_Board.thy ===== *)
theory White_Board
  imports Js_Json Node_Path Base64
begin

text \<open>
  The white board server \<open>tools/white_board/app.js\<close> with its \<open>config.js\<close>: the pages, the upload
  of an image and the policy server for Flash sockets.
\<close>

definition default_push_server :: jsval where
  "default_push_server = Obj Plain [(''host'', StrV ''192.168.2.3''), (''port'', IntV 9000)]"

subsection \<open>Pages\<close>

datatype wb_reply =
    WbRender string "(string \<times> jsval) list"
  | WbJson jsval

definition wb_root :: wb_reply where
  "wb_root = WbRender ''login'' []"

text \<open>The fields of the query that the handler reads.\<close>

definition wb_login :: "jsval \<Rightarrow> jsval \<Rightarrow> jsval \<Rightarrow> wb_reply" where
  "wb_login uid cid user_type =
     WbRender ''room'' [(''push_server'', default_push_server), (''uid'', uid), (''cid'', cid),
       (''is_teacher'', BoolV (js_eq user_type (IntV 1)))]"

subsection \<open>Upload\<close>

definition data_offset :: nat where
  "data_offset = length ''data:image/png;base64,''"

text \<open>The file that is written: its path and its bytes. A missing field is an exception.\<close>

definition upload_image :: "jsval \<Rightarrow> jsval \<Rightarrow> (string \<times> string) result" where
  "upload_image name image_base64 =
     (case name of
        StrV n \<Rightarrow>
          (let full_path = path_join [''upload'', n]
           in case image_base64 of
                StrV d \<Rightarrow> Inr (full_path, b64_decode (drop data_offset d))
              | _ \<Rightarrow> Inl TypeError)
      | _ \<Rightarrow> Inl TypeError)"

text \<open>The reply after the file was written, or not.\<close>

definition upload_done :: "string \<Rightarrow> jsval \<Rightarrow> wb_reply" where
  "upload_done name err =
     (if truthy err then WbJson (Obj Plain [(''error'', err)])
      else WbJson (Obj Plain [(''image_uri'', StrV (''/'' @ name))]))"

subsection \<open>The policy server\<close>

definition dq :: string where
  "dq = [CHR 0x22]"

definition policy :: string where
  "policy = ''<?xml version='' @ dq @ ''1.0'' @ dq @ '' encoding='' @ dq @ ''UTF-8'' @ dq @ ''?>''
     @ ''<cross-domain-policy>''
     @ ''<site-control permitted-cross-domain-policies='' @ dq @ ''all'' @ dq @ '' />''
     @ ''<allow-access-from domain='' @ dq @ ''*'' @ dq @ '' to-ports='' @ dq @ ''*'' @ dq
     @ '' secure='' @ dq @ ''false'' @ dq @ '' />''
     @ ''</cross-domain-policy>''"

text \<open>What is written to the connection before it is closed, and whether a warning is logged.\<close>

definition policy_data :: "string \<Rightarrow> string \<times> bool" where
  "policy_data utf8_str =
     (if index_of utf8_str ''<policy-file-request/>'' \<ge> 0 then (policy, False)
      else (''unknow request'', True))"

subsection \<open>Laws\<close>

lemma path_join_upload:
  assumes "plain_name n"
  shows "path_join [''upload'', n] = ''upload/'' @ n"
  using path_join_plain[of "[''upload'', n]"] assms by (simp add: plain_name_def)

text \<open>A name that starts with \<open>../\<close> leaves the upload directory.\<close>

lemma path_join_up:
  assumes "list_all plain_name ns" "ns \<noteq> []"
  shows "path_join [''upload'', ''../'' @ join_segs ns] = join_segs ns"
proof -
  let ?p = "''upload/../'' @ join_segs ns"
  have ne: "join_segs ns \<noteq> []" using assms by (simp add: join_segs_eq_Nil)
  have "list_all (\<lambda>s. CHR ''/'' \<notin> set s) ns" using assms(1) by (simp add: plain_name_def list_all_iff)
  then have "split_on (CHR ''/'') (join_segs ns) = ns" using assms(2) by (intro split_join_segs)
  moreover have "split_on (CHR ''/'') (l @ CHR ''/'' # r) = l # split_on (CHR ''/'') r" if "CHR ''/'' \<notin> set l" for l r
    using split_on_append[OF that] .
  from this[of "''upload''" "''../'' @ join_segs ns"] this[of "''..''" "join_segs ns"]
  have "split_on (CHR ''/'') ?p = ''upload'' # ''..'' # split_on (CHR ''/'') (join_segs ns)" by simp
  moreover have "norm_segs True [] (''upload'' # ''..'' # ns) = ns"
    using assms(1) norm_segs_plain[of ns True "[]"] by (simp add: plain_name_def list_all_iff)
  ultimately show ?thesis
    using ne last_join_segs[OF assms] by (simp add: path_join_def path_normalize_def Let_def)
qed

lemma index_of_from_nonneg:
  "index_of_from i p s = - 1 \<or> (\<exists>a b. s = a @ p @ b \<and> index_of_from i p s = int (i + length a))"
proof (induction s arbitrary: i)
  case Nil
  then show ?case by (subst (1 2) index_of_from.simps) (auto simp: prefix_def)
next
  case (Cons c s)
  show ?case
  proof (cases "prefix p (c # s)")
    case True
    then show ?thesis by (subst (1 2) index_of_from.simps) (auto simp: prefix_def)
  next
    case False
    then have e: "index_of_from i p (c # s) = index_of_from (Suc i) p s" by (subst index_of_from.simps) simp
    from Cons.IH[of "Suc i"] show ?thesis
    proof
      assume "\<exists>a b. s = a @ p @ b \<and> index_of_from (Suc i) p s = int (Suc i + length a)"
      then obtain a b where "s = a @ p @ b" "index_of_from (Suc i) p s = int (Suc i + length a)" by blast
      then have "c # s = (c # a) @ p @ b \<and> index_of_from i p (c # s) = int (i + length (c # a))" using e by simp
      then show ?thesis by blast
    qed (simp add: e)
  qed
qed

lemma index_of_from_found: "\<exists>a b. s = a @ p @ b \<Longrightarrow> int i \<le> index_of_from i p s"
proof (induction s arbitrary: i)
  case Nil
  then show ?case by (subst index_of_from.simps) simp
next
  case (Cons c s)
  show ?case
  proof (cases "prefix p (c # s)")
    case True
    then show ?thesis by (subst index_of_from.simps) simp
  next
    case False
    then have "\<exists>a b. s = a @ p @ b" using Cons.prems by (auto simp: prefix_def Cons_eq_append_conv)
    from Cons.IH[OF this, of "Suc i"] show ?thesis using False by (subst index_of_from.simps) simp
  qed
qed

lemma index_of_iff: "0 \<le> index_of s p \<longleftrightarrow> (\<exists>a b. s = a @ p @ b)"
  using index_of_from_nonneg[of 0 p s] index_of_from_found[of s p 0] by (auto simp: index_of_def)

subsection \<open>Properties\<close>

text \<open>
  C18: an uploaded image with a plain name is written to that name in the upload directory, and the
  bytes are those the browser encoded in the data URL.
\<close>

theorem upload_writes_image:
  assumes "plain_name n"
  shows "upload_image (StrV n) (StrV (''data:image/png;base64,'' @ b64_encode bytes)) = Inr (''upload/'' @ n, bytes)"
  using path_join_upload[OF assms] b64_round_trip[of bytes] by (simp add: upload_image_def data_offset_def)

theorem upload_writes_image_witness:
  "upload_image (StrV ''a.png'') (StrV (''data:image/png;base64,'' @ b64_encode ''PNG'')) = Inr (''upload/a.png'', ''PNG'')"
proof -
  have "plain_name ''a.png''" by code_simp
  from upload_writes_image[OF this, of "''PNG''"] show ?thesis by simp
qed

text \<open>
  the name is not checked. A name that starts with \<open>../\<close> is written outside of the upload
  directory, to any path below the working directory.
\<close>

theorem upload_escapes_directory:
  assumes "list_all plain_name ns" "ns \<noteq> []"
  shows "upload_image (StrV (''../'' @ join_segs ns)) (StrV d) = Inr (join_segs ns, b64_decode (drop data_offset d))"
  using path_join_up[OF assms] by (simp add: upload_image_def Let_def)

theorem upload_escapes_directory_witness:
  "upload_image (StrV ''../app.js'') (StrV (''data:image/png;base64,'' @ ''QUJD'')) = Inr (''app.js'', ''ABC'')"
proof -
  have "list_all plain_name [''app.js'']" by code_simp
  from upload_escapes_directory[OF this, of "''data:image/png;base64,'' @ ''QUJD''"]
  have "upload_image (StrV ''../app.js'') (StrV (''data:image/png;base64,'' @ ''QUJD'')) =
    Inr (''app.js'', b64_decode (drop data_offset (''data:image/png;base64,'' @ ''QUJD'')))" by simp
  also have "b64_decode (drop data_offset (''data:image/png;base64,'' @ ''QUJD'')) = ''ABC''" by code_simp
  finally show ?thesis .
qed

text \<open>
  the policy server sends the policy exactly when the data contain the request.
\<close>

theorem policy_sent:
  "policy_data d = (if \<exists>a b. d = a @ ''<policy-file-request/>'' @ b then (policy, False) else (''unknow request'', True))"
  unfolding policy_data_def index_of_iff ..

end
