(* ===== verification/Jsocket.thy ===== *)
theory Jsocket
  imports Js_Value Runs
begin

text \<open>
  The Flash socket of the white board, \<open>jsocket/jsocket.js\<close> with \<open>jsocket.advanced.js\<close> and
  \<open>jquery.socket.js\<close> under \<open>tools/white_board/public/js\<close>.

  A socket object is named by its id, under which \<open>jSocket.sockets\<close> holds it. The handlers are
  functions of the page: for each of the four, the state has whether it is a function, and a call of
  it is an output. The Flash movie is outside; a call of one of its methods is an output, and what
  the method returns is a parameter.
\<close>

datatype so_effect =
    MovieCall string string "jsval list"    \<comment> \<open>socket id, method, arguments\<close>
  | Fire string string "jsval list"         \<comment> \<open>socket id, handler, arguments\<close>
  | EmbedSWF string string                  \<comment> \<open>URL of the movie, id of the target\<close>

text \<open>What \<open>setTimeout\<close> is waiting to run.\<close>

datatype task = Exec string string jsval | Probe string

record jsocket =
  handlers :: "string list"    \<comment> \<open>those of \<open>onReady, onConnect, onData, onClose\<close> that are functions\<close>
  connected :: bool
  target :: "string option"
  movie :: bool

record jstate =
  swf :: string
  sockets :: "(string \<times> jsocket) list"
  last_id :: nat
  tasks :: "task list"
  outs :: "so_effect list"

definition init_jstate :: jstate where
  "init_jstate = \<lparr>swf = ''jsocket.advanced.swf'', sockets = [], last_id = 0, tasks = [], outs = []\<rparr>"

definition emit :: "so_effect list \<Rightarrow> jstate \<Rightarrow> jstate" where
  "emit es s = s\<lparr>outs := outs s @ es\<rparr>"

definition get_socket :: "string \<Rightarrow> jstate \<Rightarrow> jsocket option" where
  "get_socket sid s = lookup_prop (sockets s) sid"

definition set_socket :: "string \<Rightarrow> jsocket \<Rightarrow> jstate \<Rightarrow> jstate" where
  "set_socket sid so s = s\<lparr>sockets := put_prop sid so (sockets s)\<rparr>"

subsection \<open>jsocket.js\<close>

definition new_jSocket :: "string list \<Rightarrow> jstate \<Rightarrow> string \<times> jstate" where
  "new_jSocket hs s =
     (let n = Suc (last_id s); sid = ''jSocket_'' @ int_digits (int n);
          so = \<lparr>handlers = hs, connected = False, target = None, movie = False\<rparr>
      in (sid, set_socket sid so (s\<lparr>last_id := n\<rparr>)))"

text \<open>\<open>has_swfobject\<close>: the script \<open>swfobject\<close> is loaded.\<close>

definition setup_socket :: "bool \<Rightarrow> string \<Rightarrow> string \<Rightarrow> string \<Rightarrow> jstate \<Rightarrow> jstate result" where
  "setup_socket has_swfobject sid tgt swflocation s =
     (case get_socket sid s of
        None \<Rightarrow> Inl TypeError
      | Some so \<Rightarrow>
          if \<not> has_swfobject
          then Inl (ThrowStr ''SWFObject not found! Please download from http://code.google.com/p/swfobject/'')
          else if target so \<noteq> None then Inl (ThrowStr ''Can only call setup on a jSocket Object once.'')
          else Inr (emit [EmbedSWF ((if swflocation \<noteq> [] then swflocation else swf s) @ ''?'' @ sid) tgt]
                     (set_socket sid (so\<lparr>target := Some tgt\<rparr>) s)))"

definition connect :: "string \<Rightarrow> jsval \<Rightarrow> jsval \<Rightarrow> jstate \<Rightarrow> jstate result" where
  "connect sid host port s =
     (case get_socket sid s of
        None \<Rightarrow> Inl TypeError
      | Some so \<Rightarrow>
          if \<not> movie so then Inl (ThrowStr (''jSocket isn'' @ [CHR 0x27] @ ''t ready yet, use the onReady event''))
          else Inr (emit ((if connected so then [MovieCall sid ''close'' []] else [])
                          @ [MovieCall sid ''connect'' [host, port]]) s))"

definition close_socket :: "string \<Rightarrow> jstate \<Rightarrow> jstate result" where
  "close_socket sid s =
     (case get_socket sid s of
        None \<Rightarrow> Inl TypeError
      | Some so \<Rightarrow>
          let s1 = set_socket sid (so\<lparr>connected := False\<rparr>) s
          in Inr (if movie so then emit [MovieCall sid ''close'' []] s1 else s1))"

definition assertConnected :: "string \<Rightarrow> jstate \<Rightarrow> unit result" where
  "assertConnected sid s =
     (case get_socket sid s of
        None \<Rightarrow> Inl TypeError
      | Some so \<Rightarrow>
          if \<not> connected so \<or> \<not> movie so then Inl (ThrowStr ''jSocket is not connected, use the onConnect event '')
          else Inr ())"

text \<open>
  \<open>this.assertConnected(); return this.movie.name(args);\<close> with \<open>answer\<close> what the movie returns.
\<close>

definition guarded :: "string \<Rightarrow> jsval list \<Rightarrow> jsval \<Rightarrow> string \<Rightarrow> jstate \<Rightarrow> (jsval \<times> jstate) result" where
  "guarded name args answer sid s =
     rbind (assertConnected sid s) (\<lambda>_. Inr (answer, emit [MovieCall sid name args] s))"

definition write_socket :: "jsval \<Rightarrow> string \<Rightarrow> jstate \<Rightarrow> (jsval \<times> jstate) result" where
  "write_socket data = guarded ''write'' [data] Undef"

definition flashCallback :: "string \<Rightarrow> string \<Rightarrow> jsval \<Rightarrow> jstate \<Rightarrow> jstate" where
  "flashCallback name sid data s = s\<lparr>tasks := tasks s @ [Exec name sid data]\<rparr>"

definition fire :: "string \<Rightarrow> jsocket \<Rightarrow> string \<Rightarrow> jsval list \<Rightarrow> so_effect list" where
  "fire sid so h args = (if h \<in> set (handlers so) then [Fire sid h args] else [])"

definition executeFlashCallback :: "string \<Rightarrow> string \<Rightarrow> jsval \<Rightarrow> jstate \<Rightarrow> jstate result" where
  "executeFlashCallback name sid data s =
     (if name = ''init'' then Inr (s\<lparr>tasks := tasks s @ [Probe sid]\<rparr>)
      else if name = ''data'' then
        (case get_socket sid s of None \<Rightarrow> Inl TypeError
         | Some so \<Rightarrow> Inr (emit (fire sid so ''onData'' [data]) s))
      else if name = ''connect'' then
        (case get_socket sid s of None \<Rightarrow> Inl TypeError
         | Some so \<Rightarrow> Inr (emit (fire sid so ''onConnect'' [BoolV True]) (set_socket sid (so\<lparr>connected := True\<rparr>) s)))
      else if name = ''error'' then
        (case get_socket sid s of None \<Rightarrow> Inl TypeError
         | Some so \<Rightarrow> Inr (emit (fire sid so ''onConnect'' [BoolV False, data]) s))
      else if name = ''close'' then
        (case get_socket sid s of None \<Rightarrow> Inl TypeError
         | Some so \<Rightarrow> Inr (emit (fire sid so ''onClose'' []) (set_socket sid (so\<lparr>connected := False\<rparr>) s)))
      else Inl (ThrowStr (''jSocket: unknown callback '' @ [CHR 0x27] @ name @ [CHR 0x27] @ '' used'')))"

text \<open>
  The function \<open>f\<close> of the \<open>init\<close> branch. \<open>found\<close>: the movie is in the document and its
  variables can be set and read; otherwise the attempt is repeated.
\<close>

definition probe_movie :: "bool \<Rightarrow> string \<Rightarrow> jstate \<Rightarrow> jstate" where
  "probe_movie found sid s =
     (case get_socket sid s of
        None \<Rightarrow> s\<lparr>tasks := tasks s @ [Probe sid]\<rparr>
      | Some so \<Rightarrow>
          if found then emit (fire sid so ''onReady'' []) (set_socket sid (so\<lparr>movie := True\<rparr>) s)
          else s\<lparr>tasks := tasks s @ [Probe sid]\<rparr>)"

subsection \<open>jsocket.advanced.js\<close>

definition flush where "flush = guarded ''flush'' []"
definition writeArray where "writeArray data = guarded ''writeArray'' [data] Undef"
definition writeBoolean where "writeBoolean data = guarded ''writeBoolean'' [data] Undef"
definition readBoolean where "readBoolean = guarded ''readBoolean'' []"
definition writeByte where "writeByte data = guarded ''writeByte'' [data] Undef"
definition readByte where "readByte = guarded ''readByte'' []"
definition writeBytes where "writeBytes bytes offset len = guarded ''writeBytes'' [bytes, offset, len] Undef"
definition readBytes where "readBytes offset len = guarded ''readBytes'' [offset, len]"
definition writeShort where "writeShort data = guarded ''writeShort'' [data] Undef"
definition readShort where "readShort = guarded ''readShort'' []"
definition writeInt where "writeInt data = guarded ''writeInt'' [data] Undef"
definition readInt where "readInt = guarded ''readInt'' []"
definition writeUnsignedInt where "writeUnsignedInt data = guarded ''writeUnsignedInt'' [data] Undef"
definition readUnsignedInt where "readUnsignedInt = guarded ''readUnsignedInt'' []"
definition writeFloat where "writeFloat data = guarded ''writeFloat'' [data] Undef"
definition readFloat where "readFloat = guarded ''readFloat'' []"
definition writeDouble where "writeDouble data = guarded ''writeDouble'' [data] Undef"
definition readDouble where "readDouble = guarded ''readDouble'' []"
definition writeMultiByte where "writeMultiByte data charSet = guarded ''writeMultiByte'' [data, charSet] Undef"
definition readMultiByte where "readMultiByte len charSet = guarded ''readMultiByte'' [len, charSet]"
definition writeUTFBytes where "writeUTFBytes data = guarded ''writeUTFBytes'' [data] Undef"
definition readUTFBytes where "readUTFBytes len = guarded ''readUTFBytes'' [len]"
definition writeUTF where "writeUTF data = guarded ''writeUTF'' [data] Undef"
definition readUTF where "readUTF = guarded ''readUTF'' []"
definition writeObject where "writeObject data = guarded ''writeObject'' [data] Undef"
definition readObject where "readObject = guarded ''readObject'' []"
definition setObjectEncoding where "setObjectEncoding v = guarded ''setObjectEncoding'' [v] Undef"
definition getObjectEncoding where "getObjectEncoding = guarded ''getObjectEncoding'' []"
definition setEndian where "setEndian v = guarded ''setEndian'' [v] Undef"
definition getEndian where "getEndian = guarded ''getEndian'' []"
definition getBytesAvailable where "getBytesAvailable = guarded ''getBytesAvailable'' []"

subsection \<open>jquery.socket.js\<close>

text \<open>
  \<open>$.fn.socket\<close> on the matched elements: \<open>dom_ids\<close> the ids of the matched elements (\<open>None\<close> for an
  element without one), \<open>table\<close> the sockets made so far by element id, \<open>hs\<close> the handlers among the
  options that are functions and \<open>opt_swf\<close> the option \<open>swf\<close>. The result is the id of the socket or
  what \<open>setup\<close> throws, the ids of the elements afterwards, the table and the state.
\<close>

type_synonym sock_table = "(string \<times> string) list"

definition attr_id :: "string option \<Rightarrow> string" where
  "attr_id e = (case e of None \<Rightarrow> ''undefined'' | Some i \<Rightarrow> i)"

definition make_socket ::
  "bool \<Rightarrow> string option \<Rightarrow> sock_table \<Rightarrow> string list \<Rightarrow> string \<Rightarrow> jstate \<Rightarrow>
   string option result \<times> string option list \<times> sock_table \<times> jstate" where
  "make_socket has_swfobject e table hs opt_swf s =
     (let (sid, s1) = new_jSocket hs s;
          ident = (if e = None \<or> e = Some [] then sid else the e)
      in case setup_socket has_swfobject sid ident opt_swf s1 of
           Inl err \<Rightarrow> (Inl err, [Some ident], table, s1)
         | Inr s2 \<Rightarrow> (Inr (Some sid), [Some ident], put_prop ident sid table, s2))"

definition fn_socket ::
  "bool \<Rightarrow> string option list \<Rightarrow> sock_table \<Rightarrow> string list \<Rightarrow> string \<Rightarrow> jstate \<Rightarrow>
   string option result \<times> string option list \<times> sock_table \<times> jstate" where
  "fn_socket has_swfobject dom_ids table hs opt_swf s =
     (case dom_ids of
        [e] \<Rightarrow>
          (case lookup_prop table (attr_id e) of
             Some sid \<Rightarrow> (Inr (Some sid), dom_ids, table, s)
           | None \<Rightarrow> make_socket has_swfobject e table hs opt_swf s)
      | _ \<Rightarrow> (Inr None, dom_ids, table, s))"

subsection \<open>Runs\<close>

text \<open>
  The page calls a method, Flash calls back, or the host runs the first waiting task. A call that
  throws changes nothing (every check of the code comes before its changes).
\<close>

datatype so_event =
    New "string list"
  | Setup string string string
  | ConnectTo string jsval jsval
  | Close string
  | Method string "jsval list" string    \<comment> \<open>\<open>write\<close> and the methods of the advanced socket\<close>
  | Flash string string jsval
  | RunTask bool                         \<comment> \<open>whether a probe finds the movie\<close>

definition or_same :: "jstate \<Rightarrow> jstate result \<Rightarrow> jstate" where
  "or_same s r = (case r of Inr t \<Rightarrow> t | Inl _ \<Rightarrow> s)"

definition run_task :: "bool \<Rightarrow> jstate \<Rightarrow> jstate" where
  "run_task found s =
     (case tasks s of
        [] \<Rightarrow> s
      | t # ts \<Rightarrow>
          let s1 = s\<lparr>tasks := ts\<rparr>
          in case t of
               Exec name sid data \<Rightarrow> or_same s1 (executeFlashCallback name sid data s1)
             | Probe sid \<Rightarrow> probe_movie found sid s1)"

fun so_handle :: "so_event \<Rightarrow> jstate \<Rightarrow> jstate" where
  "so_handle (New hs) s = snd (new_jSocket hs s)"
| "so_handle (Setup sid tgt loc) s = or_same s (setup_socket True sid tgt loc s)"
| "so_handle (ConnectTo sid host port) s = or_same s (connect sid host port s)"
| "so_handle (Close sid) s = or_same s (close_socket sid s)"
| "so_handle (Method name args sid) s = or_same s (rbind (guarded name args Undef sid s) (\<lambda>(v, t). Inr t))"
| "so_handle (Flash name sid data) s = flashCallback name sid data s"
| "so_handle (RunTask found) s = run_task found s"

subsection \<open>Well-formed states\<close>

text \<open>
  In a reachable state the sockets have the ids that were handed out, a socket whose movie was never
  found has had no method of the movie called and no \<open>onReady\<close>, only handlers that are functions
  were called, and a movie was embedded only at the target of a socket.
\<close>

definition sock_id :: "nat \<Rightarrow> string" where
  "sock_id n = ''jSocket_'' @ int_digits (int n)"

fun effect_ok :: "jstate \<Rightarrow> so_effect \<Rightarrow> bool" where
  "effect_ok s (MovieCall sid name args) = (case get_socket sid s of None \<Rightarrow> False | Some so \<Rightarrow> movie so)"
| "effect_ok s (Fire sid h args) =
     (case get_socket sid s of None \<Rightarrow> False
      | Some so \<Rightarrow> h \<in> set (handlers so) \<and> (h = ''onReady'' \<longrightarrow> movie so))"
| "effect_ok s (EmbedSWF url tgt) = (\<exists>n so. 0 < n \<and> n \<le> last_id s \<and> get_socket (sock_id n) s = Some so \<and> target so = Some tgt)"

definition sockets_ok :: "jstate \<Rightarrow> bool" where
  "sockets_ok s \<longleftrightarrow>
     (\<forall>sid. (get_socket sid s \<noteq> None) = (\<exists>n. 0 < n \<and> n \<le> last_id s \<and> sid = sock_id n)) \<and>
     list_all (effect_ok s) (outs s)"

lemma sock_id_inj [simp]: "sock_id m = sock_id n \<longleftrightarrow> m = n"
  by (simp add: sock_id_def int_digits_inj)

lemma new_jSocket_eq:
  "new_jSocket hs s = (sock_id (Suc (last_id s)),
     set_socket (sock_id (Suc (last_id s))) \<lparr>handlers = hs, connected = False, target = None, movie = False\<rparr>
       (s\<lparr>last_id := Suc (last_id s)\<rparr>))"
  by (simp only: new_jSocket_def sock_id_def Let_def)

lemma get_set_socket [simp]:
  "get_socket sid (set_socket sid' so s) = (if sid = sid' then Some so else get_socket sid s)"
  by (simp add: get_socket_def set_socket_def lookup_put_prop)

lemma set_socket_other [simp]:
  "last_id (set_socket sid so s) = last_id s" "outs (set_socket sid so s) = outs s"
  "swf (set_socket sid so s) = swf s"
  by (simp_all add: set_socket_def)

lemma emit_simps [simp]:
  "get_socket sid (emit es s) = get_socket sid s" "last_id (emit es s) = last_id s"
  "outs (emit es s) = outs s @ es"
  by (simp_all add: emit_def get_socket_def)

lemma emit_Nil [simp]: "emit [] s = s"
  by (simp add: emit_def)

lemma effect_ok_emit [simp]: "effect_ok (emit es s) e = effect_ok s e"
  by (cases e) simp_all

lemma get_socket_update [simp]:
  "get_socket sid (s\<lparr>tasks := ts\<rparr>) = get_socket sid s" "get_socket sid (s\<lparr>last_id := n\<rparr>) = get_socket sid s"
  by (simp_all add: get_socket_def)

lemma effect_ok_tasks [simp]: "effect_ok (s\<lparr>tasks := ts\<rparr>) e = effect_ok s e"
  by (cases e) simp_all

text \<open>A change of one socket that keeps what the outputs rely on.\<close>

definition so_extends :: "jsocket \<Rightarrow> jsocket \<Rightarrow> bool" where
  "so_extends so so' \<longleftrightarrow> handlers so' = handlers so \<and> (movie so \<longrightarrow> movie so') \<and>
     (target so \<noteq> None \<longrightarrow> target so' = target so)"

lemma effect_ok_set_socket:
  assumes "get_socket sid s = Some so" and "so_extends so so'" and "effect_ok s e"
  shows "effect_ok (set_socket sid so' s) e"
  using assms by (cases e) (fastforce simp: so_extends_def split: option.splits)+

lemma sockets_ok_update:
  assumes "sockets_ok s" and "get_socket sid s = Some so" and "so_extends so so'"
    and "list_all (effect_ok (set_socket sid so' s)) es"
  shows "sockets_ok (emit es (set_socket sid so' s))"
  using assms effect_ok_set_socket[OF assms(2,3)]
  unfolding sockets_ok_def by (auto simp: list_all_iff)

lemma sockets_ok_emit:
  assumes "sockets_ok s" and "list_all (effect_ok s) es"
  shows "sockets_ok (emit es s)"
  using assms unfolding sockets_ok_def by (auto simp: list_all_iff)

lemma sockets_ok_tasks [simp]: "sockets_ok (s\<lparr>tasks := ts\<rparr>) = sockets_ok s"
  by (simp add: sockets_ok_def list_all_iff)

lemma fire_ok:
  assumes "get_socket sid s = Some so" and "h = ''onReady'' \<longrightarrow> movie so"
  shows "list_all (effect_ok s) (fire sid so h args)"
  using assms by (simp add: fire_def)

lemma sockets_ok_new:
  assumes "sockets_ok s" shows "sockets_ok (snd (new_jSocket hs s))"
proof -
  let ?sid = "sock_id (Suc (last_id s))"
  let ?so = "\<lparr>handlers = hs, connected = False, target = None, movie = False\<rparr>"
  let ?t = "set_socket ?sid ?so (s\<lparr>last_id := Suc (last_id s)\<rparr>)"
  have t: "snd (new_jSocket hs s) = ?t" by (simp add: new_jSocket_eq)
  have fresh: "get_socket ?sid s = None"
    using assms unfolding sockets_ok_def by (metis not_less_eq_eq order_refl sock_id_inj)
  have get: "get_socket sid ?t = (if sid = ?sid then Some ?so else get_socket sid s)" for sid
    by simp
  have "effect_ok ?t e" if ok: "effect_ok s e" for e
  proof (cases e)
    case (EmbedSWF url tgt)
    then obtain n so where "0 < n" "n \<le> last_id s" "get_socket (sock_id n) s = Some so" "target so = Some tgt"
      using ok by auto
    then show ?thesis unfolding EmbedSWF effect_ok.simps get by (intro exI[of _ n]) auto
  qed (use ok fresh in \<open>auto simp: get split: option.splits if_splits\<close>)
  moreover have "(get_socket sid ?t \<noteq> None) = (\<exists>n. 0 < n \<and> n \<le> last_id ?t \<and> sid = sock_id n)" for sid
    using assms unfolding sockets_ok_def get by (auto simp: le_Suc_eq)
  ultimately show ?thesis using assms unfolding t sockets_ok_def by (auto simp: list_all_iff)
qed

lemma or_same_ok: "sockets_ok s \<Longrightarrow> (\<And>t. r = Inr t \<Longrightarrow> sockets_ok t) \<Longrightarrow> sockets_ok (or_same s r)"
  by (cases r) (simp_all add: or_same_def)

lemma socket_number:
  assumes "sockets_ok s" and "get_socket sid s = Some so"
  obtains n where "0 < n" "n \<le> last_id s" "sid = sock_id n"
  using assms unfolding sockets_ok_def by (metis option.discI)

lemma sockets_ok_setup:
  assumes "sockets_ok s" and "setup_socket b sid tgt loc s = Inr t" shows "sockets_ok t"
proof -
  obtain so where so: "get_socket sid s = Some so" "target so = None"
    and t: "t = emit [EmbedSWF ((if loc \<noteq> [] then loc else swf s) @ ''?'' @ sid) tgt]
                  (set_socket sid (so\<lparr>target := Some tgt\<rparr>) s)"
    using assms(2) by (auto simp: setup_socket_def split: option.splits if_splits)
  obtain n where "0 < n" "n \<le> last_id s" "sid = sock_id n" using socket_number[OF assms(1) so(1)] .
  then show ?thesis unfolding t
    by (intro sockets_ok_update[OF assms(1) so(1)]) (auto simp: so_extends_def so(2))
qed

lemma sockets_ok_connect: "sockets_ok s \<Longrightarrow> connect sid host port s = Inr t \<Longrightarrow> sockets_ok t"
  by (auto simp: connect_def intro!: sockets_ok_emit split: option.splits if_splits)

lemma sockets_ok_set:
  assumes "sockets_ok s" and "get_socket sid s = Some so" and "so_extends so so'"
  shows "sockets_ok (set_socket sid so' s)"
  using sockets_ok_update[OF assms, of "[]"] by simp

lemma sockets_ok_close: 
  assumes "sockets_ok s" and "close_socket sid s = Inr t" shows "sockets_ok t"
proof -
  obtain so where so: "get_socket sid s = Some so"
    and t: "t = emit (if movie so then [MovieCall sid ''close'' []] else []) (set_socket sid (so\<lparr>connected := False\<rparr>) s)"
    using assms(2) by (auto simp: close_socket_def Let_def emit_def split: option.splits)
  then show ?thesis unfolding t by (intro sockets_ok_update[OF assms(1) so]) (auto simp: so_extends_def)
qed

lemma sockets_ok_guarded: "sockets_ok s \<Longrightarrow> guarded name args v sid s = Inr (w, t) \<Longrightarrow> sockets_ok t"
  by (auto simp: guarded_def assertConnected_def intro!: sockets_ok_emit split: option.splits if_splits)

lemma sockets_ok_callback:
  assumes "sockets_ok s" and "executeFlashCallback name sid data s = Inr t" shows "sockets_ok t"
  using assms
  by (auto simp: executeFlashCallback_def so_extends_def fire_def
           intro!: sockets_ok_emit sockets_ok_set split: option.splits if_splits)

lemma sockets_ok_probe: "sockets_ok s \<Longrightarrow> sockets_ok (probe_movie found sid s)"
  by (auto simp: probe_movie_def so_extends_def fire_def
           intro!: sockets_ok_emit sockets_ok_set split: option.splits)

lemma sockets_ok_run_task:
  assumes "sockets_ok s" shows "sockets_ok (run_task found s)"
proof (cases "tasks s")
  case (Cons t ts)
  have s1: "sockets_ok (s\<lparr>tasks := ts\<rparr>)" using assms by simp
  show ?thesis
  proof (cases t)
    case (Exec name sid data)
    then show ?thesis using or_same_ok[OF s1 sockets_ok_callback[OF s1]] Cons by (simp add: run_task_def Let_def)
  next
    case (Probe sid)
    then show ?thesis using sockets_ok_probe[OF s1] Cons by (simp add: run_task_def Let_def)
  qed
qed (simp add: run_task_def assms)

lemma sockets_ok_handle:
  assumes "sockets_ok s" shows "sockets_ok (so_handle e s)"
proof (cases e)
  case (Setup sid tgt loc)
  then show ?thesis using or_same_ok[OF assms sockets_ok_setup[OF assms]] by simp
next
  case (ConnectTo sid host port)
  then show ?thesis using or_same_ok[OF assms sockets_ok_connect[OF assms]] by simp
next
  case (Close sid)
  then show ?thesis using or_same_ok[OF assms sockets_ok_close[OF assms]] by simp
next
  case (Method name args sid)
  have "sockets_ok t" if "rbind (guarded name args Undef sid s) (\<lambda>(v, t). Inr t) = Inr t" for t
    using that sockets_ok_guarded[OF assms] by (auto simp: rbind_Inr_iff)
  then show ?thesis using or_same_ok[OF assms] Method by simp
qed (simp_all add: assms sockets_ok_new sockets_ok_run_task flashCallback_def)

definition so_enabled :: "so_event \<Rightarrow> jstate \<Rightarrow> bool" where
  "so_enabled e s \<longleftrightarrow> True"

interpretation sock: machine so_enabled so_handle sockets_ok
  by unfold_locales (rule sockets_ok_handle)

lemma outs_run_task: "\<exists>os. outs (run_task found s) = outs s @ os"
proof (cases "tasks s")
  case (Cons t ts)
  then show ?thesis
    by (cases t)
       (simp_all add: run_task_def or_same_def executeFlashCallback_def probe_movie_def Let_def split: option.split)
qed (simp add: run_task_def)

lemma outs_call:
  "\<exists>os. outs (or_same s (setup_socket b sid tgt loc s)) = outs s @ os"
  "\<exists>os. outs (or_same s (connect sid host port s)) = outs s @ os"
  "\<exists>os. outs (or_same s (close_socket sid s)) = outs s @ os"
  "\<exists>os. outs (or_same s (rbind (guarded name args v sid s) (\<lambda>(v, t). Inr t))) = outs s @ os"
  by (simp_all add: or_same_def setup_socket_def connect_def close_socket_def guarded_def assertConnected_def Let_def
      split: option.split)

interpretation sock_out: output_log so_handle outs
proof
  fix e s
  show "\<exists>os. outs (so_handle e s) = outs s @ os"
    by (cases e) (simp_all add: outs_run_task outs_call new_jSocket_def flashCallback_def Let_def)
qed

lemma sockets_ok_init: "sockets_ok init_jstate"
  by (auto simp: sockets_ok_def init_jstate_def get_socket_def)

subsection \<open>Calls of the movie\<close>

definition ready :: "string \<Rightarrow> jstate \<Rightarrow> bool" where
  "ready sid s = (case get_socket sid s of None \<Rightarrow> False | Some so \<Rightarrow> connected so \<and> movie so)"

lemma guarded_ready: "ready sid s \<Longrightarrow> guarded name args v sid s = Inr (v, emit [MovieCall sid name args] s)"
  by (auto simp: ready_def guarded_def assertConnected_def split: option.splits)

lemma guarded_not_ready: "\<not> ready sid s \<Longrightarrow> \<exists>err. guarded name args v sid s = Inl err"
  by (auto simp: ready_def guarded_def assertConnected_def split: option.splits)

text \<open>The 31 methods of the advanced socket, on the data \<open>a\<close>, \<open>b\<close> and \<open>c\<close>, with \<open>v\<close> what the movie returns.\<close>

definition advanced_methods ::
  "jsval \<Rightarrow> jsval \<Rightarrow> jsval \<Rightarrow> jsval \<Rightarrow> (string \<Rightarrow> jstate \<Rightarrow> (jsval \<times> jstate) result) list" where
  "advanced_methods a b c v =
     [flush v, writeArray a, writeBoolean a, readBoolean v, writeByte a, readByte v, writeBytes a b c,
      readBytes a b v, writeShort a, readShort v, writeInt a, readInt v, writeUnsignedInt a,
      readUnsignedInt v, writeFloat a, readFloat v, writeDouble a, readDouble v, writeMultiByte a b,
      readMultiByte a b v, writeUTFBytes a, readUTFBytes a v, writeUTF a, readUTF v, writeObject a,
      readObject v, setObjectEncoding a, getObjectEncoding v, setEndian a, getEndian v, getBytesAvailable v]"

lemmas advanced_defs =
  flush_def writeArray_def writeBoolean_def readBoolean_def writeByte_def readByte_def writeBytes_def
  readBytes_def writeShort_def readShort_def writeInt_def readInt_def writeUnsignedInt_def
  readUnsignedInt_def writeFloat_def readFloat_def writeDouble_def readDouble_def writeMultiByte_def
  readMultiByte_def writeUTFBytes_def readUTFBytes_def writeUTF_def readUTF_def writeObject_def
  readObject_def setObjectEncoding_def getObjectEncoding_def setEndian_def getEndian_def
  getBytesAvailable_def

lemma guarded_refused:
  "get_socket sid s = Some so \<Longrightarrow> \<not> (connected so \<and> movie so) \<Longrightarrow>
   guarded name args v sid s = Inl (ThrowStr ''jSocket is not connected, use the onConnect event '')"
  by (auto simp: guarded_def assertConnected_def)

lemma advanced_is_guarded:
  "m \<in> set (advanced_methods a b c v) \<Longrightarrow> \<exists>name args. \<exists>w \<in> {v, Undef}. m = guarded name args w"
  unfolding advanced_methods_def by (simp add: advanced_defs) (elim disjE; blast)

text \<open>
  C19: Whatever the page, the host and Flash do, in whatever order: the sockets are those that were
  made, under distinct ids; no method of a movie was called, and no \<open>onReady\<close> fired, before the movie
  of that socket was found; only handlers that are functions were called; and movies were embedded
  at the targets of sockets only.
\<close>

theorem jsocket_invariant:
  assumes "run so_enabled so_handle init_jstate es t"
  shows "sockets_ok t"
  by (rule sock.run_inv[OF assms sockets_ok_init])

definition demo_events :: "so_event list" where
  "demo_events =
     [New [''onReady'', ''onData''], Setup ''jSocket_1'' ''el'' [], Method ''write'' [StrV ''early''] ''jSocket_1'',
      Flash ''init'' ''jSocket_1'' Undef, RunTask True, RunTask False, RunTask True,
      ConnectTo ''jSocket_1'' (StrV ''h'') (StrV ''80''), Flash ''connect'' ''jSocket_1'' Undef, RunTask True,
      Method ''write'' [StrV ''x''] ''jSocket_1'']"

theorem jsocket_invariant_witness:
  "sockets_ok (fold so_handle demo_events init_jstate) \<and>
   outs (fold so_handle demo_events init_jstate) =
     [EmbedSWF ''jsocket.advanced.swf?jSocket_1'' ''el'', Fire ''jSocket_1'' ''onReady'' [],
      MovieCall ''jSocket_1'' ''connect'' [StrV ''h'', StrV ''80''], MovieCall ''jSocket_1'' ''write'' [StrV ''x'']]"
proof
  have "run so_enabled so_handle init_jstate demo_events (fold so_handle demo_events init_jstate)"
    unfolding demo_events_def by (simp add: so_enabled_def)
  from jsocket_invariant[OF this] show "sockets_ok (fold so_handle demo_events init_jstate)" .
qed code_simp

text \<open>
  Every method of the advanced socket throws, without touching the movie, while the socket is not
  connected or has no movie, and otherwise calls the movie exactly once.
\<close>

theorem advanced_guarded:
  assumes "get_socket sid s = Some so" and "m \<in> set (advanced_methods a b c v)"
  shows "if connected so \<and> movie so
         then \<exists>name args w. m sid s = Inr (w, emit [MovieCall sid name args] s) \<and> w \<in> {v, Undef}
         else m sid s = Inl (ThrowStr ''jSocket is not connected, use the onConnect event '')"
proof -
  obtain name args w where m: "w \<in> {v, Undef}" "m = guarded name args w"
    using advanced_is_guarded[OF assms(2)] by blast
  then show ?thesis
    using guarded_ready[of sid s name args w] guarded_refused[OF assms(1), of name args w] assms(1)
    by (auto simp: ready_def)
qed

theorem advanced_guarded_witness:
  "readInt Undef ''jSocket_1'' (fold so_handle (take 3 demo_events) init_jstate) =
     Inl (ThrowStr ''jSocket is not connected, use the onConnect event '')"
proof -
  let ?so = "\<lparr>handlers = [''onReady'', ''onData''], connected = False, target = Some ''el'', movie = False\<rparr>"
  have "get_socket ''jSocket_1'' (fold so_handle (take 3 demo_events) init_jstate) = Some ?so" by code_simp
  from advanced_guarded[OF this, of "readInt Undef" Undef Undef Undef Undef] show ?thesis
    by (simp add: advanced_methods_def)
qed

end
