(* ===== verification/Js_Regex.thy ===== *)
theory Js_Regex
  imports Js_Prelude "HOL-Library.Sublist"
begin

text \<open>
  The backtracking matcher of JavaScript regular expressions, for the constructs the sources use:
  character classes, sequence, alternative, the greedy quantifiers \<open>*\<close> and \<open>?\<close>, capturing groups,
  negative lookahead and the anchors. The matcher is the one of the language definition: it is
  given what has to match afterwards (\<open>k\<close>) and returns the first success; an iteration of a
  quantifier that matches the empty text is not considered. None of the patterns has a group
  inside a repeated part, so captures are not reset.
\<close>

datatype re =
    RClass bool string      \<comment> \<open>\<open>[^...]\<close> if the flag is set, else \<open>[...]\<close>\<close>
  | REps
  | RSeq re re
  | RAlt re re
  | RStar re
  | ROpt re
  | RGroup nat re
  | RNot re                 \<comment> \<open>\<open>(?!...)\<close>\<close>
  | RBol | REol

type_synonym caps = "(nat \<times> string) list"

type_synonym cont = "string \<Rightarrow> caps \<Rightarrow> (string \<times> caps) option"

definition in_class :: "bool \<Rightarrow> string \<Rightarrow> char \<Rightarrow> bool" where
  "in_class neg cs c \<longleftrightarrow> (c \<in> set cs) \<noteq> neg"

text \<open>\<open>start\<close>: the text left at position 0 of the subject.\<close>

function (sequential) mt ::
  "string \<Rightarrow> re \<Rightarrow> string \<Rightarrow> caps \<Rightarrow> cont \<Rightarrow> (string \<times> caps) option" where
  "mt start (RClass neg cs) s m k =
     (case s of [] \<Rightarrow> None | c # s' \<Rightarrow> if in_class neg cs c then k s' m else None)"
| "mt start REps s m k = k s m"
| "mt start (RSeq r q) s m k = mt start r s m (\<lambda>s' m'. mt start q s' m' k)"
| "mt start (RAlt r q) s m k = (case mt start r s m k of Some v \<Rightarrow> Some v | None \<Rightarrow> mt start q s m k)"
| "mt start (RStar r) s m k =
     (case mt start r s m (\<lambda>s' m'. if length s' < length s then mt start (RStar r) s' m' k else None) of
        Some v \<Rightarrow> Some v | None \<Rightarrow> k s m)"
| "mt start (ROpt r) s m k =
     (case mt start r s m (\<lambda>s' m'. if length s' < length s then k s' m' else None) of
        Some v \<Rightarrow> Some v | None \<Rightarrow> k s m)"
| "mt start (RGroup n r) s m k = mt start r s m (\<lambda>s' m'. k s' ((n, take (length s - length s') s) # m'))"
| "mt start (RNot r) s m k = (case mt start r s m (\<lambda>s' m'. Some (s', m')) of Some _ \<Rightarrow> None | None \<Rightarrow> k s m)"
| "mt start RBol s m k = (if length s = length start then k s m else None)"
| "mt start REol s m k = (if s = [] then k s m else None)"
  by pat_completeness auto

termination
  by (relation "measures [\<lambda>(start, r, s, m, k). size r, \<lambda>(start, r, s, m, k). length s]") auto

declare mt.simps(5) [simp del]

definition RPlus :: "re \<Rightarrow> re" where
  "RPlus r = RSeq r (RStar r)"

definition RChr :: "char \<Rightarrow> re" where
  "RChr c = RClass False [c]"

definition RDigit :: re where
  "RDigit = RClass False ''0123456789''"

fun RSeqs :: "re list \<Rightarrow> re" where
  "RSeqs [] = REps"
| "RSeqs [r] = r"
| "RSeqs (r # rs) = RSeq r (RSeqs rs)"

definition match_here :: "string \<Rightarrow> re \<Rightarrow> string \<Rightarrow> (string \<times> caps) option" where
  "match_here start r s = mt start r s [] (\<lambda>s' m'. Some (s', m'))"

text \<open>
  The first match at or after a position: what is before it, the matched text, what is left and the
  captures. The whole match is capture 0.
\<close>

fun exec_from :: "string \<Rightarrow> re \<Rightarrow> string \<Rightarrow> (string \<times> string \<times> caps) option" where
  "exec_from start r s =
     (case match_here start r s of
        Some (s', m) \<Rightarrow> Some (s, s', (0, take (length s - length s') s) # m)
      | None \<Rightarrow> (case s of [] \<Rightarrow> None | c # cs \<Rightarrow> exec_from start r cs))"

definition exec :: "re \<Rightarrow> string \<Rightarrow> caps option" where
  "exec r s = map_option (snd \<circ> snd) (exec_from s r s)"

definition cap :: "caps \<Rightarrow> nat \<Rightarrow> string option" where
  "cap m n = map_of m n"

text \<open>
  The matches of a global pattern one after the other, with the text before each. After an empty
  match the search goes on one character further. Each step leaves less text or moves on, so
  \<open>2 * length s + 2\<close> steps are enough.
\<close>

fun matches_fuel :: "nat \<Rightarrow> string \<Rightarrow> re \<Rightarrow> string \<Rightarrow> (string \<times> caps) list \<times> string" where
  "matches_fuel 0 start r s = ([], s)"
| "matches_fuel (Suc n) start r s =
     (case exec_from start r s of
        None \<Rightarrow> ([], s)
      | Some (at, s', m) \<Rightarrow>
          let before = take (length s - length at) s
          in if length s' < length at
             then let (ms, rest) = matches_fuel n start r s' in ((before, m) # ms, rest)
             else case s' of
                    [] \<Rightarrow> ([(before, m)], [])
                  | c # cs \<Rightarrow>
                      (case matches_fuel n start r cs of
                         ([], rest) \<Rightarrow> ([(before, m)], c # rest)
                       | ((b, m2) # ms, rest) \<Rightarrow> ((before, m) # (c # b, m2) # ms, rest)))"

definition matches :: "re \<Rightarrow> string \<Rightarrow> caps list" where
  "matches r s = map snd (fst (matches_fuel (2 * length s + 2) s r s))"

subsection \<open>Laws of the matcher\<close>

text \<open>What follows is matched against a suffix of the text.\<close>

lemma mt_suffix:
  "mt start r s m k = Some v \<Longrightarrow> \<exists>s' m'. suffix s' s \<and> k s' m' = Some v"
proof (induction start r s m k arbitrary: v rule: mt.induct)
  case (1 start neg cs s m k)
  then show ?case by (cases s) (auto intro: suffix_ConsI split: if_splits)
next
  case (3 start r q s m k)
  obtain s1 m1 where "suffix s1 s" "mt start q s1 m1 k = Some v" using 3(2)[of v] 3(3) by auto
  then show ?case using 3(1)[of s1 m1 v] by (meson suffix_order.trans)
next
  case (4 start r q s m k)
  then show ?case by (cases "mt start r s m k") auto
next
  case (5 start r s m k)
  show ?case
  proof (cases "mt start r s m (\<lambda>s' m'. if length s' < length s then mt start (RStar r) s' m' k else None)")
    case None
    then show ?thesis using 5(3) by (auto simp: mt.simps(5))
  next
    case (Some w)
    then obtain s' m' where s': "suffix s' s"
      and w: "(if length s' < length s then mt start (RStar r) s' m' k else None) = Some w"
      using 5(2)[OF Some] by blast
    then obtain s2 m2 where "suffix s2 s'" "k s2 m2 = Some w" using 5(1)[of s' m' w] by (auto split: if_splits)
    then have "suffix s2 s" "k s2 m2 = Some v" using s' Some 5(3) by (auto simp: mt.simps(5) intro: suffix_order.trans)
    then show ?thesis by blast
  qed
next
  case (6 start r s m k)
  show ?case
  proof (cases "mt start r s m (\<lambda>s' m'. if length s' < length s then k s' m' else None)")
    case None
    then show ?thesis using 6(2) by auto
  next
    case (Some w)
    then show ?thesis using 6(1)[OF Some] 6(2) by (auto split: if_splits)
  qed
next
  case (7 start n r s m k)
  then show ?case using 7(1)[of v] by auto
next
  case (8 start r s m k)
  then have "k s m = Some v" by (auto split: option.splits)
  then show ?case by blast
qed (auto split: if_splits)

text \<open>A greedy run over a class takes as much as it can, if the rest then matches.\<close>

lemma mt_star_class:
  assumes "\<And>c. c \<in> set xs \<Longrightarrow> in_class neg cs c" and "ys = [] \<or> \<not> in_class neg cs (hd ys)"
    and "k ys m = Some v"
  shows "mt start (RStar (RClass neg cs)) (xs @ ys) m k = Some v"
  using assms(1)
proof (induction xs)
  case Nil
  show ?case using assms(2,3) by (subst mt.simps(5)) (auto split: list.splits)
next
  case (Cons c xs)
  then have "mt start (RStar (RClass neg cs)) (xs @ ys) m k = Some v" by simp
  then show ?case using Cons.prems by (subst mt.simps(5)) simp
qed

lemma mt_plus_class:
  assumes "\<And>c. c \<in> set xs \<Longrightarrow> in_class neg cs c" and "ys = [] \<or> \<not> in_class neg cs (hd ys)"
    and "xs \<noteq> []" and "k ys m = Some v"
  shows "mt start (RPlus (RClass neg cs)) (xs @ ys) m k = Some v"
  using assms mt_star_class[of "tl xs" neg cs ys k m v start]
  by (cases xs) (auto simp: RPlus_def)

lemma mt_seq_needs:
  assumes "c \<notin> set s" shows "mt start (RSeq r (RChr c)) s m k = None"
proof (rule ccontr)
  assume "mt start (RSeq r (RChr c)) s m k \<noteq> None"
  then obtain v where "mt start (RSeq r (RChr c)) s m k = Some v" by blast
  then obtain s' m' where "suffix s' s" "mt start (RChr c) s' m' k = Some v"
    using mt_suffix[of start r s m "\<lambda>s' m'. mt start (RChr c) s' m' k" v] by auto
  then have "c \<in> set s"
    by (auto simp: RChr_def in_class_def suffix_def split: list.splits if_splits)
  then show False using assms by simp
qed

end
