(* ===== verification/Websocket_Wrapper.thy ===== *)
theory Websocket_Wrapper
  imports Jsocket Js_Regex
begin

text \<open>
  \<open>jsocket/WebSocket-wrapper.js\<close>: a \<open>WebSocket\<close> over the Flash socket, with the URL parser it
  uses. The handlers \<open>onopen\<close>, \<open>onmessage\<close>, \<open>onerror\<close>, \<open>onclose\<close> of the page and the listeners on
  the event element are outside; the state has which handlers are set, and each call of one is logged
  with the \<open>readyState\<close> the handler sees.
\<close>

subsection \<open>parseUri\<close>

definition uri_keys :: "string list" where
  "uri_keys = [''source'', ''protocol'', ''authority'', ''userInfo'', ''user'', ''password'', ''host'', ''port'',
               ''relative'', ''path'', ''directory'', ''file'', ''query'', ''anchor'']"

definition loose_scheme :: re where
  "loose_scheme =
     ROpt (RSeqs [RNot (RSeq (RSeqs [RPlus (RClass True '':@''), RChr CHR '':'', RStar (RClass True '':@/'')]) (RChr CHR ''@'')),
                  RGroup 1 (RPlus (RClass True '':/?#.'')), RChr CHR '':''])"

definition loose_user :: re where
  "loose_user =
     ROpt (RSeq (ROpt (RGroup 3 (RSeq (RGroup 4 (RStar (RClass True '':@'')))
                                      (ROpt (RSeq (RChr CHR '':'') (RGroup 5 (RStar (RClass True '':@''))))))))
                (RChr CHR ''@''))"

definition loose_authority :: re where
  "loose_authority =
     RGroup 2 (RSeqs [loose_user, RGroup 6 (RStar (RClass True '':/?#'')),
                      ROpt (RSeq (RChr CHR '':'') (RGroup 7 (RStar RDigit)))])"

definition has_extension :: re where
  "has_extension =
     RSeqs [RStar (RClass True ''?#/''), RChr CHR ''.'', RPlus (RClass True ''?#/.''), RAlt (RClass False ''?#'') REol]"

definition loose_path :: re where
  "loose_path =
     RGroup 9 (RSeq
       (ROpt (RGroup 10 (RSeqs [RChr CHR ''/'', RStar (RSeq (RClass True ''?#'') (RNot has_extension)),
                                ROpt (RChr CHR ''/'')])))
       (RGroup 11 (RStar (RClass True ''?#/''))))"

text \<open>\<open>.\<close> matches anything but a line end.\<close>

definition loose_relative :: re where
  "loose_relative =
     RGroup 8 (RSeqs [loose_path, ROpt (RSeq (RChr CHR ''?'') (RGroup 12 (RStar (RClass True ''#'')))),
                      ROpt (RSeq (RChr CHR ''#'') (RGroup 13 (RStar (RClass True [CHR 0x0A, CHR 0x0D]))))])"

definition loose_parser :: re where
  "loose_parser = RSeqs [RBol, loose_scheme, ROpt (RSeq (RChr CHR ''/'') (RChr CHR ''/'')), loose_authority, loose_relative]"

definition query_parser :: re where
  "query_parser =
     RSeqs [RAlt RBol (RChr CHR ''&''), RGroup 1 (RStar (RClass True ''&='')), ROpt (RChr CHR ''=''),
            RGroup 2 (RStar (RClass True ''&''))]"

definition cap_or_empty :: "caps \<Rightarrow> nat \<Rightarrow> string" where
  "cap_or_empty m i = (case cap m i of None \<Rightarrow> [] | Some t \<Rightarrow> t)"

definition query_key :: "string \<Rightarrow> (string \<times> string) list" where
  "query_key q = fold (\<lambda>m acc. if cap_or_empty m 1 \<noteq> [] then put_prop (cap_or_empty m 1) (cap_or_empty m 2) acc else acc)
                      (matches query_parser q) []"

text \<open>The fields of the parsed URL and, separately, its \<open>queryKey\<close>.\<close>

definition parseUri :: "string \<Rightarrow> ((string \<times> string) list \<times> (string \<times> string) list) result" where
  "parseUri str =
     (case exec loose_parser str of
        None \<Rightarrow> Inl TypeError
      | Some m \<Rightarrow> Inr (rev (map (\<lambda>i. (uri_keys ! i, cap_or_empty m i)) [0..<14]), query_key (cap_or_empty m 12)))"

definition uri_field :: "(string \<times> string) list \<Rightarrow> string \<Rightarrow> string" where
  "uri_field u k = (case lookup_prop u k of None \<Rightarrow> [] | Some t \<Rightarrow> t)"

subsection \<open>WebSocket\<close>

datatype ws_call =
    OnHandler string jsval int     \<comment> \<open>type of the event, its data, \<open>readyState\<close> at the call\<close>
  | Listeners string jsval int

record websock =
  ready_state :: int
  ws_sid :: string
  ws_uri :: "(string \<times> string) list"
  ws_protocol :: string
  ws_handlers :: "string list"     \<comment> \<open>the types \<open>t\<close> for which \<open>on<t>\<close> is set\<close>
  ws_calls :: "ws_call list"
  waiting :: bool                  \<comment> \<open>the interval that waits for the document is running\<close>
  js :: jstate

definition CONNECTING :: int where "CONNECTING = 0"
definition OPEN :: int where "OPEN = 1"
definition CLOSING :: int where "CLOSING = 2"
definition CLOSED :: int where "CLOSED = 3"

definition dispatchEvent :: "string \<Rightarrow> jsval \<Rightarrow> websock \<Rightarrow> websock" where
  "dispatchEvent type data w =
     (let w1 = (if type \<in> {''open'', ''message'', ''error'', ''close''} \<and> type \<in> set (ws_handlers w)
                then w\<lparr>ws_calls := ws_calls w @ [OnHandler type data (ready_state w)]\<rparr> else w);
          w2 = (if type = ''close'' then w1\<lparr>ready_state := CLOSED\<rparr> else w1)
      in w2\<lparr>ws_calls := ws_calls w2 @ [Listeners type data (ready_state w2)]\<rparr>)"

definition lf :: string where
  "lf = [CHR 0x0A]"

definition request_text :: "string \<Rightarrow> string \<Rightarrow> (string \<times> string) list \<Rightarrow> string \<Rightarrow> string" where
  "request_text loc_protocol loc_host u protocol =
     ''GET '' @ uri_field u ''path'' @ '' HTTP/1.1'' @ lf @
     ''Upgrade: WebSocket'' @ lf @
     ''Connection: Upgrade'' @ lf @
     ''Host: '' @ uri_field u ''host'' @ '':'' @ uri_field u ''port'' @ lf @
     ''Origin: '' @ loc_protocol @ ''://'' @ loc_host @ lf @
     (if protocol \<noteq> [] then ''WebSocket-Protocol: '' @ protocol @ lf else []) @ lf"

text \<open>A method of the socket called from the wrapper: the answer and the new state, or the exception.\<close>

definition on_socket_call :: "(string \<Rightarrow> jstate \<Rightarrow> (jsval \<times> jstate) result) \<Rightarrow> websock \<Rightarrow> (jsval \<times> websock) result" where
  "on_socket_call f w = rbind (f (ws_sid w) (js w)) (\<lambda>(v, j). Inr (v, w\<lparr>js := j\<rparr>))"

text \<open>\<open>lp\<close> and \<open>lh\<close>: \<open>window.location.protocol\<close> and \<open>window.location.host\<close>.\<close>

definition SendRequest :: "string \<Rightarrow> string \<Rightarrow> websock \<Rightarrow> websock result" where
  "SendRequest lp lh w =
     rbind (on_socket_call (write_socket (StrV (request_text lp lh (ws_uri w) (ws_protocol w)))) w) (\<lambda>(_, w1). Inr w1)"

text \<open>\<open>tx\<close> is what \<open>readUTFBytes\<close> returns, \<open>b1\<close> and \<open>b2\<close> what the two \<open>readByte\<close> return.\<close>

definition ws_ondata :: "jsval \<Rightarrow> jsval \<Rightarrow> jsval \<Rightarrow> jsval \<Rightarrow> websock \<Rightarrow> websock result" where
  "ws_ondata sz b1 tx b2 w =
     (if ready_state w = CONNECTING then
        rbind (on_socket_call (readUTFBytes sz tx) w) (\<lambda>(handshake, w1).
          Inr ((dispatchEvent ''open'' Undef w1)\<lparr>ready_state := OPEN\<rparr>))
      else if ready_state w = OPEN then
        rbind (on_socket_call (readByte b1) w) (\<lambda>(intro, w1).
        rbind (on_socket_call (readUTFBytes (js_sub sz (IntV 2)) tx) w1) (\<lambda>(data, w2).
        rbind (on_socket_call (readByte b2) w2) (\<lambda>(outro, w3).
          Inr (dispatchEvent ''message'' data w3))))
      else Inr w)"

definition ws_onclose :: "websock \<Rightarrow> websock" where
  "ws_onclose w = dispatchEvent ''close'' Undef w"

definition ws_onready :: "websock \<Rightarrow> websock result" where
  "ws_onready w =
     rbind (connect (ws_sid w) (StrV (uri_field (ws_uri w) ''host'')) (StrV (uri_field (ws_uri w) ''port'')) (js w))
       (\<lambda>j. Inr (w\<lparr>js := j\<rparr>))"

definition ws_onconnect :: "string \<Rightarrow> string \<Rightarrow> bool \<Rightarrow> websock \<Rightarrow> websock result" where
  "ws_onconnect lp lh res w = (if res then SendRequest lp lh w else Inr (dispatchEvent ''close'' Undef w))"

definition ws_setup :: "bool \<Rightarrow> websock \<Rightarrow> websock result" where
  "ws_setup has_swfobject w =
     rbind (setup_socket has_swfobject (ws_sid w) (''__'' @ ws_sid w) [] (js w)) (\<lambda>j. Inr (w\<lparr>js := j\<rparr>))"

text \<open>\<open>rdy\<close>: the document is complete.\<close>

definition new_WebSocket :: "bool \<Rightarrow> bool \<Rightarrow> string \<Rightarrow> string \<Rightarrow> jstate \<Rightarrow> websock result" where
  "new_WebSocket has_swfobject rdy url protocol j =
     rbind (parseUri url) (\<lambda>(u, _).
       let (sid, j1) = new_jSocket [''onReady'', ''onConnect'', ''onData'', ''onClose''] j;
           w = \<lparr>ready_state = CONNECTING, ws_sid = sid, ws_uri = u, ws_protocol = protocol, ws_handlers = [],
                ws_calls = [], waiting = \<not> rdy, js = j1\<rparr>
       in if rdy then ws_setup has_swfobject w else Inr w)"

definition ws_interval :: "bool \<Rightarrow> bool \<Rightarrow> websock \<Rightarrow> websock result" where
  "ws_interval has_swfobject rdy w =
     (if waiting w \<and> rdy then ws_setup has_swfobject (w\<lparr>waiting := False\<rparr>) else Inr w)"

definition ws_send :: "jsval \<Rightarrow> websock \<Rightarrow> websock result" where
  "ws_send data w =
     rbind (on_socket_call (writeByte (IntV 0)) w) (\<lambda>(_, w1).
     rbind (on_socket_call (writeUTFBytes data) w1) (\<lambda>(_, w2).
     rbind (on_socket_call (writeByte (IntV 255)) w2) (\<lambda>(_, w3).
     rbind (on_socket_call (flush Undef) w3) (\<lambda>(_, w4). Inr w4))))"

text \<open>\<open>close\<close> has changed \<open>readyState\<close> when \<open>flush\<close> throws: the state is returned with the exception.\<close>

definition ws_close :: "websock \<Rightarrow> websock \<times> jserr option" where
  "ws_close w =
     (let w1 = w\<lparr>ready_state := CLOSING\<rparr>
      in case on_socket_call (flush Undef) w1 of
           Inl e \<Rightarrow> (w1, Some e)
         | Inr (_, w2) \<Rightarrow>
             (case close_socket (ws_sid w2) (js w2) of
                Inl e \<Rightarrow> (w2, Some e)
              | Inr j \<Rightarrow> (w2\<lparr>js := j\<rparr>, None)))"

text \<open>
  \<open>if (!"WebSocket" in window)\<close>: \<open>!\<close> binds tighter than \<open>in\<close>, so the question is whether the
  window has a property \<open>false\<close>.
\<close>

definition install_WebSocket :: "string list \<Rightarrow> bool" where
  "install_WebSocket window_props = (to_str (BoolV (\<not> truthy (StrV ''WebSocket''))) \<in> set window_props)"

subsection \<open>The wrapper on its socket\<close>

text \<open>
  What the callbacks of the socket do: the handlers passed to \<open>new jSocket\<close> are the functions above.
  \<open>env\<close> holds the location of the page and what the movie answers to reads.
\<close>

record ws_env =
  loc_protocol :: string
  loc_host :: string
  first_byte :: jsval
  text_read :: jsval
  last_byte :: jsval

fun ws_fire :: "ws_env \<Rightarrow> so_effect \<Rightarrow> websock \<Rightarrow> websock result" where
  "ws_fire en (Fire sid h args) w =
     (if sid \<noteq> ws_sid w then Inr w
      else if h = ''onReady'' then ws_onready w
      else if h = ''onConnect'' then ws_onconnect (loc_protocol en) (loc_host en) (truthy (hd (args @ [Undef]))) w
      else if h = ''onData'' then ws_ondata (hd (args @ [Undef])) (first_byte en) (text_read en) (last_byte en) w
      else Inr (ws_onclose w))"
| "ws_fire en _ w = Inr w"

fun ws_fires :: "ws_env \<Rightarrow> so_effect list \<Rightarrow> websock \<Rightarrow> websock result" where
  "ws_fires en [] w = Inr w"
| "ws_fires en (e # es) w = rbind (ws_fire en e w) (ws_fires en es)"

definition ws_callback :: "ws_env \<Rightarrow> string \<Rightarrow> jsval \<Rightarrow> websock \<Rightarrow> websock result" where
  "ws_callback en name data w =
     rbind (executeFlashCallback name (ws_sid w) data (js w)) (\<lambda>j.
       ws_fires en (drop (length (outs (js w))) (outs j)) (w\<lparr>js := j\<rparr>))"

definition ws_found :: "ws_env \<Rightarrow> websock \<Rightarrow> websock result" where
  "ws_found en w =
     (let j = probe_movie True (ws_sid w) (js w)
      in ws_fires en (drop (length (outs (js w))) (outs j)) (w\<lparr>js := j\<rparr>))"

subsection \<open>Parsing the address of a web socket\<close>

lemma mt_chr [simp]:
  "mt start (RChr c) (d # s) m k = (if d = c then k s m else None)" "mt start (RChr c) [] m k = None"
  by (auto simp: RChr_def in_class_def)

lemma mt_needs:
  assumes "c \<notin> set s" shows "mt start (RSeq r (RSeq (RChr c) q)) s m k = None"
proof (rule ccontr)
  assume "mt start (RSeq r (RSeq (RChr c) q)) s m k \<noteq> None"
  then obtain v where "mt start r s m (\<lambda>s' m'. mt start (RSeq (RChr c) q) s' m' k) = Some v" by auto
  from mt_suffix[OF this] obtain s' m' where "suffix s' s" "mt start (RSeq (RChr c) q) s' m' k = Some v" by blast
  then have "c \<in> set s" by (cases s') (auto simp: suffix_def split: if_splits)
  then show False using assms by simp
qed

lemma mt_not_needs:
  assumes "c \<notin> set s" shows "mt start (RNot (RSeq r (RChr c))) s m k = k s m"
  using mt_seq_needs[OF assms, of start r m "\<lambda>s' m'. Some (s', m')"] by (simp only: mt.simps(8) option.case)

lemma mt_loose_scheme:
  assumes "CHR ''@'' \<notin> set (sc @ '':'' @ rest)" and "sc \<noteq> []" and "set sc \<inter> set '':/?#.'' = {}"
    and "k rest ((1, sc) # m) = Some v"
  shows "mt start loose_scheme (sc @ '':'' @ rest) m k = Some v"
proof -
  define s where "s = sc @ '':'' @ rest"
  let ?k = "\<lambda>s' m'. if length s' < length s then k s' m' else None"
  let ?g = "\<lambda>s' m'. mt start (RChr CHR '':'') s' ((1, take (length s - length s') s) # m') ?k"
  have "mt start (RPlus (RClass True '':/?#.'')) s m ?g = Some v"
    unfolding s_def by (rule mt_plus_class) (use assms(2-4) in \<open>auto simp: in_class_def simp del: mt.simps\<close>)
  then have "mt start (RSeqs [RNot (RSeq r (RChr CHR ''@'')), RGroup 1 (RPlus (RClass True '':/?#.'')),
      RChr CHR '':'']) s m ?k = Some v" for r
    by (simp only: RSeqs.simps mt.simps(3,7) mt_not_needs[OF assms(1), folded s_def])
  then show ?thesis unfolding loose_scheme_def s_def[symmetric] by (simp only: mt.simps(6) option.case)
qed

lemma mt_loose_user:
  assumes "CHR ''@'' \<notin> set s" shows "mt start loose_user s m k = k s m"
  unfolding loose_user_def using mt_seq_needs[OF assms] by simp

lemma mt_port:
  assumes "\<And>c. c \<in> set p \<Longrightarrow> in_class False ''0123456789'' c" and "rest = [] \<or> \<not> in_class False ''0123456789'' (hd rest)"
    and "k rest ((7, p) # m) = Some v"
  shows "mt start (ROpt (RSeq (RChr CHR '':'') (RGroup 7 (RStar RDigit)))) ('':'' @ p @ rest) m k = Some v"
proof -
  let ?k = "\<lambda>s' m'. if length s' < length ('':'' @ p @ rest) then k s' m' else None"
  define s where "s = p @ rest"
  have "mt start (RStar RDigit) s m (\<lambda>s' m'. ?k s' ((7, take (length s - length s') s) # m')) = Some v"
    unfolding RDigit_def s_def by (rule mt_star_class) (use assms in auto)
  then have "mt start (RSeq (RChr CHR '':'') (RGroup 7 (RStar RDigit))) ('':'' @ p @ rest) m ?k = Some v"
    by (simp only: mt.simps(3,7) mt_chr append.simps s_def[symmetric] simp_thms if_True)
  then show ?thesis by (simp only: mt.simps(6) option.case)
qed

lemma mt_loose_authority:
  assumes "CHR ''@'' \<notin> set (h @ '':'' @ p @ rest)" and "set h \<inter> set '':/?#'' = {}"
    and "set p \<subseteq> set ''0123456789''" and "rest = [] \<or> hd rest \<notin> set ''0123456789''"
    and "k rest ((2, h @ '':'' @ p) # (7, p) # (6, h) # m) = Some v"
  shows "mt start loose_authority (h @ '':'' @ p @ rest) m k = Some v"
proof -
  define s where "s = h @ '':'' @ p @ rest"
  let ?k = "\<lambda>s' m'. k s' ((2, take (length s - length s') s) # m')"
  let ?port = "ROpt (RSeq (RChr CHR '':'') (RGroup 7 (RStar RDigit)))"
  have port: "mt start ?port ('':'' @ p @ rest) ((6, h) # m) ?k = Some v"
  proof (rule mt_port)
    show "k rest ((2, take (length s - length rest) s) # (7, p) # (6, h) # m) = Some v"
      using assms(5) by (simp add: s_def)
    show "in_class False ''0123456789'' c" if "c \<in> set p" for c
      unfolding in_class_def using that assms(3) by blast
    show "rest = [] \<or> \<not> in_class False ''0123456789'' (hd rest)"
      unfolding in_class_def using assms(4) by blast
  qed
  have tk: "take (length s - length ('':'' @ p @ rest)) s = h" by (simp add: s_def)
  have "mt start (RStar (RClass True '':/?#'')) (h @ '':'' @ p @ rest) m
      (\<lambda>s' m'. mt start ?port s' ((6, take (length s - length s') s) # m') ?k) = Some v"
  proof (rule mt_star_class)
    show "mt start ?port ('':'' @ p @ rest) ((6, take (length s - length ('':'' @ p @ rest)) s) # m) ?k = Some v"
      by (simp only: tk port)
    show "in_class True '':/?#'' c" if "c \<in> set h" for c
      unfolding in_class_def using that assms(2) by blast
  qed (simp add: in_class_def)
  then show ?thesis
    unfolding loose_authority_def s_def[symmetric]
    by (simp only: RSeqs.simps mt.simps(3,7) mt_loose_user[OF assms(1), folded s_def])
qed

lemma mt_no_extension:
  assumes "CHR ''.'' \<notin> set s" shows "mt start (RNot has_extension) s m k = k s m"
  unfolding has_extension_def using mt_needs[OF assms] by (simp only: RSeqs.simps mt.simps(8) option.case)

lemma mt_dir_loop:
  assumes "set xs \<inter> set ''?#.'' = {}" and "k [] m = Some v"
  shows "mt start (RStar (RSeq (RClass True ''?#'') (RNot has_extension))) xs m k = Some v"
  using assms(1)
proof (induction xs)
  case Nil
  show ?case using assms(2) by (simp add: mt.simps(5))
next
  case (Cons c xs)
  let ?k = "\<lambda>s' m'. if length s' < length (c # xs)
               then mt start (RStar (RSeq (RClass True ''?#'') (RNot has_extension))) s' m' k else None"
  have nodot: "CHR ''.'' \<notin> set xs" using Cons.prems by simp
  have "mt start (RNot has_extension) xs m ?k = Some v"
    unfolding mt_no_extension[OF nodot] using Cons by simp
  moreover have "in_class True ''?#'' c" using Cons.prems by (auto simp: in_class_def)
  ultimately have "mt start (RSeq (RClass True ''?#'') (RNot has_extension)) (c # xs) m ?k = Some v"
    by (simp only: mt.simps(1,3) list.case if_True)
  then show ?case by (subst mt.simps(5)) (simp only: option.case)
qed

lemma mt_end_option: "mt start (ROpt (RChr c)) [] m k = k [] m" "mt start (ROpt (RSeq (RChr c) q)) [] m k = k [] m"
  by simp_all

lemma mt_loose_path:
  assumes "set path \<inter> set ''?#.'' = {}"
    and "k [] ((9, CHR ''/'' # path) # (11, []) # (10, CHR ''/'' # path) # m) = Some v"
  shows "mt start loose_path (CHR ''/'' # path) m k = Some v"
proof -
  define s where "s = CHR ''/'' # path"
  define k9 where "k9 = (\<lambda>s' m'. k s' ((9, take (length s - length s') s) # m'))"
  define k11 where "k11 = (\<lambda>s m. mt start (RGroup 11 (RStar (RClass True ''?#/''))) s m k9)"
  define k0 where "k0 = (\<lambda>s' m'. if length s' < length s then k11 s' m' else None)"
  define k10 where "k10 = (\<lambda>s' m'. k0 s' ((10, take (length s - length s') s) # m'))"
  have "k11 [] ((10, s) # m) = Some v"
    using assms(2) by (simp add: k11_def k9_def s_def mt.simps(5))
  then have "k10 [] m = Some v" by (simp add: k10_def k0_def s_def)
  then have "mt start (RStar (RSeq (RClass True ''?#'') (RNot has_extension))) path m
               (\<lambda>s' m'. mt start (ROpt (RChr CHR ''/'')) s' m' k10) = Some v"
    by (intro mt_dir_loop[OF assms(1)]) (simp only: mt_end_option)
  then have "mt start (RGroup 10 (RSeqs [RChr CHR ''/'', RStar (RSeq (RClass True ''?#'') (RNot has_extension)),
      ROpt (RChr CHR ''/'')])) s m k0 = Some v"
    unfolding k10_def by (simp only: RSeqs.simps mt.simps(3,7) mt_chr s_def simp_thms if_True)
  then show ?thesis
    unfolding loose_path_def s_def[symmetric] k0_def k11_def k9_def
    by (simp only: mt.simps(3,6,7) option.case)
qed

lemma mt_loose_relative:
  assumes "set path \<inter> set ''?#.'' = {}"
    and "k [] ((8, CHR ''/'' # path) # (9, CHR ''/'' # path) # (11, []) # (10, CHR ''/'' # path) # m) = Some v"
  shows "mt start loose_relative (CHR ''/'' # path) m k = Some v"
  unfolding loose_relative_def mt.simps(3,7) RSeqs.simps
  by (rule mt_loose_path[OF assms(1)]) (use assms(2) in \<open>simp only: mt_end_option list.size diff_zero take_all order_refl\<close>)

text \<open>The addresses the white board uses: scheme, host, port and a path without extension.\<close>

definition ws_url :: "string \<Rightarrow> string \<Rightarrow> string \<Rightarrow> string \<Rightarrow> string" where
  "ws_url sc h p path = sc @ '':'' @ ''//'' @ h @ '':'' @ p @ CHR ''/'' # path"

definition plain_url :: "string \<Rightarrow> string \<Rightarrow> string \<Rightarrow> string \<Rightarrow> bool" where
  "plain_url sc h p path \<longleftrightarrow>
     sc \<noteq> [] \<and> set sc \<inter> set '':/?#.@'' = {} \<and> set h \<inter> set '':/?#@'' = {} \<and>
     set p \<subseteq> set ''0123456789'' \<and> set path \<inter> set ''?#.@'' = {}"

lemma exec_loose:
  assumes "plain_url sc h p path"
  shows "exec loose_parser (ws_url sc h p path) =
    Some [(0, ws_url sc h p path), (8, CHR ''/'' # path), (9, CHR ''/'' # path), (11, []), (10, CHR ''/'' # path),
          (2, h @ '':'' @ p), (7, p), (6, h), (1, sc)]"
proof -
  define u where "u = ws_url sc h p path"
  define k where "k = (\<lambda>(s' :: string) (m' :: caps). Some (s', m'))"
  define m1 where "m1 = [(1 :: nat, sc)]"
  define m2 where "m2 = (2, h @ '':'' @ p) # (7, p) # (6, h) # m1"
  let ?m = "(8, CHR ''/'' # path) # (9, CHR ''/'' # path) # (11, []) # (10, CHR ''/'' # path) # m2"
  let ?auth = "h @ '':'' @ p @ CHR ''/'' # path"
  have noat: "CHR ''@'' \<notin> set (sc @ '':'' @ ''//'' @ ?auth)" "CHR ''@'' \<notin> set ?auth"
    using assms unfolding plain_url_def by auto
  have rel: "mt u loose_relative (CHR ''/'' # path) m2 k = Some ([], ?m)"
    by (rule mt_loose_relative) (use assms in \<open>auto simp: plain_url_def k_def\<close>)
  have auth: "mt u loose_authority ?auth m1 (\<lambda>s' m'. mt u loose_relative s' m' k) = Some ([], ?m)"
  proof (rule mt_loose_authority[OF noat(2)])
    show "mt u loose_relative (CHR ''/'' # path) ((2, h @ '':'' @ p) # (7, p) # (6, h) # m1) k = Some ([], ?m)"
      using rel unfolding m2_def .
    show "set h \<inter> set '':/?#'' = {}" "set p \<subseteq> set ''0123456789''"
      using assms unfolding plain_url_def by auto
  qed simp
  have slashes: "mt u (ROpt (RSeq (RChr CHR ''/'') (RChr CHR ''/''))) (''//'' @ ?auth) m1
      (\<lambda>s' m'. mt u loose_authority s' m' (\<lambda>s' m'. mt u loose_relative s' m' k)) = Some ([], ?m)"
    using auth by simp
  have "mt u loose_scheme (sc @ '':'' @ ''//'' @ ?auth) [] (\<lambda>s' m'. mt u (ROpt (RSeq (RChr CHR ''/'') (RChr CHR ''/''))) s' m'
      (\<lambda>s' m'. mt u loose_authority s' m' (\<lambda>s' m'. mt u loose_relative s' m' k))) = Some ([], ?m)"
  proof (rule mt_loose_scheme[OF noat(1)])
    show "sc \<noteq> []" "set sc \<inter> set '':/?#.'' = {}" using assms unfolding plain_url_def by auto
  qed (use slashes in \<open>simp only: m1_def\<close>)
  then have "match_here u loose_parser u = Some ([], ?m)"
    unfolding match_here_def loose_parser_def k_def[symmetric]
    by (simp only: RSeqs.simps mt.simps(3,9) u_def ws_url_def simp_thms if_True)
  then show ?thesis
    unfolding exec_def u_def[symmetric] by (simp add: m2_def m1_def)
qed

lemma cap_exec_simps:
  "cap_or_empty ((n, t) # m) i = (if i = n then t else cap_or_empty m i)" "cap_or_empty [] i = []"
  by (simp_all add: cap_or_empty_def cap_def)

lemma upto_14: "[0..<14] = [0, 1, 2, 3, 4, 5, 6, 7, 8, 9, 10, 11, 12, 13 :: nat]"
  by code_simp

lemma query_key_empty: "query_key [] = []"
  by code_simp

lemma parse_ws_url:
  assumes "plain_url sc h p path"
  shows "\<exists>u. parseUri (ws_url sc h p path) = Inr (u, []) \<and> uri_field u ''protocol'' = sc \<and>
           uri_field u ''host'' = h \<and> uri_field u ''port'' = p \<and> uri_field u ''path'' = CHR ''/'' # path \<and>
           uri_field u ''query'' = [] \<and> uri_field u ''source'' = ws_url sc h p path"
  unfolding parseUri_def exec_loose[OF assms]
  by (simp add: cap_exec_simps query_key_empty upto_14 uri_keys_def uri_field_def)

text \<open>
  C20: The URL of a web socket is taken apart into the parts it was put together from: for every
  scheme, host, port and path without a query, an extension or a user part, \<open>parseUri\<close> returns that
  scheme, host, port and path, and no query.
\<close>

theorem parseUri_ws_url:
  assumes "plain_url sc h p path"
  shows "\<exists>u. parseUri (ws_url sc h p path) = Inr (u, []) \<and> uri_field u ''protocol'' = sc \<and>
           uri_field u ''host'' = h \<and> uri_field u ''port'' = p \<and> uri_field u ''path'' = CHR ''/'' # path \<and>
           uri_field u ''query'' = [] \<and> uri_field u ''source'' = ws_url sc h p path"
  by (rule parse_ws_url[OF assms])

theorem parseUri_ws_url_witness:
  "\<exists>u. parseUri ''ws://www.board.cn:8080/draw/1'' = Inr (u, []) \<and> uri_field u ''host'' = ''www.board.cn'' \<and>
       uri_field u ''port'' = ''8080'' \<and> uri_field u ''path'' = ''/draw/1''"
proof -
  have "plain_url ''ws'' ''www.board.cn'' ''8080'' ''draw/1''" by code_simp
  from parseUri_ws_url[OF this] show ?thesis by (auto simp: ws_url_def)
qed

subsection \<open>The life of a connection\<close>

definition ws_ready :: "websock \<Rightarrow> bool" where
  "ws_ready w = ready (ws_sid w) (js w)"

lemma on_socket_call_ready:
  "ws_ready w \<Longrightarrow> on_socket_call (guarded name args v) w = Inr (v, w\<lparr>js := emit [MovieCall (ws_sid w) name args] (js w)\<rparr>)"
  by (simp add: on_socket_call_def ws_ready_def guarded_ready)

lemma ws_ready_emit [simp]: "ws_ready (w\<lparr>js := emit es (js w)\<rparr>) = ws_ready w"
  by (simp add: ws_ready_def ready_def)

lemma emit_emit: "emit es (emit ds s) = emit (ds @ es) s"
  by (simp add: emit_def)

lemma on_socket_call_refused:
  assumes "get_socket (ws_sid w) (js w) = Some so" and "\<not> (connected so \<and> movie so)"
  shows "on_socket_call (guarded name args v) w = Inl (ThrowStr ''jSocket is not connected, use the onConnect event '')"
  using guarded_refused[OF assms] by (simp add: on_socket_call_def)

lemma fresh_id:
  assumes "sockets_ok j"
  shows "get_socket (sock_id (Suc (last_id j))) j = None"
  using assms unfolding sockets_ok_def by (metis not_less_eq_eq order_refl sock_id_inj)

lemma new_WebSocket_steps:
  assumes "parseUri url = Inr (u, q)"
  shows "new_WebSocket True True url prot j = Inr
    \<lparr>ready_state = CONNECTING, ws_sid = sock_id (Suc (last_id j)), ws_uri = u, ws_protocol = prot, ws_handlers = [],
     ws_calls = [], waiting = False,
     js = emit [EmbedSWF (swf j @ ''?'' @ sock_id (Suc (last_id j))) (''__'' @ sock_id (Suc (last_id j)))]
       (set_socket (sock_id (Suc (last_id j)))
          \<lparr>handlers = [''onReady'', ''onConnect'', ''onData'', ''onClose''], connected = False,
           target = Some (''__'' @ sock_id (Suc (last_id j))), movie = False\<rparr>
          (set_socket (sock_id (Suc (last_id j)))
            \<lparr>handlers = [''onReady'', ''onConnect'', ''onData'', ''onClose''], connected = False, target = None,
             movie = False\<rparr> (j\<lparr>last_id := Suc (last_id j)\<rparr>)))\<rparr>"
  by (simp add: assms new_WebSocket_def new_jSocket_eq ws_setup_def setup_socket_def)

lemma ws_found_steps:
  assumes "get_socket (ws_sid w) (js w) = Some so" and "set (handlers so) = {''onReady'', ''onConnect'', ''onData'', ''onClose''}"
    and "\<not> connected so"
  shows "ws_found en w = Inr (w\<lparr>js := emit
     [Fire (ws_sid w) ''onReady'' [],
      MovieCall (ws_sid w) ''connect'' [StrV (uri_field (ws_uri w) ''host''), StrV (uri_field (ws_uri w) ''port'')]]
     (set_socket (ws_sid w) (so\<lparr>movie := True\<rparr>) (js w))\<rparr>)"
  using assms by (simp add: ws_found_def probe_movie_def fire_def Let_def ws_onready_def connect_def emit_emit)

lemma ws_connected_steps:
  assumes "get_socket (ws_sid w) (js w) = Some so" and "set (handlers so) = {''onReady'', ''onConnect'', ''onData'', ''onClose''}"
    and "movie so"
  shows "ws_callback en ''connect'' d w = Inr (w\<lparr>js := emit
     [Fire (ws_sid w) ''onConnect'' [BoolV True],
      MovieCall (ws_sid w) ''write'' [StrV (request_text (loc_protocol en) (loc_host en) (ws_uri w) (ws_protocol w))]]
     (set_socket (ws_sid w) (so\<lparr>connected := True\<rparr>) (js w))\<rparr>)"
  using assms
  by (simp add: ws_callback_def executeFlashCallback_def fire_def ws_onconnect_def SendRequest_def write_socket_def
      on_socket_call_ready ws_ready_def ready_def emit_emit)

text \<open>
  C21: A new web socket, on any state of the socket library, embeds its movie; when the movie is found
  it asks it to connect to the host and port of the URL; and when that succeeds it writes the upgrade
  request for the path of the URL, and nothing else.
\<close>

theorem ws_handshake:
  assumes "plain_url sc h p path"
  shows "let sid = sock_id (Suc (last_id j)) in \<exists>w1 w2 w3. new_WebSocket True True (ws_url sc h p path) [] j = Inr w1 \<and> ws_found en w1 = Inr w2 \<and>
    ws_callback en ''connect'' d w2 = Inr w3 \<and> ws_ready w3 \<and> ready_state w3 = CONNECTING \<and>
    outs (js w3) = outs j @
      [EmbedSWF (swf j @ ''?'' @ sid) (''__'' @ sid), Fire sid ''onReady'' [], MovieCall sid ''connect'' [StrV h, StrV p],
       Fire sid ''onConnect'' [BoolV True],
       MovieCall sid ''write'' [StrV (''GET '' @ CHR ''/'' # path @ '' HTTP/1.1'' @ lf @ ''Upgrade: WebSocket'' @ lf @
         ''Connection: Upgrade'' @ lf @ ''Host: '' @ h @ '':'' @ p @ lf @
         ''Origin: '' @ loc_protocol en @ ''://'' @ loc_host en @ lf @ lf)]]"
proof -
  obtain u where u: "parseUri (ws_url sc h p path) = Inr (u, [])" "uri_field u ''host'' = h" "uri_field u ''port'' = p"
    "uri_field u ''path'' = CHR ''/'' # path"
    using parse_ws_url[OF assms] by blast
  show ?thesis
    unfolding Let_def
    by (simp add: new_WebSocket_steps[OF u(1)] ws_found_steps ws_connected_steps ws_ready_def
        ready_def u(2-4) request_text_def)
qed

abbreviation demo_env :: ws_env where
  "demo_env \<equiv> \<lparr>loc_protocol = ''http:'', loc_host = ''board.cn'', first_byte = IntV 0, text_read = StrV ''hi'', last_byte = IntV 255\<rparr>"

theorem ws_handshake_witness:
  "\<exists>w1 w2 w3. new_WebSocket True True ''ws://www.board.cn:8080/draw'' [] init_jstate = Inr w1 \<and>
     ws_found demo_env w1 = Inr w2 \<and> ws_callback demo_env ''connect'' Undef w2 = Inr w3 \<and>
     take 3 (outs (js w3)) =
       [EmbedSWF ''jsocket.advanced.swf?jSocket_1'' ''__jSocket_1'', Fire ''jSocket_1'' ''onReady'' [],
        MovieCall ''jSocket_1'' ''connect'' [StrV ''www.board.cn'', StrV ''8080'']]"
proof -
  have "plain_url ''ws'' ''www.board.cn'' ''8080'' ''draw''" by code_simp
  moreover have "sock_id (Suc (last_id init_jstate)) = ''jSocket_1''" by code_simp
  ultimately show ?thesis
    using ws_handshake[of "''ws''" "''www.board.cn''" "''8080''" "''draw''" init_jstate demo_env Undef]
    by (auto simp: Let_def ws_url_def init_jstate_def)
qed

lemma ondata_connecting:
  assumes "ws_ready w" and "ready_state w = CONNECTING"
  shows "ws_ondata sz b1 tx b2 w = Inr (w\<lparr>ready_state := OPEN,
     js := emit [MovieCall (ws_sid w) ''readUTFBytes'' [sz]] (js w),
     ws_calls := ws_calls w @ (if ''open'' \<in> set (ws_handlers w) then [OnHandler ''open'' Undef CONNECTING] else [])
       @ [Listeners ''open'' Undef CONNECTING]\<rparr>)"
  using assms by (simp add: ws_ondata_def readUTFBytes_def on_socket_call_ready dispatchEvent_def Let_def)

lemma ondata_open:
  assumes "ws_ready w" and "ready_state w = OPEN"
  shows "ws_ondata sz b1 tx b2 w = Inr (w\<lparr>
     js := emit [MovieCall (ws_sid w) ''readByte'' [], MovieCall (ws_sid w) ''readUTFBytes'' [js_sub sz (IntV 2)],
                 MovieCall (ws_sid w) ''readByte'' []] (js w),
     ws_calls := ws_calls w @ (if ''message'' \<in> set (ws_handlers w) then [OnHandler ''message'' tx OPEN] else [])
       @ [Listeners ''message'' tx OPEN]\<rparr>)"
  using assms
  by (simp add: ws_ondata_def readUTFBytes_def readByte_def OPEN_def CONNECTING_def on_socket_call_ready emit_emit
      dispatchEvent_def Let_def)

lemma ondata_closing:
  "ready_state w \<in> {CLOSING, CLOSED} \<Longrightarrow> ws_ondata sz b1 tx b2 w = Inr w"
  by (auto simp: ws_ondata_def OPEN_def CONNECTING_def CLOSING_def CLOSED_def)


abbreviation demo_ws :: "bool \<Rightarrow> websock" where
  "demo_ws up \<equiv> \<lparr>ready_state = CONNECTING, ws_sid = ''s'', ws_uri = [], ws_protocol = [], ws_handlers = [''open'', ''message''],
    ws_calls = [], waiting = False,
    js = init_jstate\<lparr>sockets := [(''s'', \<lparr>handlers = [], connected = up, target = None, movie = True\<rparr>)]\<rparr>\<rparr>"


lemma ws_send_frame:
  assumes "ws_ready w"
  shows "ws_send data w = Inr (w\<lparr>js := emit
    [MovieCall (ws_sid w) ''writeByte'' [IntV 0], MovieCall (ws_sid w) ''writeUTFBytes'' [data],
     MovieCall (ws_sid w) ''writeByte'' [IntV 255], MovieCall (ws_sid w) ''flush'' []] (js w)\<rparr>)"
  using assms by (simp add: ws_send_def writeByte_def writeUTFBytes_def flush_def on_socket_call_ready emit_emit)

text \<open>
  \<open>close\<close> on a web socket that is not connected throws, after it has set \<open>readyState\<close> to
  \<open>CLOSING\<close> and before the socket is closed: no \<open>close\<close> reaches the movie, and the packets that
  come when the connection is made after all are dropped.
\<close>

theorem ws_close_unconnected:
  assumes "get_socket (ws_sid w) (js w) = Some so" and "\<not> (connected so \<and> movie so)"
  shows "\<exists>w'. ws_close w = (w', Some (ThrowStr ''jSocket is not connected, use the onConnect event '')) \<and>
           ready_state w' = CLOSING \<and> js w' = js w \<and> ws_ondata sz b1 tx b2 (w'\<lparr>js := j\<rparr>) = Inr (w'\<lparr>js := j\<rparr>)"
proof -
  have "on_socket_call (flush Undef) (w\<lparr>ready_state := CLOSING\<rparr>) =
      Inl (ThrowStr ''jSocket is not connected, use the onConnect event '')"
    using on_socket_call_refused[of "w\<lparr>ready_state := CLOSING\<rparr>" so] assms by (simp add: flush_def)
  then show ?thesis by (simp add: ws_close_def Let_def ondata_closing)
qed

theorem ws_close_unconnected_witness:
  "\<exists>w'. ws_close (demo_ws False) = (w', Some (ThrowStr ''jSocket is not connected, use the onConnect event '')) \<and>
     ready_state w' = CLOSING"
proof -
  have "get_socket (ws_sid (demo_ws False)) (js (demo_ws False)) =
      Some \<lparr>handlers = [], connected = False, target = None, movie = True\<rparr>" by code_simp
  moreover have "\<not> (connected \<lparr>handlers = [], connected = False, target = None, movie = True\<rparr> \<and>
      movie \<lparr>handlers = [], connected = False, target = None, movie = True\<rparr>)" by simp
  ultimately show ?thesis using ws_close_unconnected[of "demo_ws False"] by blast
qed

lemma never_installed: "''false'' \<notin> set window_props \<Longrightarrow> \<not> install_WebSocket window_props"
  by (simp add: install_WebSocket_def)

end
