(* ===== verification/Dom.thy ===== *)
theory Dom
  imports Js_Value
begin

text \<open>
  The document as the browser scripts see it: a tree of nodes. An element carries its identity (what
  a reference to it is), its node name, its attributes (a property such as \<open>style.visibility\<close> is
  kept under that name) and its children. The operations are those of the DOM the scripts call;
  they follow a reference by identity.
\<close>

datatype node =
    Elem nat string "string props" "node list"
  | TextN string
  | CommentN string

fun is_elem :: "node \<Rightarrow> bool" where
  "is_elem (Elem i n a cs) = True"
| "is_elem t = False"

fun node_ref :: "node \<Rightarrow> nat" where
  "node_ref (Elem i n a cs) = i"
| "node_ref t = 0"

fun node_name :: "node \<Rightarrow> string" where
  "node_name (Elem i n a cs) = n"
| "node_name (TextN t) = ''#text''"
| "node_name (CommentN t) = ''#comment''"

fun node_type :: "node \<Rightarrow> int" where
  "node_type (Elem i n a cs) = 1"
| "node_type (TextN t) = 3"
| "node_type (CommentN t) = 8"

fun attrs :: "node \<Rightarrow> string props" where
  "attrs (Elem i n a cs) = a"
| "attrs t = []"

fun children :: "node \<Rightarrow> node list" where
  "children (Elem i n a cs) = cs"
| "children t = []"

definition get_attr :: "string \<Rightarrow> node \<Rightarrow> string option" where
  "get_attr k t = lookup_prop (attrs t) k"

fun set_attr :: "string \<Rightarrow> string \<Rightarrow> node \<Rightarrow> node" where
  "set_attr k v (Elem i n a cs) = Elem i n (put_prop k v a) cs"
| "set_attr k v t = t"

fun append_node :: "node \<Rightarrow> node \<Rightarrow> node" where
  "append_node c (Elem i n a cs) = Elem i n a (cs @ [c])"
| "append_node c t = t"

text \<open>All elements of a list of trees, in document order.\<close>

fun elems :: "node \<Rightarrow> node list" where
  "elems (Elem i n a cs) = Elem i n a cs # concat (map elems cs)"
| "elems t = []"

definition all_elems :: "node list \<Rightarrow> node list" where
  "all_elems ts = concat (map elems ts)"

definition refs :: "node list \<Rightarrow> nat list" where
  "refs ts = map node_ref (all_elems ts)"

definition by_id :: "string \<Rightarrow> node list \<Rightarrow> node option" where
  "by_id i ts = List.find (\<lambda>t. get_attr ''id'' t = Some i) (all_elems ts)"

definition by_tag :: "string \<Rightarrow> node list \<Rightarrow> node list" where
  "by_tag n ts = filter (\<lambda>t. node_name t = n) (all_elems ts)"

text \<open>The trees that stand in the place of the element \<open>i\<close>.\<close>

fun upd :: "nat \<Rightarrow> (node \<Rightarrow> node list) \<Rightarrow> node \<Rightarrow> node list" where
  "upd i f (Elem j n a cs) = (if i = j then f (Elem j n a cs) else [Elem j n a (concat (map (upd i f) cs))])"
| "upd i f t = [t]"

definition upd_all :: "nat \<Rightarrow> (node \<Rightarrow> node list) \<Rightarrow> node list \<Rightarrow> node list" where
  "upd_all i f ts = concat (map (upd i f) ts)"

definition change_elem :: "nat \<Rightarrow> (node \<Rightarrow> node) \<Rightarrow> node list \<Rightarrow> node list" where
  "change_elem i f = upd_all i (\<lambda>t. [f t])"

definition replace_child :: "node \<Rightarrow> nat \<Rightarrow> node list \<Rightarrow> node list" where
  "replace_child new old = upd_all old (\<lambda>t. [new])"

definition remove_child :: "nat \<Rightarrow> node list \<Rightarrow> node list" where
  "remove_child old = upd_all old (\<lambda>t. [])"

definition insert_before :: "node \<Rightarrow> nat \<Rightarrow> node list \<Rightarrow> node list" where
  "insert_before new old = upd_all old (\<lambda>t. [new, t])"

text \<open>\<open>cloneNode(true)\<close> gives the copies new identities, from \<open>n\<close> on.\<close>

fun clone_node :: "node \<Rightarrow> nat \<Rightarrow> node \<times> nat"
and clone_nodes :: "node list \<Rightarrow> nat \<Rightarrow> node list \<times> nat" where
  "clone_node (Elem i nm a cs) n = (let (cs', n') = clone_nodes cs (Suc n) in (Elem n nm a cs', n'))"
| "clone_node t n = (t, n)"
| "clone_nodes [] n = ([], n)"
| "clone_nodes (t # ts) n = (let (t', n1) = clone_node t n; (ts', n2) = clone_nodes ts n1 in (t' # ts', n2))"

subsection \<open>Laws\<close>

lemma refs_simps [simp]:
  "refs [] = []" "refs (ts @ us) = refs ts @ refs us" "refs (TextN x # ts) = refs ts" "refs (CommentN x # ts) = refs ts"
  "refs (Elem i n a cs # ts) = i # refs cs @ refs ts"
  by (simp_all add: refs_def all_elems_def)

lemma upd_all_simps [simp]:
  "upd_all i f [] = []" "upd_all i f (ts @ us) = upd_all i f ts @ upd_all i f us"
  "upd_all i f (TextN x # ts) = TextN x # upd_all i f ts" "upd_all i f (CommentN x # ts) = CommentN x # upd_all i f ts"
  "upd_all i f (Elem j n a cs # ts) =
     (if i = j then f (Elem j n a cs) else [Elem j n a (upd_all i f cs)]) @ upd_all i f ts"
  by (simp_all add: upd_all_def)

text \<open>Induction over a list of trees.\<close>

lemma forest_induct [case_names Nil Elem TextN CommentN]:
  assumes "P []" and "\<And>i n a cs ts. P cs \<Longrightarrow> P ts \<Longrightarrow> P (Elem i n a cs # ts)"
    and "\<And>x ts. P ts \<Longrightarrow> P (TextN x # ts)" and "\<And>x ts. P ts \<Longrightarrow> P (CommentN x # ts)"
  shows "P ts"
proof (induction "size_list size ts" arbitrary: ts rule: less_induct)
  case less
  show ?case
  proof (cases ts)
    case (Cons t us)
    then have us: "P us" using less by simp
    show ?thesis
    proof (cases t)
      case (Elem i n a cs)
      then have "P cs" using less Cons by simp
      then show ?thesis using us Elem Cons assms(2) by simp
    qed (use us Cons assms in auto)
  qed (use assms(1) in simp)
qed

lemma upd_all_absent: "i \<notin> set (refs ts) \<Longrightarrow> upd_all i f ts = ts"
  by (induction ts rule: forest_induct) auto

lemma all_elems_simps [simp]:
  "all_elems [] = []" "all_elems (ts @ us) = all_elems ts @ all_elems us"
  "all_elems (TextN x # ts) = all_elems ts" "all_elems (CommentN x # ts) = all_elems ts"
  "all_elems (Elem i n a cs # ts) = Elem i n a cs # all_elems cs @ all_elems ts"
  by (simp_all add: all_elems_def)

lemma refs_all_elems: "t \<in> set (all_elems ts) \<Longrightarrow> node_ref t \<in> set (refs ts)"
  by (simp add: refs_def)

text \<open>Putting a tree in the place of an element and then the element in the place of that tree restores the document.\<close>

lemma replace_back:
  assumes "distinct (refs ts)" and "t \<in> set (all_elems ts)" and "node_ref t = i"
    and "node_ref new = j" and "is_elem new" and "j \<notin> set (refs ts)"
  shows "replace_child t j (replace_child new i ts) = ts"
  using assms
proof (induction ts rule: forest_induct)
  case (Elem k n a cs ts)
  obtain n' a' cs' where new: "new = Elem j n' a' cs'" using Elem.prems by (cases new) auto
  show ?case
  proof (cases "i = k")
    case True
    have "t = Elem k n a cs" using Elem.prems True by (auto dest: refs_all_elems)
    then show ?thesis using True Elem.prems new
      by (auto simp: replace_child_def upd_all_absent)
  next
    case False
    then consider "t \<in> set (all_elems cs)" "t \<notin> set (all_elems ts)" | "t \<in> set (all_elems ts)" "t \<notin> set (all_elems cs)"
      using Elem.prems by (auto dest: refs_all_elems)
    then show ?thesis
    proof cases
      case 1
      then have "i \<notin> set (refs ts)" using Elem.prems by (auto dest: refs_all_elems)
      then show ?thesis using Elem 1 False by (auto simp: replace_child_def upd_all_absent)
    next
      case 2
      then have "i \<notin> set (refs cs)" using Elem.prems by (auto dest: refs_all_elems)
      then show ?thesis using Elem 2 False by (auto simp: replace_child_def upd_all_absent)
    qed
  qed
qed (auto simp: replace_child_def)

lemma find_append: "List.find P (xs @ ys) = (case List.find P xs of None \<Rightarrow> List.find P ys | Some x \<Rightarrow> Some x)"
  by (induction xs) auto

lemma by_id_simps [simp]:
  "by_id x [] = None" "by_id x (TextN c # ts) = by_id x ts" "by_id x (CommentN c # ts) = by_id x ts"
  "by_id x (Elem i n a cs # ts) =
     (if lookup_prop a ''id'' = Some x then Some (Elem i n a cs)
      else case by_id x cs of Some t \<Rightarrow> Some t | None \<Rightarrow> by_id x ts)"
  by (simp_all add: by_id_def find_append get_attr_def split: option.split)

lemma by_id_Some:
  assumes "by_id x ts = Some t" shows "t \<in> set (all_elems ts)" "get_attr ''id'' t = Some x"
  using assms unfolding by_id_def by (auto simp: find_Some_iff)

lemma all_elems_is_elem: "t \<in> set (all_elems ts) \<Longrightarrow> is_elem t"
  by (induction ts rule: forest_induct) auto

lemma by_id_replace:
  assumes "by_id x ts = None" and "r \<in> set (refs ts)" and "is_elem new" and "get_attr ''id'' new = Some x"
  shows "by_id x (replace_child new r ts) = Some new"
  using assms(1,2)
proof (induction ts rule: forest_induct)
  case (Elem i n a cs ts)
  obtain j m b ds where new: "new = Elem j m b ds" using assms(3) by (cases new) auto
  have "lookup_prop b ''id'' = Some x" using assms(4) new by (simp add: get_attr_def)
  moreover have "by_id x cs = None" "by_id x ts = None" "lookup_prop a ''id'' \<noteq> Some x"
    using Elem.prems(1) by (auto split: if_splits option.splits)
  moreover have "replace_child new r ts = ts" if "r \<notin> set (refs ts)" using that by (simp add: replace_child_def upd_all_absent)
  moreover have "replace_child new r cs = cs" if "r \<notin> set (refs cs)" using that by (simp add: replace_child_def upd_all_absent)
  ultimately show ?case
    using Elem new by (cases "r \<in> set (refs cs)") (auto simp: replace_child_def)
qed (auto simp: replace_child_def)

lemma by_id_replace_same:
  assumes "by_id x ts = Some el" and "distinct (refs ts)" and "is_elem new" and "get_attr ''id'' new = Some x"
  shows "by_id x (replace_child new (node_ref el) ts) = Some new"
  using assms(1,2)
proof (induction ts rule: forest_induct)
  case (Elem i n a cs ts)
  obtain j m b ds where new: "new = Elem j m b ds" using assms(3) by (cases new) auto
  have b: "lookup_prop b ''id'' = Some x" using assms(4) new by (simp add: get_attr_def)
  consider (here) "lookup_prop a ''id'' = Some x" "el = Elem i n a cs"
    | (inside) "lookup_prop a ''id'' \<noteq> Some x" "by_id x cs = Some el"
    | (later) "lookup_prop a ''id'' \<noteq> Some x" "by_id x cs = None" "by_id x ts = Some el"
    using Elem.prems(1) by (auto split: if_splits option.splits)
  then show ?case
  proof cases
    case here
    then show ?thesis using new b by (simp add: replace_child_def)
  next
    case inside
    then have "node_ref el \<in> set (refs cs)" using by_id_Some(1) refs_all_elems by blast
    then show ?thesis using inside Elem by (auto simp: replace_child_def)
  next
    case later
    then have "node_ref el \<in> set (refs ts)" using by_id_Some(1) refs_all_elems by blast
    then have "node_ref el \<noteq> i" "node_ref el \<notin> set (refs cs)" using Elem.prems(2) by auto
    then show ?thesis using later Elem by (auto simp: replace_child_def upd_all_absent)
  qed
qed (auto simp: replace_child_def)

text \<open>Setting another attribute of an element changes neither which element has an id nor its name.\<close>

lemma by_id_change:
  assumes "k \<noteq> ''id''"
  shows "map_option node_name (by_id x (change_elem r (set_attr k v) ts)) = map_option node_name (by_id x ts)"
proof (induction ts rule: forest_induct)
  case (Elem i n a cs ts)
  have "lookup_prop (put_prop k v a) ''id'' = lookup_prop a ''id''" using assms by (simp add: lookup_put_prop)
  then show ?case
    using Elem by (auto simp: change_elem_def split: option.split)
qed (simp_all add: change_elem_def)

lemma refs_change: "refs (change_elem r (set_attr k v) ts) = refs ts"
  by (induction ts rule: forest_induct) (auto simp: change_elem_def)

end
