(* ===== verification/Js_Strings.thy ===== *)
theory Js_Strings
  imports Js_Value Js_Regex
begin

text \<open>
  String methods of the language the browser scripts use: case conversion of ASCII letters,
  \<open>substring\<close> and \<open>slice\<close>, \<open>parseInt\<close> and \<open>parseFloat\<close>, and \<open>replace\<close> with a pattern.
\<close>

definition to_lower_char :: "char \<Rightarrow> char" where
  "to_lower_char c = (if 65 \<le> (of_char c :: int) \<and> (of_char c :: int) \<le> 90 then char_of (of_char c + 32 :: int) else c)"

definition to_upper_char :: "char \<Rightarrow> char" where
  "to_upper_char c = (if 97 \<le> (of_char c :: int) \<and> (of_char c :: int) \<le> 122 then char_of (of_char c - 32 :: int) else c)"

definition to_lower :: "string \<Rightarrow> string" where
  "to_lower s = map to_lower_char s"

definition to_upper :: "string \<Rightarrow> string" where
  "to_upper s = map to_upper_char s"

text \<open>\<open>s.substring(a, b)\<close> for integer arguments.\<close>

definition substring :: "string \<Rightarrow> int \<Rightarrow> int \<Rightarrow> string" where
  "substring s a b =
     (let n = int (length s); a' = max 0 (min a n); b' = max 0 (min b n); lo = min a' b'; hi = max a' b'
      in take (nat (hi - lo)) (drop (nat lo) s))"

definition parse_int :: "string \<Rightarrow> jsnum" where
  "parse_int s0 =
     (let s = dropWhile is_space s0;
          neg = (s \<noteq> [] \<and> hd s = CHR ''-'');
          t = (if s \<noteq> [] \<and> (hd s = CHR ''-'' \<or> hd s = CHR ''+'') then tl s else s);
          ds = takeWhile is_digit t;
          v = to_double (of_int (digits_to_int ds))
      in if ds = [] then NaN else if neg then num_neg v else v)"

text \<open>\<open>parseFloat\<close>: the longest prefix that is a decimal literal.\<close>

definition parse_float :: "string \<Rightarrow> jsnum" where
  "parse_float s0 =
     (let s = dropWhile is_space s0;
          neg = (s \<noteq> [] \<and> hd s = CHR ''-'');
          t = (if s \<noteq> [] \<and> (hd s = CHR ''-'' \<or> hd s = CHR ''+'') then tl s else s);
          (ip, r) = scan_digits t;
          (fp, r') = (case r of c # u \<Rightarrow> if c = CHR ''.'' then scan_digits u else ([], r) | [] \<Rightarrow> ([], r));
          e = (case scan_exp r' of Some (e, _) \<Rightarrow> e | None \<Rightarrow> 0);
          v = (if prefix ''Infinity'' t then Infin False
               else if ip = [] \<and> fp = [] then NaN else to_double (dec_value ip fp e))
      in if neg then num_neg v else v)"

text \<open>\<open>r.test(s)\<close>, and \<open>s.replace(r, f)\<close> without and with the global flag.\<close>

definition re_test :: "re \<Rightarrow> string \<Rightarrow> bool" where
  "re_test r s \<longleftrightarrow> exec r s \<noteq> None"

definition replace_re :: "re \<Rightarrow> (caps \<Rightarrow> string) \<Rightarrow> string \<Rightarrow> string" where
  "replace_re r f s =
     (case exec_from s r s of
        None \<Rightarrow> s
      | Some (from_here, s', m) \<Rightarrow> take (length s - length from_here) s @ f m @ s')"

definition replace_re_all :: "re \<Rightarrow> (caps \<Rightarrow> string) \<Rightarrow> string \<Rightarrow> string" where
  "replace_re_all r f s =
     (let (ms, rest) = matches_fuel (2 * length s + 2) s r s
      in concat (map (\<lambda>(before, m). before @ f m) ms) @ rest)"

text \<open>\<open>$1\<close> in a replacement text: the text of the group, nothing if it took no part.\<close>

definition group_text :: "nat \<Rightarrow> caps \<Rightarrow> string" where
  "group_text n m = (case cap m n of None \<Rightarrow> [] | Some t \<Rightarrow> t)"

text \<open>\<open>.\<close>, \<open>\s\<close>, \<open>\S\<close> and the letters, as classes.\<close>

definition RDot :: re where
  "RDot = RClass True [CHR 0x0A, CHR 0x0D]"

definition space_chars :: string where
  "space_chars = [CHR '' '', CHR 0x09, CHR 0x0A, CHR 0x0B, CHR 0x0C, CHR 0x0D]"

definition letters :: string where
  "letters = ''abcdefghijklmnopqrstuvwxyzABCDEFGHIJKLMNOPQRSTUVWXYZ''"

fun RText :: "string \<Rightarrow> re" where
  "RText [] = REps"
| "RText (c # cs) = RSeq (RChr c) (RText cs)"

lemma parse_int_digits:
  assumes "list_all is_digit ds" and "ds \<noteq> []" and "rest = [] \<or> \<not> is_digit (hd rest)"
  shows "parse_int (ds @ rest) = to_double (of_int (digits_to_int ds))"
proof -
  obtain c cs where ds: "ds = c # cs" using assms(2) by (cases ds) auto
  have c: "is_digit c" using assms(1) ds by simp
  have sp: "\<not> is_space c" "c \<noteq> CHR ''-''" "c \<noteq> CHR ''+''"
    using c by (auto simp: is_digit_def is_space_def)
  have "takeWhile is_digit (ds @ rest) = ds"
    using assms by (intro takeWhile_append_stop) (auto simp: list_all_iff)
  then show ?thesis using sp unfolding parse_int_def ds by (simp add: Let_def)
qed

end
