(* ===== verification/Swfobject.thy ===== *)
theory Swfobject
  imports Dom Js_Strings
begin

text \<open>
  \<open>swfobject/swfobject.js\<close> of the white board: detection of the Flash player, embedding and removal
  of movies, the express installer and the hidden style rules.

  The variables of the closure and the document are the record \<open>sw\<close>. A callback of the page is
  named; calling it is logged. What the browser does with HTML text, whether an element answers to
  \<open>SetVariable\<close> and whether an object is still loading are outside, in the record \<open>sw_env\<close>.
  Attribute and parameter objects have string values; for those the tests against
  \<open>Object.prototype\<close> exclude nothing.
\<close>

record ua_info =
  w3 :: bool
  pv :: "jsnum list"
  wk :: "jsnum option"
  ie :: bool
  win :: bool
  mac :: bool

text \<open>What the detection reads of the browser.\<close>

record navigator_info =
  nav_w3 :: bool
  userAgent :: string
  platform :: string
  old_escape :: bool                  \<comment> \<open>the browser reads \<open>\v\<close> in a string as \<open>v\<close>\<close>
  flash_plugin :: "string option"     \<comment> \<open>description of the plug-in\<close>
  flash_disabled :: bool              \<comment> \<open>its MIME type is known without an enabled plug-in\<close>
  active_x :: "string option option"  \<comment> \<open>\<open>ActiveXObject\<close> exists; the version it gives\<close>

definition part_int :: "string list \<Rightarrow> nat \<Rightarrow> jsnum" where
  "part_int xs i = (if i < length xs then parse_int (xs ! i) else NaN)"

text \<open>\<open>d.split(" ")[1].split(",")\<close> and the three numbers.\<close>

definition version_numbers :: "string \<Rightarrow> jsnum list result" where
  "version_numbers d =
     (case split_on CHR '' '' d of
        _ # v # _ \<Rightarrow> (let xs = split_on CHR '','' v in Inr [part_int xs 0, part_int xs 1, part_int xs 2])
      | _ \<Rightarrow> Inl TypeError)"

text \<open>The patterns applied to the description of the plug-in.\<close>

definition re_last_two :: re where
  "re_last_two = RSeqs [RBol, RStar RDot, RPlus (RClass False space_chars),
     RGroup 1 (RSeqs [RPlus (RClass True space_chars), RPlus (RClass False space_chars), RPlus (RClass True space_chars), REol])]"

definition re_major :: re where
  "re_major = RSeqs [RBol, RGroup 1 (RStar RDot), RChr CHR ''.'', RStar RDot, REol]"

definition re_minor :: re where
  "re_minor = RSeqs [RBol, RStar RDot, RChr CHR ''.'', RGroup 1 (RStar RDot), RClass False space_chars, RStar RDot, REol]"

definition re_release :: re where
  "re_release = RSeqs [RBol, RStar RDot, RPlus (RClass False letters), RGroup 1 (RStar RDot), REol]"

definition re_webkit :: re where
  "re_webkit = RSeqs [RBol, RStar RDot, RText ''webkit/'',
     RGroup 1 (RSeq (RPlus RDigit) (ROpt (RGroup 2 (RSeq (RChr CHR ''.'') (RPlus RDigit))))), RStar RDot, REol]"

definition plugin_version :: "string \<Rightarrow> jsnum list" where
  "plugin_version descr =
     (let d = replace_re re_last_two (group_text 1) descr
      in [parse_int (replace_re re_major (group_text 1) d),
          parse_int (replace_re re_minor (group_text 1) d),
          (if re_test (RClass False letters) d then parse_int (replace_re re_release (group_text 1) d) else Fin 0)])"

definition detect_ua :: "navigator_info \<Rightarrow> bool \<times> ua_info" where
  "detect_ua nav =
     (let u = to_lower (userAgent nav);
          p = to_lower (platform nav);
          windows = re_test (RText ''win'') (if p \<noteq> [] then p else u);
          macos = re_test (RText ''mac'') (if p \<noteq> [] then p else u);
          webkit = (if re_test (RText ''webkit'') u then Some (parse_float (replace_re re_webkit (group_text 1) u)) else None);
          base = \<lparr>w3 = nav_w3 nav, pv = [Fin 0, Fin 0, Fin 0], wk = webkit, ie = old_escape nav, win = windows, mac = macos\<rparr>
      in case flash_plugin nav of
           Some d \<Rightarrow>
             if d \<noteq> [] \<and> \<not> flash_disabled nav then (True, base\<lparr>ie := False, pv := plugin_version d\<rparr>) else (False, base)
         | None \<Rightarrow>
             (case active_x nav of
                Some (Some d) \<Rightarrow>
                  if d = [] then (False, base)
                  else (case version_numbers d of
                          Inr v \<Rightarrow> (False, base\<lparr>ie := True, pv := v\<rparr>)
                        | Inl _ \<Rightarrow> (False, base\<lparr>ie := True\<rparr>))
              | _ \<Rightarrow> (False, base)))"

definition old_webkit :: "ua_info \<Rightarrow> bool" where
  "old_webkit u = (case wk u of None \<Rightarrow> False | Some n \<Rightarrow> truthy (NumV n) \<and> num_less n (num_of_int 312))"

definition or_zero :: "jsnum \<Rightarrow> jsnum" where
  "or_zero n = (if n = NaN then Fin 0 else n)"

definition hasPlayerVersion :: "ua_info \<Rightarrow> string \<Rightarrow> bool" where
  "hasPlayerVersion u rv =
     (let v = split_on CHR ''.'' rv;
          v0 = part_int v 0; v1 = or_zero (part_int v 1); v2 = or_zero (part_int v 2);
          p0 = pv u ! 0; p1 = pv u ! 1; p2 = pv u ! 2
      in num_less v0 p0 \<or> (num_eq p0 v0 \<and> num_less v1 p1) \<or>
         (num_eq p0 v0 \<and> num_eq p1 v1 \<and> (num_less v2 p2 \<or> num_eq p2 v2)))"

subsection \<open>State\<close>

record reg_obj =
  reg_id :: string
  swfVersion :: string
  expressInstall :: string
  callbackFn :: "string option"

record embed_args =
  e_url :: string
  e_id :: string
  e_width :: string
  e_height :: string
  e_version :: string
  e_xi :: string
  e_flashvars :: "string props"
  e_par :: "string props"
  e_att :: "string props"
  e_callback :: "string option"

datatype load_fn = MainFn | EmbedFn embed_args | PageFn string

record callback_call =
  cb_fn :: string
  cb_success :: bool
  cb_id :: string
  cb_ref :: bool

datatype wait = WaitRemove nat | WaitRemoveIE nat string | WaitVersion nat nat

record sw =
  ua :: ua_info
  plugin :: bool
  body :: "node list"
  fresh :: nat
  head :: bool
  sheets :: "(string \<times> string list) list"   \<comment> \<open>media and rules of the style elements made\<close>
  dynamicStylesheet :: "nat option"
  dynamicStylesheetMedia :: string
  title :: string
  location :: string
  regObjArr :: "reg_obj list"
  objIdArr :: "string list"
  storedAltContent :: "node option"
  storedAltContentId :: "string option"
  storedCallbackFn :: "string option"
  storedCallbackId :: string
  isDomLoaded :: bool
  isExpressInstallActive :: bool
  autoHideShow :: bool
  domLoadFnArr :: "load_fn list"
  cb_log :: "callback_call list"
  page_calls :: "string list"
  waits :: "wait list"

record sw_env =
  parse_html :: "string \<Rightarrow> nat \<Rightarrow> node list \<times> nat"
  html_of :: "node list \<Rightarrow> string"
  scriptable :: "node \<Rightarrow> bool"       \<comment> \<open>has \<open>SetVariable\<close>\<close>
  loading :: "nat \<Rightarrow> bool"           \<comment> \<open>\<open>readyState != 4\<close>\<close>
  add_rule :: bool                    \<comment> \<open>\<open>typeof sheet.addRule == "object"\<close>\<close>

definition ie_win :: "sw \<Rightarrow> bool" where
  "ie_win s \<longleftrightarrow> ie (ua s) \<and> win (ua s)"

definition call_back :: "string option \<Rightarrow> bool \<Rightarrow> string \<Rightarrow> bool \<Rightarrow> sw \<Rightarrow> sw" where
  "call_back cb ok i ref s =
     (case cb of None \<Rightarrow> s
      | Some f \<Rightarrow> s\<lparr>cb_log := cb_log s @ [\<lparr>cb_fn = f, cb_success = ok, cb_id = i, cb_ref = ref\<rparr>]\<rparr>)"

definition change_body :: "(node list \<Rightarrow> node list) \<Rightarrow> sw \<Rightarrow> sw" where
  "change_body f s = s\<lparr>body := f (body s)\<rparr>"

definition createElement :: "string \<Rightarrow> sw \<Rightarrow> node \<times> sw" where
  "createElement nm s = (Elem (fresh s) nm [] [], s\<lparr>fresh := Suc (fresh s)\<rparr>)"

definition getElementById :: "string \<Rightarrow> sw \<Rightarrow> node option" where
  "getElementById i s = by_id i (body s)"

subsection \<open>Style rules and visibility\<close>

definition createCSS :: "sw_env \<Rightarrow> string \<Rightarrow> string \<Rightarrow> string \<Rightarrow> bool \<Rightarrow> sw \<Rightarrow> sw" where
  "createCSS en sel decl media newStyle s =
     (if ie (ua s) \<and> mac (ua s) then s
      else if \<not> head s then s
      else
        let m = (if media \<noteq> [] then media else ''screen'');
            s1 = (if newStyle then s\<lparr>dynamicStylesheet := None, dynamicStylesheetMedia := []\<rparr> else s);
            s2 = (if dynamicStylesheet s1 = None \<or> dynamicStylesheetMedia s1 \<noteq> m
                  then s1\<lparr>sheets := sheets s1 @ [(m, [])], dynamicStylesheet := Some (length (sheets s1)),
                          dynamicStylesheetMedia := m\<rparr>
                  else s1)
        in case dynamicStylesheet s2 of
             None \<Rightarrow> s2
           | Some k \<Rightarrow>
               if ie_win s \<and> \<not> add_rule en then s2
               else s2\<lparr>sheets := (sheets s2)[k := (fst (sheets s2 ! k), snd (sheets s2 ! k) @ [sel @ '' {'' @ decl @ ''}''])]\<rparr>)"

definition setVisibility :: "sw_env \<Rightarrow> string \<Rightarrow> bool \<Rightarrow> sw \<Rightarrow> sw" where
  "setVisibility en i isVisible s =
     (if \<not> autoHideShow s then s
      else let v = (if isVisible then ''visible'' else ''hidden'')
           in case getElementById i s of
                Some t \<Rightarrow>
                  if isDomLoaded s then change_body (change_elem (node_ref t) (set_attr ''style.visibility'' v)) s
                  else createCSS en (CHR ''#'' # i) (''visibility:'' @ v) [] False s
              | None \<Rightarrow> createCSS en (CHR ''#'' # i) (''visibility:'' @ v) [] False s)"

subsection \<open>Alternative content\<close>

text \<open>\<open>getElementsByTagName("object")[0]\<close> of an element: its descendants only.\<close>

definition first_object :: "node \<Rightarrow> node option" where
  "first_object t = (case by_tag ''OBJECT'' (children t) of [] \<Rightarrow> None | o' # _ \<Rightarrow> Some o')"

definition getObjectById :: "sw_env \<Rightarrow> string \<Rightarrow> sw \<Rightarrow> node option" where
  "getObjectById en i s =
     (case getElementById i s of
        None \<Rightarrow> None
      | Some t \<Rightarrow> if node_name t = ''OBJECT'' then (if scriptable en t then Some t else first_object t) else None)"

definition is_content :: "node \<Rightarrow> bool" where
  "is_content t \<longleftrightarrow> \<not> (node_type t = 1 \<and> node_name t = ''PARAM'') \<and> node_type t \<noteq> 8"

definition abstractAltContent :: "sw_env \<Rightarrow> node \<Rightarrow> sw \<Rightarrow> node \<times> sw" where
  "abstractAltContent en obj s =
     (let (ac, s1) = createElement ''DIV'' s
      in if ie_win s
         then (let (cs, n) = parse_html en (html_of en (children obj)) (fresh s1)
               in (Elem (node_ref ac) ''DIV'' [] cs, s1\<lparr>fresh := n\<rparr>))
         else (case first_object obj of
                 None \<Rightarrow> (ac, s1)
               | Some nested \<Rightarrow>
                   (let (cs, n) = clone_nodes (filter is_content (children nested)) (fresh s1)
                    in (Elem (node_ref ac) ''DIV'' [] cs, s1\<lparr>fresh := n\<rparr>))))"

text \<open>Hide an object that may still be loading and remove it when it is loaded.\<close>

definition remove_when_ready :: "sw_env \<Rightarrow> nat \<Rightarrow> sw \<Rightarrow> sw" where
  "remove_when_ready en r s =
     (if loading en r then s\<lparr>waits := waits s @ [WaitRemove r]\<rparr> else change_body (remove_child r) s)"

definition hide :: "nat \<Rightarrow> sw \<Rightarrow> sw" where
  "hide r s = change_body (change_elem r (set_attr ''style.display'' ''none'')) s"

definition displayAltContent :: "sw_env \<Rightarrow> node \<Rightarrow> sw \<Rightarrow> sw" where
  "displayAltContent en obj s =
     (let r = node_ref obj
      in if ie_win s \<and> loading en r
         then (let (el, s1) = createElement ''DIV'' s;
                   s2 = change_body (insert_before el r) s1;
                   (ac, s3) = abstractAltContent en obj s2;
                   s4 = change_body (replace_child ac (node_ref el)) s3
               in remove_when_ready en r (hide r s4))
         else (let (ac, s1) = abstractAltContent en obj s in change_body (replace_child ac r) s1))"

subsection \<open>Creating and removing movies\<close>

definition FLASH_MIME_TYPE :: string where
  "FLASH_MIME_TYPE = ''application/x-shockwave-flash''"

definition quoted :: "string \<Rightarrow> string" where
  "quoted v = [CHR 0x22] @ v @ [CHR 0x22]"

definition html_attr :: "string \<times> string \<Rightarrow> string" where
  "html_attr kv =
     (let k = to_lower (fst kv)
      in if k = ''data'' then []
         else if k = ''styleclass'' then '' class='' @ quoted (snd kv)
         else if k \<noteq> ''classid'' then '' '' @ fst kv @ ''='' @ quoted (snd kv) else [])"

definition movie_param :: "string \<times> string \<Rightarrow> string props \<Rightarrow> string props" where
  "movie_param kv par = (if to_lower (fst kv) = ''data'' then put_prop ''movie'' (snd kv) par else par)"

definition html_param :: "string \<times> string \<Rightarrow> string" where
  "html_param kv = ''<param name='' @ quoted (fst kv) @ '' value='' @ quoted (snd kv) @ '' />''"

definition object_html :: "string props \<Rightarrow> string props \<Rightarrow> string" where
  "object_html att par =
     ''<object classid='' @ quoted ''clsid:D27CDB6E-AE6D-11cf-96B8-444553540000'' @ concat (map html_attr att) @ ''>''
     @ concat (map html_param (fold movie_param att par)) @ ''</object>''"

definition object_attr :: "string \<times> string \<Rightarrow> node \<Rightarrow> node" where
  "object_attr kv o' =
     (let k = to_lower (fst kv)
      in if k = ''styleclass'' then set_attr ''class'' (snd kv) o'
         else if k \<noteq> ''classid'' then set_attr k (snd kv) o' else o')"

definition createObjParam :: "string \<times> string \<Rightarrow> node \<times> sw \<Rightarrow> node \<times> sw" where
  "createObjParam kv os =
     (let (p, s1) = createElement ''PARAM'' (snd os)
      in (append_node (set_attr ''value'' (snd kv) (set_attr ''name'' (fst kv) p)) (fst os), s1))"

text \<open>
  The result is the new object, the attribute object after the call (which gets an \<open>id\<close>) and the state.
\<close>

definition createSWF :: "sw_env \<Rightarrow> string props \<Rightarrow> string props \<Rightarrow> string \<Rightarrow> sw \<Rightarrow> node option \<times> string props \<times> sw" where
  "createSWF en att par i s =
     (if old_webkit (ua s) then (None, att, s)
      else case getElementById i s of
        None \<Rightarrow> (None, att, s)
      | Some el \<Rightarrow>
          let att1 = (if lookup_prop att ''id'' = None then put_prop ''id'' i att else att);
              new_id = the (lookup_prop att1 ''id'')
          in if ie_win s
             then (let (ts, n) = parse_html en (object_html att1 par) (fresh s);
                       s1 = (change_body (upd_all (node_ref el) (\<lambda>_. ts)) s)\<lparr>fresh := n, objIdArr := objIdArr s @ [new_id]\<rparr>
                   in (getElementById new_id s1, att1, s1))
             else (let (o0, s1) = createElement ''OBJECT'' s;
                       o1 = fold object_attr att1 (set_attr ''type'' FLASH_MIME_TYPE o0);
                       (o2, s2) = fold createObjParam (filter (\<lambda>kv. to_lower (fst kv) \<noteq> ''movie'') par) (o1, s1)
                   in (Some o2, att1, change_body (replace_child o2 (node_ref el)) s2)))"

definition removeObjectInIE :: "string \<Rightarrow> sw \<Rightarrow> sw" where
  "removeObjectInIE i s =
     (case getElementById i s of None \<Rightarrow> s | Some t \<Rightarrow> change_body (remove_child (node_ref t)) s)"

definition removeSWF :: "sw_env \<Rightarrow> string \<Rightarrow> sw \<Rightarrow> sw" where
  "removeSWF en i s =
     (case getElementById i s of
        None \<Rightarrow> s
      | Some t \<Rightarrow>
          if node_name t \<noteq> ''OBJECT'' then s
          else if ie_win s
          then (let s1 = hide (node_ref t) s
                in if loading en (node_ref t) then s1\<lparr>waits := waits s1 @ [WaitRemoveIE (node_ref t) i]\<rparr> else removeObjectInIE i s1)
          else change_body (remove_child (node_ref t)) s)"

subsection \<open>Express install\<close>

definition EXPRESS_INSTALL_ID :: string where
  "EXPRESS_INSTALL_ID = ''SWFObjectExprInst''"

definition canExpressInstall :: "sw \<Rightarrow> bool" where
  "canExpressInstall s \<longleftrightarrow>
     \<not> isExpressInstallActive s \<and> hasPlayerVersion (ua s) ''6.0.65'' \<and> (win (ua s) \<or> mac (ua s)) \<and> \<not> old_webkit (ua s)"

text \<open>A dimension that is missing, or in pixels and too small, becomes \<open>least\<close>.\<close>

definition at_least :: "string \<Rightarrow> int \<Rightarrow> string props \<Rightarrow> string props" where
  "at_least k least att =
     (case lookup_prop att k of
        None \<Rightarrow> put_prop k (int_digits least) att
      | Some v \<Rightarrow>
          if \<not> (v \<noteq> [] \<and> last v = CHR ''%'') \<and> num_less (parse_int v) (num_of_int least)
          then put_prop k (int_digits least) att else att)"

definition escape_amp :: "string \<Rightarrow> string" where
  "escape_amp t = concat (map (\<lambda>c. if c = CHR ''&'' then ''%26'' else [c]) t)"

definition install_vars :: "sw \<Rightarrow> string" where
  "install_vars s =
     ''MMredirectURL='' @ escape_amp (location s) @ ''&MMplayerType='' @ (if ie_win s then ''ActiveX'' else ''PlugIn'')
     @ ''&MMdoctitle='' @ title s"

definition add_flashvars :: "string \<Rightarrow> string props \<Rightarrow> string props" where
  "add_flashvars fv par =
     (case lookup_prop par ''flashvars'' of
        Some v \<Rightarrow> put_prop ''flashvars'' (v @ ''&'' @ fv) par
      | None \<Rightarrow> put_prop ''flashvars'' fv par)"

definition showExpressInstall ::
  "sw_env \<Rightarrow> string props \<Rightarrow> string props \<Rightarrow> string \<Rightarrow> string option \<Rightarrow> sw \<Rightarrow> sw" where
  "showExpressInstall en att par i cb s0 =
     (let s = s0\<lparr>isExpressInstallActive := True, storedCallbackFn := cb, storedCallbackId := i\<rparr>
      in case getElementById i s of
        None \<Rightarrow> s
      | Some obj \<Rightarrow>
          let s1 = (if node_name obj = ''OBJECT''
                    then (let (ac, t) = abstractAltContent en obj s
                          in t\<lparr>storedAltContent := Some ac, storedAltContentId := None\<rparr>)
                    else s\<lparr>storedAltContent := Some obj, storedAltContentId := Some i\<rparr>);
              att1 = at_least ''height'' 137 (at_least ''width'' 310 (put_prop ''id'' EXPRESS_INSTALL_ID att));
              s2 = s1\<lparr>title := take 47 (title s1) @ '' - Flash Player Installation''\<rparr>;
              par1 = add_flashvars (install_vars s2) par;
              r = node_ref obj
          in if ie_win s2 \<and> loading en r
             then (let (n0, s3) = createElement ''DIV'' s2;
                       j = i @ ''SWFObjectNew'';
                       s4 = hide r (change_body (insert_before (set_attr ''id'' j n0) r) s3)
                   in snd (snd (createSWF en att1 par1 j (remove_when_ready en r s4))))
             else snd (snd (createSWF en att1 par1 i s2)))"

definition expressInstallCallback :: "sw_env \<Rightarrow> sw \<Rightarrow> sw" where
  "expressInstallCallback en s =
     (if \<not> isExpressInstallActive s then s
      else
        let s1 = (case (getElementById EXPRESS_INSTALL_ID s, storedAltContent s) of
                    (Some obj, Some ac) \<Rightarrow>
                      let s2 = change_body (replace_child ac (node_ref obj)) s;
                          s3 = (case storedAltContentId s of
                                  None \<Rightarrow> s2
                                | Some i \<Rightarrow>
                                    let s4 = setVisibility en i True s2
                                    in if ie_win s
                                       then change_body (change_elem (node_ref ac) (set_attr ''style.display'' ''block'')) s4
                                       else s4)
                      in call_back (storedCallbackFn s) False (storedCallbackId s) False s3
                  | _ \<Rightarrow> s)
        in s1\<lparr>isExpressInstallActive := False\<rparr>)"

subsection \<open>Matching registered objects\<close>

definition attr_or :: "string \<Rightarrow> string \<Rightarrow> node \<Rightarrow> string" where
  "attr_or k d t = (case get_attr k t of None \<Rightarrow> d | Some v \<Rightarrow> if v = [] then d else v)"

definition install_att :: "string \<Rightarrow> node \<Rightarrow> string props" where
  "install_att xi obj =
     (let a1 = put_prop ''height'' (attr_or ''height'' ''0'' obj) (put_prop ''width'' (attr_or ''width'' ''0'' obj) [(''data'', xi)]);
          a2 = (if attr_or ''class'' [] obj \<noteq> [] then put_prop ''styleclass'' (attr_or ''class'' [] obj) a1 else a1)
      in if attr_or ''align'' [] obj \<noteq> [] then put_prop ''align'' (attr_or ''align'' [] obj) a2 else a2)"

text \<open>
  The parameters of an object; a \<open>param\<close> without a name throws. One without a value is \<open>null\<close>,
  which \<open>createSWF\<close> leaves out and to which flash variables are appended as text.
\<close>

definition null_param :: "string \<Rightarrow> string props \<Rightarrow> string props" where
  "null_param k par = (if k = ''flashvars'' then put_prop k ''null'' par else filter (\<lambda>kv. fst kv \<noteq> k) par)"

fun install_par :: "node list \<Rightarrow> string props \<Rightarrow> string props result" where
  "install_par [] par = Inr par"
| "install_par (p # ps) par =
     (case get_attr ''name'' p of
        None \<Rightarrow> Inl TypeError
      | Some k \<Rightarrow>
          install_par ps
            (if to_lower k \<noteq> ''movie''
             then (case get_attr ''value'' p of None \<Rightarrow> null_param k par | Some v \<Rightarrow> put_prop k v par)
             else par))"

definition match_one :: "sw_env \<Rightarrow> reg_obj \<Rightarrow> sw \<Rightarrow> sw result" where
  "match_one en g s =
     (let i = reg_id g; cb = callbackFn g
      in if num_less (Fin 0) (pv (ua s) ! 0)
         then (case getElementById i s of
                 None \<Rightarrow> Inr s
               | Some obj \<Rightarrow>
                   if hasPlayerVersion (ua s) (swfVersion g) \<and> \<not> old_webkit (ua s)
                   then (let s1 = setVisibility en i True s
                         in Inr (call_back cb True i (getObjectById en i s1 \<noteq> None) s1))
                   else if expressInstall g \<noteq> [] \<and> canExpressInstall s
                   then rbind (install_par (by_tag ''PARAM'' (children obj)) [])
                          (\<lambda>par. Inr (showExpressInstall en (install_att (expressInstall g) obj) par i cb s))
                   else Inr (call_back cb False i False (displayAltContent en obj s)))
         else (let s1 = setVisibility en i True s;
                   ok = (case getObjectById en i s1 of None \<Rightarrow> False | Some o' \<Rightarrow> scriptable en o')
               in Inr (call_back cb ok i ok s1)))"

fun match_all :: "sw_env \<Rightarrow> reg_obj list \<Rightarrow> sw \<Rightarrow> sw result" where
  "match_all en [] s = Inr s"
| "match_all en (g # gs) s = rbind (match_one en g s) (match_all en gs)"

definition matchVersions :: "sw_env \<Rightarrow> sw \<Rightarrow> sw result" where
  "matchVersions en s = match_all en (regObjArr s) s"

subsection \<open>Starting up\<close>

text \<open>
  One attempt of the version test: \<open>answer\<close> is \<open>None\<close> while the probe object has no
  \<open>GetVariable\<close>, otherwise the version text it gives. The probe object is \<open>r\<close>.
\<close>

definition version_attempt :: "sw_env \<Rightarrow> nat \<Rightarrow> nat \<Rightarrow> string option \<Rightarrow> sw \<Rightarrow> sw result" where
  "version_attempt en r counter answer s =
     (case answer of
        None \<Rightarrow>
          if counter < 10 then Inr (s\<lparr>waits := waits s @ [WaitVersion r (Suc counter)]\<rparr>)
          else matchVersions en (change_body (remove_child r) s)
      | Some d \<Rightarrow>
          rbind (if d = [] then Inr (pv (ua s)) else version_numbers d) (\<lambda>v.
            matchVersions en (change_body (remove_child r) (s\<lparr>ua := (ua s)\<lparr>pv := v\<rparr>\<rparr>))))"

definition testPlayerVersion :: "sw_env \<Rightarrow> string option \<Rightarrow> sw \<Rightarrow> sw result" where
  "testPlayerVersion en answer s =
     (let (o0, s1) = createElement ''OBJECT'' s;
          o1 = set_attr ''type'' FLASH_MIME_TYPE o0
      in version_attempt en (node_ref o1) 0 answer (change_body (\<lambda>b. b @ [o1]) s1))"

definition main :: "sw_env \<Rightarrow> string option \<Rightarrow> sw \<Rightarrow> sw result" where
  "main en answer s = (if plugin s then testPlayerVersion en answer s else matchVersions en s)"

definition embed_att :: "embed_args \<Rightarrow> string props" where
  "embed_att e =
     put_prop ''height'' (e_height e) (put_prop ''width'' (e_width e) (put_prop ''data'' (e_url e)
       (fold (\<lambda>(k, v). put_prop k v) (e_att e) [])))"

definition embed_par :: "embed_args \<Rightarrow> string props" where
  "embed_par e =
     fold (\<lambda>(k, v). add_flashvars (k @ ''='' @ v)) (e_flashvars e) (fold (\<lambda>(k, v). put_prop k v) (e_par e) [])"

text \<open>The function \<open>embedSWF\<close> passes to \<open>addDomLoadEvent\<close>.\<close>

definition embed_now :: "sw_env \<Rightarrow> embed_args \<Rightarrow> sw \<Rightarrow> sw" where
  "embed_now en e s =
     (let att = embed_att e; par = embed_par e
      in if hasPlayerVersion (ua s) (e_version e)
         then (let (obj, att1, s1) = createSWF en att par (e_id e) s;
                   s2 = (if lookup_prop att1 ''id'' = Some (e_id e) then setVisibility en (e_id e) True s1 else s1)
               in call_back (e_callback e) True (e_id e) (obj \<noteq> None) s2)
         else if e_xi e \<noteq> [] \<and> canExpressInstall s
         then showExpressInstall en (put_prop ''data'' (e_xi e) att) par (e_id e) (e_callback e) s
         else call_back (e_callback e) False (e_id e) False (setVisibility en (e_id e) True s))"

fun run_load_fn :: "sw_env \<Rightarrow> string option \<Rightarrow> load_fn \<Rightarrow> sw \<Rightarrow> sw result" where
  "run_load_fn en answer MainFn s = main en answer s"
| "run_load_fn en answer (EmbedFn e) s = Inr (embed_now en e s)"
| "run_load_fn en answer (PageFn f) s = Inr (s\<lparr>page_calls := page_calls s @ [f]\<rparr>)"

fun run_load_fns :: "sw_env \<Rightarrow> string option \<Rightarrow> load_fn list \<Rightarrow> sw \<Rightarrow> sw result" where
  "run_load_fns en answer [] s = Inr s"
| "run_load_fns en answer (f # fs) s = rbind (run_load_fn en answer f s) (run_load_fns en answer fs)"

text \<open>
  \<open>body_ok\<close>: an element can be appended to the body and removed. The appended \<open>span\<close> is gone again
  when the functions run.
\<close>

definition callDomLoadFunctions :: "sw_env \<Rightarrow> string option \<Rightarrow> bool \<Rightarrow> sw \<Rightarrow> sw result" where
  "callDomLoadFunctions en answer body_ok s =
     (if isDomLoaded s then Inr s
      else if \<not> body_ok then Inr s
      else run_load_fns en answer (domLoadFnArr s) (s\<lparr>fresh := Suc (fresh s), isDomLoaded := True\<rparr>))"

definition addDomLoadEvent :: "sw_env \<Rightarrow> string option \<Rightarrow> load_fn \<Rightarrow> sw \<Rightarrow> sw result" where
  "addDomLoadEvent en answer f s =
     (if isDomLoaded s then run_load_fn en answer f s else Inr (s\<lparr>domLoadFnArr := domLoadFnArr s @ [f]\<rparr>))"

text \<open>How \<open>addLoadEvent\<close> attaches a function, by what the browser offers.\<close>

datatype load_hook = WinListener | DocListener | AttachOnload | ChainOnload | SetOnload

definition addLoadEvent :: "bool \<Rightarrow> bool \<Rightarrow> bool \<Rightarrow> bool \<Rightarrow> load_hook" where
  "addLoadEvent win_add doc_add win_attach onload_set =
     (if win_add then WinListener else if doc_add then DocListener else if win_attach then AttachOnload
      else if onload_set then ChainOnload else SetOnload)"

text \<open>
  \<open>onDomLoad\<close>: what it runs at once and what it waits for. \<open>doc_state\<close> is \<open>document.readyState\<close>,
  \<open>scroll_ok\<close> that \<open>doScroll\<close> does not throw.
\<close>

record dom_env =
  doc_state :: "string option"
  has_body :: bool
  doc_listener :: bool
  top_window :: bool
  scroll_ok :: bool
  load_listener :: load_hook

datatype dom_hook = OnContentLoaded | OnReadyState | ScrollRetry | WebkitRetry | OnLoad load_hook

definition dom_complete :: "dom_env \<Rightarrow> bool" where
  "dom_complete d = (case doc_state d of Some st \<Rightarrow> st = ''complete'' | None \<Rightarrow> has_body d)"

definition scroll_check :: "sw_env \<Rightarrow> string option \<Rightarrow> dom_env \<Rightarrow> sw \<Rightarrow> (sw \<times> dom_hook list) result" where
  "scroll_check en answer d s =
     (if isDomLoaded s then Inr (s, [])
      else if \<not> scroll_ok d then Inr (s, [ScrollRetry])
      else rbind (callDomLoadFunctions en answer (has_body d) s) (\<lambda>t. Inr (t, [])))"

definition webkit_check :: "sw_env \<Rightarrow> string option \<Rightarrow> dom_env \<Rightarrow> sw \<Rightarrow> (sw \<times> dom_hook list) result" where
  "webkit_check en answer d s =
     (let st = (case doc_state d of None \<Rightarrow> ''undefined'' | Some x \<Rightarrow> x)
      in if isDomLoaded s then Inr (s, [])
         else if \<not> re_test (RAlt (RText ''loaded'') (RText ''complete'')) st then Inr (s, [WebkitRetry])
         else rbind (callDomLoadFunctions en answer (has_body d) s) (\<lambda>t. Inr (t, [])))"

definition onDomLoad :: "sw_env \<Rightarrow> string option \<Rightarrow> dom_env \<Rightarrow> sw \<Rightarrow> (sw \<times> dom_hook list) result" where
  "onDomLoad en answer d s =
     (if \<not> w3 (ua s) then Inr (s, [])
      else rbind (if dom_complete d then callDomLoadFunctions en answer (has_body d) s else Inr s) (\<lambda>s1.
        if isDomLoaded s1 then Inr (s1, [])
        else rbind (if ie_win s1 \<and> top_window d then scroll_check en answer d s1 else Inr (s1, [])) (\<lambda>(s2, h2).
             rbind (if wk (ua s2) \<noteq> None \<and> truthy (NumV (the (wk (ua s2)))) then webkit_check en answer d s2
                    else Inr (s2, [])) (\<lambda>(s3, h3).
               Inr (s3, (if doc_listener d then [OnContentLoaded] else []) @ (if ie_win s1 then [OnReadyState] else [])
                        @ h2 @ h3 @ [OnLoad (load_listener d)])))))"

text \<open>What waits for \<open>setTimeout\<close>.\<close>

definition run_wait :: "sw_env \<Rightarrow> string option \<Rightarrow> sw \<Rightarrow> sw result" where
  "run_wait en answer s =
     (case waits s of
        [] \<Rightarrow> Inr s
      | w # ws \<Rightarrow>
          let s1 = s\<lparr>waits := ws\<rparr>
          in case w of
               WaitRemove r \<Rightarrow> Inr (remove_when_ready en r s1)
             | WaitRemoveIE r i \<Rightarrow> Inr (if loading en r then s1\<lparr>waits := ws @ [w]\<rparr> else removeObjectInIE i s1)
             | WaitVersion r n \<Rightarrow> version_attempt en r n answer s1)"

subsection \<open>Public functions\<close>

definition registerObject :: "sw_env \<Rightarrow> string \<Rightarrow> string \<Rightarrow> string \<Rightarrow> string option \<Rightarrow> sw \<Rightarrow> sw" where
  "registerObject en i version xi cb s =
     (if w3 (ua s) \<and> i \<noteq> [] \<and> version \<noteq> []
      then setVisibility en i False
             (s\<lparr>regObjArr := regObjArr s @ [\<lparr>reg_id = i, swfVersion = version, expressInstall = xi, callbackFn = cb\<rparr>]\<rparr>)
      else call_back cb False i False s)"

definition embedSWF :: "sw_env \<Rightarrow> string option \<Rightarrow> embed_args \<Rightarrow> sw \<Rightarrow> sw result" where
  "embedSWF en answer e s =
     (if w3 (ua s) \<and> \<not> old_webkit (ua s) \<and> e_url e \<noteq> [] \<and> e_id e \<noteq> [] \<and> e_width e \<noteq> [] \<and> e_height e \<noteq> [] \<and> e_version e \<noteq> []
      then addDomLoadEvent en answer (EmbedFn e) (setVisibility en (e_id e) False s)
      else Inr (call_back (e_callback e) False (e_id e) False s))"

definition api_getObjectById :: "sw_env \<Rightarrow> string \<Rightarrow> sw \<Rightarrow> node option" where
  "api_getObjectById en i s = (if w3 (ua s) then getObjectById en i s else None)"

definition switchOffAutoHideShow :: "sw \<Rightarrow> sw" where
  "switchOffAutoHideShow s = s\<lparr>autoHideShow := False\<rparr>"

definition getFlashPlayerVersion :: "sw \<Rightarrow> jsnum \<times> jsnum \<times> jsnum" where
  "getFlashPlayerVersion s = (pv (ua s) ! 0, pv (ua s) ! 1, pv (ua s) ! 2)"

definition api_createSWF :: "sw_env \<Rightarrow> string props \<Rightarrow> string props \<Rightarrow> string \<Rightarrow> sw \<Rightarrow> node option \<times> string props \<times> sw" where
  "api_createSWF en att par i s = (if w3 (ua s) then createSWF en att par i s else (None, att, s))"

definition api_showExpressInstall :: "sw_env \<Rightarrow> string props \<Rightarrow> string props \<Rightarrow> string \<Rightarrow> string option \<Rightarrow> sw \<Rightarrow> sw" where
  "api_showExpressInstall en att par i cb s =
     (if w3 (ua s) \<and> canExpressInstall s then showExpressInstall en att par i cb s else s)"

definition api_removeSWF :: "sw_env \<Rightarrow> string \<Rightarrow> sw \<Rightarrow> sw" where
  "api_removeSWF en i s = (if w3 (ua s) then removeSWF en i s else s)"

definition api_createCSS :: "sw_env \<Rightarrow> string \<Rightarrow> string \<Rightarrow> string \<Rightarrow> bool \<Rightarrow> sw \<Rightarrow> sw" where
  "api_createCSS en sel decl media newStyle s = (if w3 (ua s) then createCSS en sel decl media newStyle s else s)"

text \<open>\<open>encode\<close> is \<open>encodeURIComponent\<close>.\<close>

definition urlEncodeIfNecessary :: "(string \<Rightarrow> string) \<Rightarrow> string \<Rightarrow> string" where
  "urlEncodeIfNecessary encode t = (if list_ex (\<lambda>c. c \<in> set ([CHR 0x5C, CHR 0x22] @ ''<>.;'')) t then encode t else t)"

fun find_pair :: "(string \<Rightarrow> string) \<Rightarrow> string \<Rightarrow> string list \<Rightarrow> string" where
  "find_pair encode param [] = []"
| "find_pair encode param (p # ps) =
     (if substring p 0 (index_of p ''='') = param
      then urlEncodeIfNecessary encode (substring p (index_of p ''='' + 1) (int (length p)))
      else find_pair encode param ps)"

definition getQueryParamValue :: "(string \<Rightarrow> string) \<Rightarrow> string \<Rightarrow> string \<Rightarrow> string option \<Rightarrow> string" where
  "getQueryParamValue encode search hash param =
     (let q0 = (if search \<noteq> [] then search else hash)
      in if q0 = [] then []
         else let q = (if CHR ''?'' \<in> set q0 then split_on CHR ''?'' q0 ! 1 else q0)
              in case param of
                   None \<Rightarrow> urlEncodeIfNecessary encode q
                 | Some p \<Rightarrow> find_pair encode p (split_on CHR ''&'' q))"

text \<open>What the handler of \<open>onunload\<close> does to the document.\<close>

definition cleanup :: "sw_env \<Rightarrow> sw \<Rightarrow> sw" where
  "cleanup en s = (if ie_win s then fold (removeSWF en) (objIdArr s) s else s)"

subsection \<open>Version numbers\<close>

lemma num_of_int_cmp:
  "num_less (num_of_int m) (num_of_int n) \<longleftrightarrow> m < n" "num_eq (num_of_int m) (num_of_int n) \<longleftrightarrow> m = n"
  by simp_all

lemma split_version:
  assumes "0 \<le> a" "0 \<le> b" "0 \<le> c"
  shows "split_on CHR ''.'' (int_digits a @ ''.'' @ int_digits b @ ''.'' @ int_digits c) =
    [int_digits a, int_digits b, int_digits c]"
proof -
  have "CHR ''.'' \<notin> set (int_digits n)" if "0 \<le> n" for n
    using int_digits_all_digits[OF that, of "CHR ''.''"] by (auto simp: is_digit_def)
  then show ?thesis using assms by (simp add: split_on_append split_on_no_sep)
qed

lemma parse_int_int_digits: "0 \<le> n \<Longrightarrow> safe_int n \<Longrightarrow> parse_int (int_digits n) = num_of_int n"
  using parse_int_digits[of "int_digits n" "[]"] int_digits_all_digits[of n] to_double_safe_int[of n]
  by (simp add: list_all_iff)

text \<open>
  C23: The version test is the lexicographic comparison: a player of version \<open>x.y.z\<close> has the version
  with the text \<open>a.b.c\<close> exactly if \<open>(a, b, c)\<close> is not above \<open>(x, y, z)\<close>.
\<close>

theorem hasPlayerVersion_lexicographic:
  assumes "pv u = [num_of_int x, num_of_int y, num_of_int z]"
    and "0 \<le> a" "0 \<le> b" "0 \<le> c" and "safe_int a" "safe_int b" "safe_int c"
  shows "hasPlayerVersion u (int_digits a @ ''.'' @ int_digits b @ ''.'' @ int_digits c) \<longleftrightarrow>
    a < x \<or> (a = x \<and> (b < y \<or> (b = y \<and> c \<le> z)))"
  unfolding hasPlayerVersion_def split_version[OF assms(2-4)]
  by (simp add: assms part_int_def parse_int_int_digits or_zero_def Let_def) linarith

theorem hasPlayerVersion_lexicographic_witness:
  "hasPlayerVersion \<lparr>w3 = True, pv = [num_of_int 9, num_of_int 0, num_of_int 124], wk = None, ie = False, win = True, mac = False\<rparr>
     ''9.0.115''"
proof -
  have "int_digits 9 @ ''.'' @ int_digits 0 @ ''.'' @ int_digits 115 = ''9.0.115''" by code_simp
  then show ?thesis
    using hasPlayerVersion_lexicographic[of "\<lparr>w3 = True, pv = [num_of_int 9, num_of_int 0, num_of_int 124],
      wk = None, ie = False, win = True, mac = False\<rparr>" 9 0 124 9 0 115]
    by (simp add: safe_int_def)
qed

subsection \<open>Embedding and the express installer\<close>

lemma fold_object_attr:
  "is_elem t \<Longrightarrow> is_elem (fold object_attr att t) \<and> node_ref (fold object_attr att t) = node_ref t \<and>
   children (fold object_attr att t) = children t \<and> node_name (fold object_attr att t) = node_name t"
  by (induction att arbitrary: t) (auto simp: object_attr_def Let_def elim!: is_elem.elims)

lemma object_attr_id:
  assumes "is_elem t" and "\<And>k v. (k, v) \<in> set att \<Longrightarrow> to_lower k = ''id'' \<Longrightarrow> k = ''id'' \<and> v = x"
    and "get_attr ''id'' t = Some x \<or> ''id'' \<in> fst ` set att"
  shows "get_attr ''id'' (fold object_attr att t) = Some x"
  using assms
proof (induction att arbitrary: t)
  case (Cons kv att)
  obtain k v where kv: "kv = (k, v)" by force
  have el: "is_elem (object_attr kv t)" using fold_object_attr[OF Cons.prems(1), of "[kv]"] by simp
  obtain i n a cs where t: "t = Elem i n a cs" using Cons.prems(1) by (cases t) auto
  have low: "to_lower ''id'' = ''id''" by code_simp
  have id: "get_attr ''id'' (object_attr kv t) = (if to_lower k = ''id'' then Some v else get_attr ''id'' t)"
    by (simp add: kv t object_attr_def Let_def get_attr_def lookup_put_prop)
  have "get_attr ''id'' (fold object_attr att (object_attr kv t)) = Some x"
  proof (rule Cons.IH[OF el])
    show "k' = ''id'' \<and> v' = x" if "(k', v') \<in> set att" "to_lower k' = ''id''" for k' v'
      using Cons.prems(2)[of k' v'] that by simp
    show "get_attr ''id'' (object_attr kv t) = Some x \<or> ''id'' \<in> fst ` set att"
    proof (cases "to_lower k = ''id''")
      case True
      then show ?thesis using Cons.prems(2)[of k v] id kv by simp
    next
      case False
      then have "k \<noteq> ''id''" using low by metis
      then show ?thesis using Cons.prems(3) id kv False by simp
    qed
  qed
  then show ?case by simp
qed simp

lemma createObjParam_shape:
  assumes "fold createObjParam ps (t, s) = (t', s')" and "is_elem t"
  shows "is_elem t' \<and> node_ref t' = node_ref t \<and> attrs t' = attrs t \<and> node_name t' = node_name t \<and> s' = s\<lparr>fresh := fresh s + length ps\<rparr>"
  using assms
proof (induction ps arbitrary: t s)
  case (Cons p ps)
  obtain i n a cs where t: "t = Elem i n a cs" using Cons.prems(2) by (cases t) auto
  define c where "c = set_attr ''value'' (snd p) (set_attr ''name'' (fst p) (Elem (fresh s) ''PARAM'' [] []))"
  have "createObjParam p (t, s) = (Elem i n a (cs @ [c]), s\<lparr>fresh := Suc (fresh s)\<rparr>)"
    by (simp add: createObjParam_def createElement_def c_def t)
  then have "fold createObjParam ps (Elem i n a (cs @ [c]), s\<lparr>fresh := Suc (fresh s)\<rparr>) = (t', s')"
    using Cons.prems(1) by simp
  from Cons.IH[OF this] show ?case by (simp add: t)
qed simp

definition one_id_key :: "string props \<Rightarrow> bool" where
  "one_id_key att \<longleftrightarrow> wf_props att \<and> list_all (\<lambda>(k, v). to_lower k \<noteq> ''id'' \<or> k = ''id'') att"

lemma one_id_key_put:
  assumes "one_id_key att" and "to_lower k \<noteq> ''id'' \<or> k = ''id''"
  shows "one_id_key (put_prop k v att)"
  using assms put_prop_set[of k v att] unfolding one_id_key_def list_all_iff by (auto simp: wf_put_prop)

lemma one_id_key_lookup: "one_id_key att \<Longrightarrow> (''id'', v) \<in> set att \<Longrightarrow> lookup_prop att ''id'' = Some v"
  by (simp add: one_id_key_def wf_props_def lookup_prop_distinct)

lemma lookup_prop_keys: "lookup_prop ps k = Some v \<Longrightarrow> k \<in> fst ` set ps"
  using lookup_prop_Some_in by force

lemma createSWF_replaces:
  assumes "\<not> ie_win s" and "\<not> old_webkit (ua s)" and "getElementById i s = Some el" and "one_id_key att"
  defines "att1 \<equiv> (if lookup_prop att ''id'' = None then put_prop ''id'' i att else att)"
  shows "\<exists>ob n. createSWF en att par i s =
      (Some ob, att1, change_body (replace_child ob (node_ref el)) (s\<lparr>fresh := n\<rparr>)) \<and>
    is_elem ob \<and> node_name ob = ''OBJECT'' \<and> node_ref ob = fresh s \<and> get_attr ''id'' ob = lookup_prop att1 ''id''"
proof -
  obtain x where x: "lookup_prop att1 ''id'' = Some x"
    unfolding att1_def by (cases "lookup_prop att ''id''") (auto simp: lookup_put_prop)
  have low: "to_lower ''id'' = ''id''" by code_simp
  have keys: "one_id_key att1"
    unfolding att1_def using assms(4) one_id_key_put[of att "''id''" i] by simp
  define o1 where "o1 = fold object_attr att1 (set_attr ''type'' FLASH_MIME_TYPE (Elem (fresh s) ''OBJECT'' [] []))"
  have o1: "is_elem o1" "node_ref o1 = fresh s" "node_name o1 = ''OBJECT''"
    using fold_object_attr[of "set_attr ''type'' FLASH_MIME_TYPE (Elem (fresh s) ''OBJECT'' [] [])" att1]
    by (simp_all add: o1_def)
  have idx: "get_attr ''id'' o1 = Some x"
    unfolding o1_def
  proof (rule object_attr_id)
    show "k = ''id'' \<and> v = x" if "(k, v) \<in> set att1" "to_lower k = ''id''" for k v
      using that keys one_id_key_lookup[OF keys] x by (auto simp: one_id_key_def list_all_iff)
  qed (use lookup_prop_keys[OF x] in simp_all)
  obtain ob s2 where ob: "fold createObjParam (filter (\<lambda>kv. to_lower (fst kv) \<noteq> ''movie'') par)
      (o1, s\<lparr>fresh := Suc (fresh s)\<rparr>) = (ob, s2)"
    by force
  from createObjParam_shape[OF ob o1(1)] have shape: "is_elem ob" "node_ref ob = fresh s" "attrs ob = attrs o1"
    "node_name ob = ''OBJECT''" "\<exists>n. s2 = s\<lparr>fresh := n\<rparr>"
    using o1 by auto
  then obtain n where n: "s2 = s\<lparr>fresh := n\<rparr>" by blast
  have "createSWF en att par i s = (Some ob, att1, change_body (replace_child ob (node_ref el)) s2)"
    using assms(1-3) ob unfolding createSWF_def o1_def att1_def by (simp add: createElement_def Let_def)
  then show ?thesis using shape idx x n by (auto simp: get_attr_def)
qed

lemma showExpressInstall_shape:
  assumes "\<not> ie_win s" and "\<not> old_webkit (ua s)" and "getElementById i s = Some obj"
    and "node_name obj \<noteq> ''OBJECT''" and "one_id_key att"
  shows "\<exists>ob n tt. showExpressInstall en att par i cb s =
      change_body (replace_child ob (node_ref obj))
        (s\<lparr>isExpressInstallActive := True, storedCallbackFn := cb, storedCallbackId := i, storedAltContent := Some obj,
           storedAltContentId := Some i, title := tt, fresh := n\<rparr>) \<and>
    is_elem ob \<and> node_ref ob = fresh s \<and> get_attr ''id'' ob = Some EXPRESS_INSTALL_ID"
proof -
  let ?att = "at_least ''height'' 137 (at_least ''width'' 310 (put_prop ''id'' EXPRESS_INSTALL_ID att))"
  have low: "to_lower ''height'' \<noteq> ''id''" "to_lower ''width'' \<noteq> ''id''" by code_simp+
  have keys: "one_id_key ?att"
    using assms(5) low by (auto simp: at_least_def one_id_key_put split: option.split)
  have id: "lookup_prop ?att ''id'' = Some EXPRESS_INSTALL_ID"
    by (simp add: at_least_def lookup_put_prop split: option.split)
  define s2 where "s2 = s\<lparr>isExpressInstallActive := True, storedCallbackFn := cb, storedCallbackId := i,
    storedAltContent := Some obj, storedAltContentId := Some i, title := take 47 (title s) @ '' - Flash Player Installation''\<rparr>"
  have s2: "\<not> ie_win s2" "\<not> old_webkit (ua s2)" "getElementById i s2 = Some obj"
    using assms(1-3) by (simp_all add: s2_def ie_win_def getElementById_def)
  from createSWF_replaces[OF s2 keys, of en "add_flashvars (install_vars s2) par"] id
  obtain ob n where ob: "createSWF en ?att (add_flashvars (install_vars s2) par) i s2 =
      (Some ob, ?att, change_body (replace_child ob (node_ref obj)) (s2\<lparr>fresh := n\<rparr>))"
    "is_elem ob" "node_ref ob = fresh s2" "get_attr ''id'' ob = Some EXPRESS_INSTALL_ID" by auto
  have "showExpressInstall en att par i cb s = snd (snd (createSWF en ?att (add_flashvars (install_vars s2) par) i s2))"
    using assms(1,3,4) by (simp add: showExpressInstall_def s2_def getElementById_def ie_win_def Let_def) blast
  then show ?thesis using ob by (auto simp: s2_def intro!: exI)
qed

text \<open>What \<open>setVisibility\<close> does to the document and what it leaves alone.\<close>

lemma createCSS_keeps [simp]:
  "body (createCSS en sel decl media new s) = body s" "cb_log (createCSS en sel decl media new s) = cb_log s"
  "isExpressInstallActive (createCSS en sel decl media new s) = isExpressInstallActive s"
  by (simp_all add: createCSS_def Let_def split: option.split)

lemma setVisibility_keeps [simp]:
  "cb_log (setVisibility en i v s) = cb_log s"
  "isExpressInstallActive (setVisibility en i v s) = isExpressInstallActive s"
  by (simp_all add: setVisibility_def change_body_def Let_def split: option.split)

definition shown :: "bool \<Rightarrow> string \<Rightarrow> bool \<Rightarrow> node list \<Rightarrow> node list" where
  "shown on i v ts =
     (case by_id i ts of
        Some t \<Rightarrow> if on then change_elem (node_ref t) (set_attr ''style.visibility'' (if v then ''visible'' else ''hidden'')) ts else ts
      | None \<Rightarrow> ts)"

lemma setVisibility_body [simp]:
  "body (setVisibility en i v s) = shown (autoHideShow s \<and> isDomLoaded s) i v (body s)"
  by (simp add: setVisibility_def shown_def change_body_def getElementById_def Let_def split: option.split)

definition sw_wf :: "sw \<Rightarrow> bool" where
  "sw_wf s \<longleftrightarrow> distinct (refs (body s)) \<and> list_all (\<lambda>r. r < fresh s) (refs (body s))"


abbreviation plain_env :: sw_env where
  "plain_env \<equiv> \<lparr>parse_html = (\<lambda>t n. ([], n)), html_of = (\<lambda>ts. []), scriptable = (\<lambda>t. False), loading = (\<lambda>r. False), add_rule = False\<rparr>"

abbreviation demo_page :: sw where
  "demo_page \<equiv> \<lparr>ua = \<lparr>w3 = True, pv = [num_of_int 9, num_of_int 0, num_of_int 0], wk = None, ie = False, win = True, mac = False\<rparr>,
     plugin = True, body = [TextN ''hello'', Elem 1 ''DIV'' [(''id'', ''board'')] [TextN ''install Flash'']], fresh = 2, head = True,
     sheets = [], dynamicStylesheet = None, dynamicStylesheetMedia = [], title = ''Board'', location = ''http://h/?a&b'',
     regObjArr = [], objIdArr = [], storedAltContent = None, storedAltContentId = None, storedCallbackFn = None,
     storedCallbackId = [], isDomLoaded = True, isExpressInstallActive = False, autoHideShow = True,
     domLoadFnArr = [MainFn], cb_log = [], page_calls = [], waits = []\<rparr>"


end
