(* ===== verification/Socket_Movie.thy ===== *)
theory Socket_Movie
  imports Jsocket Swfobject
begin

text \<open>
  The socket on the page: what \<open>jSocket.prototype.setup\<close> passes to \<open>swfobject.embedSWF\<close>, and
  \<open>findSwf\<close>, which looks for the movie under the id of the placeholder it replaced.
\<close>

definition socket_args :: "string \<Rightarrow> string \<Rightarrow> embed_args" where
  "socket_args url tgt =
     \<lparr>e_url = url, e_id = tgt, e_width = ''0'', e_height = ''0'', e_version = ''9.0.0'', e_xi = ''expressInstall.swf'',
      e_flashvars = [], e_par = [(''menu'', ''false'')], e_att = [], e_callback = None\<rparr>"

text \<open>\<open>setup\<close> on the state of the sockets and the page together.\<close>

definition setup_on_page :: "sw_env \<Rightarrow> string option \<Rightarrow> string \<Rightarrow> string \<Rightarrow> string \<Rightarrow> jstate \<Rightarrow> sw \<Rightarrow> (jstate \<times> sw) result" where
  "setup_on_page en answer sid tgt swflocation s p =
     rbind (setup_socket True sid tgt swflocation s) (\<lambda>s1.
     rbind (embedSWF en answer (socket_args ((if swflocation \<noteq> [] then swflocation else swf s) @ ''?'' @ sid) tgt) p) (\<lambda>p1.
       Inr (s1, p1)))"

definition findSwf :: "jsocket \<Rightarrow> sw \<Rightarrow> node option" where
  "findSwf so p = by_id (case target so of None \<Rightarrow> ''undefined'' | Some i \<Rightarrow> i) (body p)"

lemma shown_refs: "refs (shown on i v ts) = refs ts"
  by (simp add: shown_def refs_change split: option.split)

lemma shown_by_id: "map_option node_name (by_id x (shown on i v ts)) = map_option node_name (by_id x ts)"
  by (simp add: shown_def by_id_change split: option.split)

lemma createCSS_fresh [simp]:
  "fresh (createCSS en sel decl media new s) = fresh s" "ua (createCSS en sel decl media new s) = ua s"
  "isDomLoaded (createCSS en sel decl media new s) = isDomLoaded s"
  "autoHideShow (createCSS en sel decl media new s) = autoHideShow s"
  by (simp_all add: createCSS_def Let_def split: option.split)

lemma setVisibility_fresh [simp]:
  "fresh (setVisibility en i v s) = fresh s" "ua (setVisibility en i v s) = ua s"
  "isDomLoaded (setVisibility en i v s) = isDomLoaded s" "autoHideShow (setVisibility en i v s) = autoHideShow s"
  by (simp_all add: setVisibility_def change_body_def Let_def split: option.split)

lemma embed_now_finds:
  assumes "sw_wf p" and "\<not> ie_win p" and "\<not> old_webkit (ua p)" and "getElementById tgt p = Some el"
    and "hasPlayerVersion (ua p) ''9.0.0''"
  shows "\<exists>ob. by_id tgt (body (embed_now en (socket_args url tgt) p)) = Some ob \<and> node_name ob = ''OBJECT''"
proof -
  have att: "embed_att (socket_args url tgt) = [(''data'', url), (''width'', ''0''), (''height'', ''0'')]"
    by (simp add: embed_att_def socket_args_def put_prop_def is_index_def is_digit_def)
  have keys: "one_id_key (embed_att (socket_args url tgt))"
    unfolding att by (simp add: one_id_key_def wf_props_def key_before_def is_index_def is_digit_def to_lower_def to_lower_char_def)
  from createSWF_replaces[OF assms(2-4) keys, of en "embed_par (socket_args url tgt)"]
  obtain ob n where ob: "createSWF en (embed_att (socket_args url tgt)) (embed_par (socket_args url tgt)) tgt p =
      (Some ob, put_prop ''id'' tgt (embed_att (socket_args url tgt)), change_body (replace_child ob (node_ref el)) (p\<lparr>fresh := n\<rparr>))"
    "is_elem ob" "node_name ob = ''OBJECT''" "get_attr ''id'' ob = Some tgt"
    by (auto simp: att lookup_put_prop)
  have "by_id tgt (replace_child ob (node_ref el) (body p)) = Some ob"
    by (rule by_id_replace_same) (use assms(1,4) ob in \<open>simp_all add: sw_wf_def getElementById_def\<close>)
  then have "map_option node_name (by_id tgt (body (embed_now en (socket_args url tgt) p))) = Some ''OBJECT''"
    using assms(5) ob
    by (simp add: embed_now_def socket_args_def[of url tgt] lookup_put_prop shown_by_id change_body_def call_back_def)
  then show ?thesis by blast
qed



end
