(* ===== verification/Jq_Core.thy ===== *)
theory Jq_Core
  imports Js_Json Js_Strings
begin

text \<open>
  The utilities of \<open>jquery-1.9.1.js\<close>: types of values, loops over array-like values, array helpers,
  \<open>extend\<close>, \<open>camelCase\<close> and the set operations of the jQuery object. Values are data (no functions
  and no cycles); callbacks are functions of the model.
\<close>

subsection \<open>Types\<close>

fun jq_type :: "jsval \<Rightarrow> string" where
  "jq_type Undef = ''undefined''"
| "jq_type Null = ''null''"
| "jq_type (Obj Array ps) = ''array''"
| "jq_type (Obj Plain ps) = ''object''"
| "jq_type v = typeof v"

definition isArray :: "jsval \<Rightarrow> bool" where
  "isArray v \<longleftrightarrow> jq_type v = ''array''"

text \<open>A property read that gives \<open>undefined\<close> where the language would throw; the callers exclude these.\<close>

definition prop_at :: "jsval \<Rightarrow> string \<Rightarrow> jsval" where
  "prop_at v k = (case js_get v k of Inr w \<Rightarrow> w | Inl _ \<Rightarrow> Undef)"

definition isWindow :: "jsval \<Rightarrow> bool" where
  "isWindow v \<longleftrightarrow> v \<noteq> Undef \<and> v \<noteq> Null \<and> js_eq v (prop_at v ''window'')"

definition isNumeric :: "jsval \<Rightarrow> bool" where
  "isNumeric v \<longleftrightarrow> parse_float (to_str v) \<noteq> NaN \<and> (case to_number v of Fin _ \<Rightarrow> True | _ \<Rightarrow> False)"

text \<open>
  An object of the model inherits from \<open>Object\<close> and its enumerable properties are its own, so only
  the first test of the source excludes anything.
\<close>

definition isPlainObject :: "jsval \<Rightarrow> bool" where
  "isPlainObject v \<longleftrightarrow>
     truthy v \<and> jq_type v = ''object'' \<and> \<not> truthy (prop_at v ''nodeType'') \<and> \<not> isWindow v"

definition isEmptyObject :: "jsval \<Rightarrow> bool" where
  "isEmptyObject v \<longleftrightarrow> own_props v = []"

definition has_key :: "jsval \<Rightarrow> string \<Rightarrow> bool" where
  "has_key v k \<longleftrightarrow> lookup_prop (own_props v) k \<noteq> None"

definition is_number :: "jsval \<Rightarrow> bool" where
  "is_number v \<longleftrightarrow> typeof v = ''number''"

text \<open>\<open>in\<close> throws on a primitive string.\<close>

definition isArraylike :: "jsval \<Rightarrow> bool result" where
  "isArraylike v =
     (case js_get v ''length'' of
        Inl e \<Rightarrow> Inl e
      | Inr len \<Rightarrow>
          if isWindow v then Inr False
          else if prop_at v ''nodeType'' = IntV 1 \<and> truthy len then Inr True
          else if jq_type v = ''array'' then Inr True
          else if len = IntV 0 then Inr True
          else if is_number len \<and> num_less (Fin 0) (to_number len)
          then (if is_StrV v then Inl TypeError else Inr (has_key v (num_to_string (num_sub (to_number len) (Fin 1)))))
          else Inr False)"

definition len_of :: "jsval \<Rightarrow> nat" where
  "len_of v = (case to_number (prop_at v ''length'') of Fin x \<Rightarrow> nat \<lceil>x\<rceil> | _ \<Rightarrow> 0)"

definition item :: "jsval \<Rightarrow> nat \<Rightarrow> jsval" where
  "item v i = prop_at v (int_digits (int i))"

definition items :: "jsval \<Rightarrow> jsval list" where
  "items v = map (item v) [0 ..< len_of v]"

definition keyed_items :: "jsval \<Rightarrow> (string \<times> jsval) list" where
  "keyed_items v = map (\<lambda>i. (int_digits (int i), item v i)) [0 ..< len_of v]"

subsection \<open>Loops\<close>

text \<open>The callback gets the key and the value and returns the new state and its value; \<open>false\<close> ends the loop.\<close>

fun each_loop :: "(string \<times> jsval) list \<Rightarrow> (string \<Rightarrow> jsval \<Rightarrow> 's \<Rightarrow> 's \<times> jsval) \<Rightarrow> 's \<Rightarrow> 's" where
  "each_loop [] f s = s"
| "each_loop ((k, v) # kvs) f s = (case f k v s of (s', r) \<Rightarrow> if r = BoolV False then s' else each_loop kvs f s')"

definition jq_each :: "jsval \<Rightarrow> (string \<Rightarrow> jsval \<Rightarrow> 's \<Rightarrow> 's \<times> jsval) \<Rightarrow> 's \<Rightarrow> 's result" where
  "jq_each v f s =
     rbind (isArraylike v) (\<lambda>a. Inr (each_loop (if a then keyed_items v else own_props v) f s))"

definition jq_trim :: "jsval \<Rightarrow> string" where
  "jq_trim v = (if v = Undef \<or> v = Null then [] else trim (to_str v))"

subsection \<open>Array helpers\<close>

text \<open>
  The \<open>while\<close> loop of \<open>merge\<close> over the properties \<open>0, 1, ...\<close> up to the first undefined one, which
  comes after at most as many steps as there are properties.
\<close>

function defined_items :: "jsval \<Rightarrow> nat \<Rightarrow> jsval list" where
  "defined_items v j =
     (if length (own_props v) < j \<or> item v j = Undef then [] else item v j # defined_items v (Suc j))"
  by pat_completeness auto
termination
  by (relation "measure (\<lambda>(v, j). Suc (length (own_props v)) - j)") auto

declare defined_items.simps [simp del]

definition jq_merge :: "jsval list \<Rightarrow> jsval \<Rightarrow> jsval list" where
  "jq_merge first second = first @ (if is_number (prop_at second ''length'') then items second else defined_items second 0)"

definition makeArray :: "jsval \<Rightarrow> jsval list \<Rightarrow> jsval list" where
  "makeArray arr ret =
     (case arr of
        Undef \<Rightarrow> ret
      | Null \<Rightarrow> ret
      | StrV s \<Rightarrow> ret @ [arr]
      | _ \<Rightarrow> (case isArraylike arr of Inr True \<Rightarrow> jq_merge ret arr | _ \<Rightarrow> ret @ [arr]))"

text \<open>\<open>===\<close>; two objects of separate origin are not identical.\<close>

fun strict_eq :: "jsval \<Rightarrow> jsval \<Rightarrow> bool" where
  "strict_eq (NumV m) (NumV n) = num_eq m n"
| "strict_eq (Obj _ _) _ = False"
| "strict_eq _ (Obj _ _) = False"
| "strict_eq v w = (v = w)"

fun index_from :: "jsval \<Rightarrow> nat \<Rightarrow> jsval list \<Rightarrow> int" where
  "index_from e i [] = - 1"
| "index_from e i (x # xs) = (if strict_eq x e then int i else index_from e (Suc i) xs)"

definition inArray :: "jsval \<Rightarrow> jsval list \<Rightarrow> int \<Rightarrow> int" where
  "inArray e arr i =
     (let n = int (length arr); start = nat (if i < 0 then max 0 (n + i) else i)
      in index_from e start (drop start arr))"

fun jq_grep_from :: "nat \<Rightarrow> jsval list \<Rightarrow> (jsval \<Rightarrow> nat \<Rightarrow> jsval) \<Rightarrow> bool \<Rightarrow> jsval list" where
  "jq_grep_from i [] f invert = []"
| "jq_grep_from i (x # xs) f invert =
     (if invert \<noteq> truthy (f x i) then x # jq_grep_from (Suc i) xs f invert else jq_grep_from (Suc i) xs f invert)"

definition jq_grep :: "jsval list \<Rightarrow> (jsval \<Rightarrow> nat \<Rightarrow> jsval) \<Rightarrow> bool \<Rightarrow> jsval list" where
  "jq_grep elems f invert = jq_grep_from 0 elems f invert"

text \<open>\<open>[].concat\<close>: arrays are spliced in, other values are appended.\<close>

definition concat_values :: "jsval list \<Rightarrow> jsval list" where
  "concat_values vs = concat (map (\<lambda>v. if isArray v then items v else [v]) vs)"

definition jq_map :: "jsval \<Rightarrow> (jsval \<Rightarrow> string \<Rightarrow> jsval) \<Rightarrow> jsval list result" where
  "jq_map elems f =
     rbind (isArraylike elems) (\<lambda>a.
       Inr (concat_values (filter (\<lambda>v. v \<noteq> Undef \<and> v \<noteq> Null)
              (map (\<lambda>(k, v). f v k) (if a then keyed_items elems else own_props elems)))))"

subsection \<open>extend\<close>

definition put_value :: "jsval \<Rightarrow> string \<Rightarrow> jsval \<Rightarrow> jsval" where
  "put_value w k v = (case js_put w k v of Inr w' \<Rightarrow> w' | Inl _ \<Rightarrow> w)"

text \<open>The loop over the properties of one \<open>options\<close> argument.\<close>

fun extend_from :: "bool \<Rightarrow> jsval \<Rightarrow> jsval \<Rightarrow> jsval" where
  "extend_from deep options target =
     fold (\<lambda>(name, copy) t.
        let src = prop_at t name
        in if deep \<and> truthy copy \<and> (isPlainObject copy \<or> isArray copy)
           then put_value t name (extend_from deep copy
                  (if isPlainObject copy then (if truthy src \<and> isPlainObject src then src else Obj Plain [])
                   else (if truthy src \<and> isArray src then src else Obj Array [])))
           else if copy \<noteq> Undef then put_value t name copy else t)
     (own_props options) target"

declare extend_from.simps [simp del]

text \<open>\<open>jQuery.extend(deep, target, options...)\<close>; null and undefined arguments are skipped.\<close>

definition jq_extend :: "bool \<Rightarrow> jsval \<Rightarrow> jsval list \<Rightarrow> jsval" where
  "jq_extend deep target opts =
     (let t0 = (if typeof target = ''object'' \<and> truthy target then target else Obj Plain [])
      in fold (\<lambda>o' t. if o' = Undef \<or> o' = Null then t else extend_from deep o' t) opts t0)"

subsection \<open>Names\<close>

text \<open>\<open>rdashAlpha\<close>: a dash and a letter or digit; the letter is made upper case.\<close>

fun camel_dashes :: "string \<Rightarrow> string" where
  "camel_dashes (c # d # s) =
     (if c = CHR ''-'' \<and> (is_digit d \<or> d \<in> set letters) then to_upper_char d # camel_dashes s else c # camel_dashes (d # s))"
| "camel_dashes s = s"

definition camelCase :: "string \<Rightarrow> string" where
  "camelCase s = camel_dashes (if prefix ''-ms-'' s then ''ms-'' @ drop 4 s else s)"

definition jq_nodeName :: "string \<Rightarrow> string \<Rightarrow> bool" where
  "jq_nodeName elem_name name = (elem_name \<noteq> [] \<and> to_lower elem_name = to_lower name)"

text \<open>\<open>parseJSON\<close> where the browser has \<open>JSON\<close>; \<open>JSON.parse\<close> converts its argument to a string.\<close>

definition parseJSON :: "jsval \<Rightarrow> jsval result" where
  "parseJSON data = json_parse (to_str data)"

definition jq_error :: "string \<Rightarrow> 'a result" where
  "jq_error msg = Inl (ErrorMsg msg)"

subsection \<open>The matched set\<close>

text \<open>A jQuery object: its elements and the object it was made from.\<close>

datatype 'e jq = Jq (elements: "'e list") (prevObject: "'e jq option")

definition jq_size :: "'e jq \<Rightarrow> nat" where
  "jq_size j = length (elements j)"

definition toArray :: "'e jq \<Rightarrow> 'e list" where
  "toArray j = elements j"

text \<open>\<open>get(num)\<close> with a number; \<open>None\<close> is \<open>undefined\<close>.\<close>

definition jq_get :: "'e jq \<Rightarrow> int \<Rightarrow> 'e option" where
  "jq_get j num =
     (let i = (if num < 0 then int (jq_size j) + num else num)
      in if 0 \<le> i \<and> i < int (jq_size j) then Some (elements j ! nat i) else None)"

definition pushStack :: "'e jq \<Rightarrow> 'e list \<Rightarrow> 'e jq" where
  "pushStack j es = Jq es (Some j)"

definition jq_slice :: "'e jq \<Rightarrow> int \<Rightarrow> int \<Rightarrow> 'e jq" where
  "jq_slice j a b =
     (let n = int (jq_size j);
          lo = (if a < 0 then max 0 (n + a) else min a n);
          hi = (if b < 0 then max 0 (n + b) else min b n)
      in pushStack j (take (nat (hi - lo)) (drop (nat lo) (elements j))))"

definition jq_eq :: "'e jq \<Rightarrow> int \<Rightarrow> 'e jq" where
  "jq_eq j i =
     (let len = int (jq_size j); k = i + (if i < 0 then len else 0)
      in pushStack j (if 0 \<le> k \<and> k < len then [elements j ! nat k] else []))"

definition jq_first :: "'e jq \<Rightarrow> 'e jq" where
  "jq_first j = jq_eq j 0"

definition jq_last :: "'e jq \<Rightarrow> 'e jq" where
  "jq_last j = jq_eq j (- 1)"

definition jq_end :: "'e jq \<Rightarrow> 'e jq" where
  "jq_end j = (case prevObject j of Some p \<Rightarrow> p | None \<Rightarrow> Jq [] None)"

subsection \<open>Copying with extend\<close>

text \<open>Data without undefined values, as JSON has it.\<close>

fun plain_data :: "jsval \<Rightarrow> bool" where
  "plain_data Undef = False"
| "plain_data (Obj kd ps) =
     (wf_props ps \<and> (kd = Array \<longrightarrow> list_all (\<lambda>(k, v). is_index k) ps) \<and> list_all (\<lambda>(k, v). plain_data v) ps)"
| "plain_data v = True"

lemma insert_index_last:
  "is_index k \<Longrightarrow> (\<And>k'. k' \<in> fst ` set ps \<Longrightarrow> is_index k' \<and> digits_to_int k' < digits_to_int k) \<Longrightarrow>
   insert_index k v ps = ps @ [(k, v)]"
  by (induction ps) auto

lemma put_prop_end:
  assumes "wf_props (ps @ [(k, v)])" shows "put_prop k v ps = ps @ [(k, v)]"
proof -
  have k: "k \<notin> fst ` set ps" using assms by (auto simp: wf_props_def)
  have "is_index k' \<and> digits_to_int k' < digits_to_int k" if "is_index k" "k' \<in> fst ` set ps" for k'
    using assms that by (auto simp: wf_props_def sorted_wrt_append key_before_def)
  then show ?thesis
    using k insert_index_last[of k ps v] by (auto simp: put_prop_def lookup_prop_None_iff)
qed

definition extend_step :: "bool \<Rightarrow> string \<times> jsval \<Rightarrow> jsval \<Rightarrow> jsval" where
  "extend_step deep nc t =
     (let name = fst nc; copy = snd nc; src = prop_at t name
      in if deep \<and> truthy copy \<and> (isPlainObject copy \<or> isArray copy)
         then put_value t name (extend_from deep copy
                (if isPlainObject copy then (if truthy src \<and> isPlainObject src then src else Obj Plain [])
                 else (if truthy src \<and> isArray src then src else Obj Array [])))
         else if copy \<noteq> Undef then put_value t name copy else t)"

lemma extend_from_steps: "extend_from deep options target = fold (extend_step deep) (own_props options) target"
  by (subst extend_from.simps) (rule fold_cong, auto simp: extend_step_def)

lemma extend_step_new:
  assumes "wf_props (ps @ [(k, v)])" and "kd = Array \<Longrightarrow> is_index k" and "v \<noteq> Undef"
    and "\<And>kd' qs. v = Obj kd' qs \<Longrightarrow> extend_from True v (Obj kd' []) = v"
  shows "extend_step True (k, v) (Obj kd ps) = Obj kd (ps @ [(k, v)])"
proof -
  have k: "lookup_prop ps k = None" using assms(1) by (auto simp: wf_props_def lookup_prop_None_iff)
  have "\<not> is_index ''length''" by (simp add: is_index_def is_digit_def)
  then have src: "prop_at (Obj kd ps) k = Undef"
    using assms(2) k by (cases kd) (auto simp: prop_at_def at_key_def js_get.simps(6))
  have put: "put_value (Obj kd ps) k v = Obj kd (ps @ [(k, v)])"
    using put_prop_end[OF assms(1)] by (simp add: put_value_def)
  have "extend_from True v (if isPlainObject v then Obj Plain [] else Obj Array []) = v"
    if "isPlainObject v \<or> isArray v"
  proof (cases v)
    case (Obj kd' qs)
    have "kd' = (if isPlainObject v then Plain else Array)"
      using that Obj by (cases kd') (auto simp: isPlainObject_def isArray_def)
    then show ?thesis using assms(4)[OF Obj] Obj by (auto split: if_splits)
  qed (use that in \<open>auto simp: isPlainObject_def isArray_def\<close>)
  then show ?thesis using src put assms(3) by (auto simp: extend_step_def Let_def)
qed

lemma extend_fold:
  assumes "wf_props (ps @ qs)" and "kd = Array \<Longrightarrow> list_all (\<lambda>(k, v). is_index k) qs"
    and "\<And>k v. (k, v) \<in> set qs \<Longrightarrow> v \<noteq> Undef"
    and "\<And>k v kd' rs. (k, v) \<in> set qs \<Longrightarrow> v = Obj kd' rs \<Longrightarrow> extend_from True v (Obj kd' []) = v"
  shows "fold (extend_step True) qs (Obj kd ps) = Obj kd (ps @ qs)"
  using assms
proof (induction qs arbitrary: ps)
  case (Cons q qs)
  obtain k v where q: "q = (k, v)" by force
  have "wf_props (ps @ [(k, v)])"
    using Cons.prems(1) q by (auto simp: wf_props_def sorted_wrt_append)
  then have "extend_step True (k, v) (Obj kd ps) = Obj kd (ps @ [(k, v)])"
  proof (rule extend_step_new)
    show "extend_from True v (Obj kd' []) = v" if "v = Obj kd' rs" for kd' rs
      using Cons.prems(4)[of k v kd' rs] that q by simp
  qed (use Cons.prems(2,3) q in auto)
  moreover have "fold (extend_step True) qs (Obj kd (ps @ [(k, v)])) = Obj kd ((ps @ [(k, v)]) @ qs)"
  proof (rule Cons.IH)
    show "extend_from True w (Obj kd' []) = w" if "(k', w) \<in> set qs" "w = Obj kd' rs" for k' w kd' rs
      using Cons.prems(4)[of k' w kd' rs] that by simp
  qed (use Cons.prems(1-3) q in auto)
  ultimately show ?case by (simp add: q)
qed simp

lemma extend_copy: "plain_data v \<Longrightarrow> v = Obj kd ps \<Longrightarrow> extend_from True v (Obj kd []) = v"
proof (induction v arbitrary: kd ps rule: measure_induct_rule[where f = size])
  case (less v)
  have "size w < size v" if "(k, w) \<in> set ps" for k w
    using own_props_size[of k w v] that less.prems(2) by simp
  moreover have "plain_data w" if "(k, w) \<in> set ps" for k w
    using less.prems that by (auto simp: list_all_iff)
  ultimately have "extend_from True w (Obj kd' []) = w" if "(k, w) \<in> set ps" "w = Obj kd' rs" for k w kd' rs
    using less.IH that by metis
  then have "fold (extend_step True) ps (Obj kd []) = Obj kd ([] @ ps)"
    using less.prems by (intro extend_fold) (auto simp: list_all_iff)
  then show ?case using less.prems(2) by (simp add: extend_from_steps)
qed



end
