(* ===== verification/Form_Fields.thy ===== *)
theory Form_Fields
  imports Jq_Core Node_Url
begin

text \<open>
  Form controls and their values: \<open>val\<close> (reading), \<open>param\<close> and \<open>serializeArray\<close> of
  \<open>jquery-1.9.1.js\<close>, and the field functions of the form plug-in \<open>jquery.form.js\<close>. A control is a
  record of the properties the scripts read; \<open>f_ref\<close> is its identity.
\<close>

record opt =
  o_selected :: bool
  o_disabled :: bool
  o_group_disabled :: bool       \<comment> \<open>in a disabled \<open>optgroup\<close>\<close>
  o_value :: string
  o_text :: string
  o_unspecified :: bool          \<comment> \<open>the attribute \<open>value\<close> is there but not specified\<close>

record field =
  f_ref :: nat
  f_name :: string
  f_type :: string
  f_tag :: string                \<comment> \<open>\<open>tagName\<close>, in upper case for HTML\<close>
  f_disabled :: bool
  f_checked :: bool
  f_value :: "string option"
  f_value_attr :: bool           \<comment> \<open>has an attribute \<open>value\<close>\<close>
  f_index :: int                 \<comment> \<open>\<open>selectedIndex\<close>\<close>
  f_options :: "opt list"

datatype fval = FNull | FStr string | FArr "string list"

subsection \<open>val\<close>

definition strip_cr :: "string \<Rightarrow> string" where
  "strip_cr s = filter (\<lambda>c. c \<noteq> CHR 0x0D) s"

definition option_val :: "opt \<Rightarrow> string" where
  "option_val p = (if \<not> o_unspecified p then o_value p else o_text p)"

definition option_enabled :: "opt \<Rightarrow> bool" where
  "option_enabled p \<longleftrightarrow> \<not> o_disabled p \<and> \<not> o_group_disabled p"

text \<open>The loop over the options from \<open>i\<close> to \<open>max\<close>: the first value for a single choice, else all of them.\<close>

definition picked :: "int \<Rightarrow> opt list \<Rightarrow> nat \<Rightarrow> nat \<Rightarrow> string list" where
  "picked index ops i n =
     map (\<lambda>j. option_val (ops ! j))
       (filter (\<lambda>j. j < length ops \<and> (o_selected (ops ! j) \<or> int j = index) \<and> option_enabled (ops ! j)) [i ..< n])"

definition select_val :: "field \<Rightarrow> fval" where
  "select_val f =
     (let index = f_index f;
          one = (f_type f = ''select-one'' \<or> index < 0);
          n = (if one then nat (index + 1) else length (f_options f));
          i = (if index < 0 then n else if one then nat index else 0);
          vs = picked index (f_options f) i n
      in if one then (case vs of [] \<Rightarrow> FNull | v # _ \<Rightarrow> FStr v) else FArr vs)"

text \<open>\<open>check_on\<close> is \<open>jQuery.support.checkOn\<close>. The result of \<open>$(el).val()\<close>.\<close>

definition jq_val :: "bool \<Rightarrow> field \<Rightarrow> fval" where
  "jq_val check_on f =
     (let plain = FStr (case f_value f of Some v \<Rightarrow> strip_cr v | None \<Rightarrow> [])
      in if f_type f = ''radio'' \<or> f_type f = ''checkbox''
         then (if check_on then plain
               else FStr (if \<not> f_value_attr f then ''on'' else case f_value f of Some v \<Rightarrow> v | None \<Rightarrow> []))
         else if to_lower (f_tag f) = ''select'' then select_val f
         else plain)"

subsection \<open>param\<close>

definition param_pair :: "string \<times> jsval \<Rightarrow> string" where
  "param_pair kv =
     uri_escape (fst kv) @ ''='' @ uri_escape (if snd kv = Undef \<or> snd kv = Null then [] else to_str (snd kv))"

text \<open>\<open>replace(/%20/g, "+")\<close>.\<close>

fun plus_spaces :: "string \<Rightarrow> string" where
  "plus_spaces (a # b # c # s) =
     (if a = CHR ''%'' \<and> b = CHR ''2'' \<and> c = CHR ''0'' then CHR ''+'' # plus_spaces s else a # plus_spaces (b # c # s))"
| "plus_spaces s = s"

text \<open>\<open>param\<close> of an array of names and values.\<close>

definition param_array :: "(string \<times> jsval) list \<Rightarrow> string" where
  "param_array a = plus_spaces (join_with ''&'' (map param_pair a))"

definition ends_brackets :: "string \<Rightarrow> bool" where
  "ends_brackets p \<longleftrightarrow> suffix ''[]'' p"

text \<open>The pairs \<open>buildParams\<close> adds for a value under a prefix.\<close>

fun buildParams :: "bool \<Rightarrow> string \<Rightarrow> jsval \<Rightarrow> (string \<times> jsval) list" where
  "buildParams traditional pre (Obj kd ps) =
     (if kd = Array
      then concat (map (\<lambda>(i, v).
             if traditional \<or> ends_brackets pre then [(pre, v)]
             else buildParams traditional (pre @ ''['' @ (if typeof v = ''object'' then i else []) @ '']'') v) ps)
      else if \<not> traditional
      then concat (map (\<lambda>(name, v). buildParams traditional (pre @ ''['' @ name @ '']'') v) ps)
      else [(pre, Obj kd ps)])"
| "buildParams traditional pre v = [(pre, v)]"

text \<open>\<open>param\<close> of an object.\<close>

definition param_object :: "bool \<Rightarrow> (string \<times> jsval) list \<Rightarrow> string" where
  "param_object traditional ps = param_array (concat (map (\<lambda>(k, v). buildParams traditional k v) ps))"

subsection \<open>serializeArray\<close>

text \<open>\<open>replace(/\r?\n/g, "\r\n")\<close>.\<close>

fun crlf :: "string \<Rightarrow> string" where
  "crlf (a # b # s) =
     (if a = CHR 0x0D \<and> b = CHR 0x0A then CHR 0x0D # CHR 0x0A # crlf s
      else if a = CHR 0x0A then CHR 0x0D # CHR 0x0A # crlf (b # s)
      else a # crlf (b # s))"
| "crlf [a] = (if a = CHR 0x0A then [CHR 0x0D, CHR 0x0A] else [a])"
| "crlf [] = []"

definition submittable :: "field \<Rightarrow> bool" where
  "submittable f \<longleftrightarrow>
     f_name f \<noteq> [] \<and> \<not> f_disabled f \<and>
     list_ex (\<lambda>p. prefix p (to_lower (f_tag f))) [''input'', ''select'', ''textarea'', ''keygen''] \<and>
     to_lower (f_type f) \<notin> {''submit'', ''button'', ''image'', ''reset'', ''file''} \<and>
     (f_checked f \<or> to_lower (f_type f) \<notin> {''checkbox'', ''radio''})"

definition serialize_one :: "bool \<Rightarrow> field \<Rightarrow> (string \<times> jsval) list" where
  "serialize_one check_on f =
     (case jq_val check_on f of
        FNull \<Rightarrow> []
      | FStr v \<Rightarrow> [(f_name f, StrV (crlf v))]
      | FArr vs \<Rightarrow> map (\<lambda>v. (f_name f, StrV (crlf v))) vs)"

definition serializeArray :: "bool \<Rightarrow> field list \<Rightarrow> (string \<times> jsval) list" where
  "serializeArray check_on els = concat (map (serialize_one check_on) (filter submittable els))"

definition serialize :: "bool \<Rightarrow> field list \<Rightarrow> string" where
  "serialize check_on els = param_array (serializeArray check_on els)"

subsection \<open>Field values of the form plug-in\<close>

text \<open>The clicked submit element and, for an image, the coordinates.\<close>

record form =
  controls :: "field list"         \<comment> \<open>all elements inside the form, in document order\<close>
  clk :: "field option"
  clk_x :: jsval
  clk_y :: jsval

definition is_clicked :: "form \<Rightarrow> field \<Rightarrow> bool" where
  "is_clicked fm f = (case clk fm of None \<Rightarrow> False | Some c \<Rightarrow> f_ref c = f_ref f)"

text \<open>\<open>form.elements\<close>: the listed elements of HTML, image buttons left out.\<close>

definition listed :: "field \<Rightarrow> bool" where
  "listed f \<longleftrightarrow> to_lower (f_tag f) \<in> {''button'', ''fieldset'', ''input'', ''object'', ''output'', ''select'', ''textarea''}
     \<and> \<not> (to_lower (f_tag f) = ''input'' \<and> f_type f = ''image'')"

text \<open>The fourth condition of the source looks at the form the element belongs to.\<close>

definition unsuccessful :: "form \<Rightarrow> field \<Rightarrow> bool" where
  "unsuccessful fm f \<longleftrightarrow>
     f_name f = [] \<or> f_disabled f \<or> f_type f = ''reset'' \<or> f_type f = ''button'' \<or>
     (f_type f = ''checkbox'' \<or> f_type f = ''radio'') \<and> \<not> f_checked f \<or>
     (f_type f = ''submit'' \<or> f_type f = ''image'') \<and> \<not> is_clicked fm f \<or>
     to_lower (f_tag f) = ''select'' \<and> f_index f = - 1"

definition op_val :: "opt \<Rightarrow> string" where
  "op_val p = (if o_value p \<noteq> [] then o_value p else if o_unspecified p then o_text p else o_value p)"

definition select_value :: "field \<Rightarrow> fval" where
  "select_value f =
     (let index = f_index f
      in if index < 0 then FNull
         else if f_type f = ''select-one''
         then (case drop (nat index) (f_options f) of
                 op # _ \<Rightarrow> if o_selected op then FStr (op_val op) else FArr []
               | [] \<Rightarrow> FArr [])
         else FArr (map op_val (filter o_selected (f_options f))))"

definition fieldValue :: "bool \<Rightarrow> bool \<Rightarrow> form \<Rightarrow> field \<Rightarrow> fval" where
  "fieldValue check_on successful fm f =
     (if successful \<and> unsuccessful fm f then FNull
      else if to_lower (f_tag f) = ''select'' then select_value f
      else jq_val check_on f)"

text \<open>\<open>$.fn.fieldValue\<close>: the values of the matched fields.\<close>

definition fn_fieldValue :: "bool \<Rightarrow> bool \<Rightarrow> form \<Rightarrow> field list \<Rightarrow> string list" where
  "fn_fieldValue check_on successful fm fs =
     concat (map (\<lambda>f. case fieldValue check_on successful fm f of FNull \<Rightarrow> [] | FStr v \<Rightarrow> [v] | FArr vs \<Rightarrow> vs) fs)"

definition pairs_of :: "string \<Rightarrow> fval \<Rightarrow> (string \<times> jsval) list" where
  "pairs_of n v = (case v of FNull \<Rightarrow> [] | FStr s \<Rightarrow> [(n, StrV s)] | FArr vs \<Rightarrow> map (\<lambda>s. (n, StrV s)) vs)"

definition fval_js :: "fval \<Rightarrow> jsval" where
  "fval_js v = (case v of FNull \<Rightarrow> Null | FStr s \<Rightarrow> StrV s | FArr vs \<Rightarrow> mk_arr (map StrV vs))"

definition image_pairs :: "bool \<Rightarrow> form \<Rightarrow> field \<Rightarrow> (string \<times> jsval) list" where
  "image_pairs check_on fm f =
     [(f_name f, fval_js (jq_val check_on f)), (f_name f @ ''.x'', clk_x fm), (f_name f @ ''.y'', clk_y fm)]"

definition field_pairs :: "bool \<Rightarrow> bool \<Rightarrow> form \<Rightarrow> field \<Rightarrow> (string \<times> jsval) list" where
  "field_pairs check_on semantic fm f =
     (if f_name f = [] then []
      else if semantic \<and> clk fm \<noteq> None \<and> f_type f = ''image''
      then (if \<not> f_disabled f \<and> is_clicked fm f then image_pairs check_on fm f else [])
      else pairs_of (f_name f) (fieldValue check_on True fm f))"

definition formToArray :: "bool \<Rightarrow> bool \<Rightarrow> form list \<Rightarrow> (string \<times> jsval) list" where
  "formToArray check_on semantic matched =
     (case matched of
        [] \<Rightarrow> []
      | fm # _ \<Rightarrow>
          concat (map (field_pairs check_on semantic fm) (if semantic then controls fm else filter listed (controls fm)))
          @ (case clk fm of
               None \<Rightarrow> []
             | Some c \<Rightarrow>
                 if \<not> semantic \<and> f_name c \<noteq> [] \<and> \<not> f_disabled c \<and> f_type c = ''image''
                 then image_pairs check_on fm c else []))"

definition formSerialize :: "bool \<Rightarrow> bool \<Rightarrow> form list \<Rightarrow> string" where
  "formSerialize check_on semantic matched = param_array (formToArray check_on semantic matched)"

definition fieldSerialize :: "bool \<Rightarrow> bool \<Rightarrow> form \<Rightarrow> field list \<Rightarrow> string" where
  "fieldSerialize check_on successful fm fs =
     param_array (concat (map (\<lambda>f. if f_name f = [] then [] else pairs_of (f_name f) (fieldValue check_on successful fm f)) fs))"

subsection \<open>Clearing, resetting and enabling\<close>

definition text_types :: "string list" where
  "text_types = [''color'', ''date'', ''datetime'', ''email'', ''month'', ''number'', ''password'', ''range'', ''search'',
                 ''tel'', ''text'', ''time'', ''url'', ''week'']"

text \<open>Setting \<open>selectedIndex\<close> to -1 deselects every option.\<close>

definition clearField :: "field \<Rightarrow> field" where
  "clearField f =
     (if to_lower (f_type f) \<in> set text_types \<or> to_lower (f_tag f) = ''textarea'' then f\<lparr>f_value := Some []\<rparr>
      else if f_type f = ''checkbox'' \<or> f_type f = ''radio'' then f\<lparr>f_checked := False\<rparr>
      else if to_lower (f_tag f) = ''select''
      then f\<lparr>f_index := - 1, f_options := map (\<lambda>p. p\<lparr>o_selected := False\<rparr>) (f_options f)\<rparr>
      else f)"

definition clearFields :: "field list \<Rightarrow> field list" where
  "clearFields fs = map clearField fs"

definition clearForm :: "form \<Rightarrow> form" where
  "clearForm fm =
     fm\<lparr>controls := map (\<lambda>f. if to_lower (f_tag f) \<in> {''input'', ''select'', ''textarea''} then clearField f else f) (controls fm)\<rparr>"

text \<open>
  \<open>reset_js\<close>: what \<open>form.reset\<close> is (a function, an object without \<open>nodeType\<close> as in Internet
  Explorer, or the control of that name); \<open>initial\<close> the state the browser restores.
\<close>

datatype reset_js = ResetFunction | ResetHostObject | ResetControl

definition resetForm :: "reset_js \<Rightarrow> form \<Rightarrow> form \<Rightarrow> form" where
  "resetForm r initial fm = (if r = ResetFunction \<or> r = ResetHostObject then fm\<lparr>controls := controls initial\<rparr> else fm)"

definition enable_field :: "bool \<Rightarrow> field \<Rightarrow> field" where
  "enable_field b f = f\<lparr>f_disabled := \<not> b\<rparr>"

text \<open>\<open>selected\<close> on a check box or radio button, and on the option \<open>k\<close> of a list.\<close>

definition select_checkable :: "bool \<Rightarrow> field \<Rightarrow> field" where
  "select_checkable sel f = (if f_type f = ''checkbox'' \<or> f_type f = ''radio'' then f\<lparr>f_checked := sel\<rparr> else f)"

text \<open>\<open>selectedIndex\<close> follows the options; the list shows more than one row, so none need be selected.\<close>

definition first_selected :: "opt list \<Rightarrow> int" where
  "first_selected ops = (case filter (\<lambda>j. o_selected (ops ! j)) [0 ..< length ops] of [] \<Rightarrow> - 1 | j # _ \<Rightarrow> int j)"

definition set_options :: "opt list \<Rightarrow> field \<Rightarrow> field" where
  "set_options ops f = f\<lparr>f_options := ops, f_index := first_selected ops\<rparr>"

definition select_option :: "bool \<Rightarrow> nat \<Rightarrow> field \<Rightarrow> field" where
  "select_option sel k f =
     (let ops = (if sel \<and> f_type f = ''select-one'' then map (\<lambda>p. p\<lparr>o_selected := False\<rparr>) (f_options f) else f_options f)
      in if k < length ops then set_options (ops[k := (ops ! k)\<lparr>o_selected := sel\<rparr>]) f else f)"

subsection \<open>Reading a query text back\<close>

lemma plus_spaces_cons: "a \<noteq> CHR ''%'' \<Longrightarrow> plus_spaces (a # s) = a # plus_spaces s"
  by (cases s rule: plus_spaces.cases) auto

lemma plus_spaces_sep:
  assumes "c \<noteq> CHR ''%''" "c \<noteq> CHR ''2''" "c \<noteq> CHR ''0''"
  shows "plus_spaces (x @ c # y) = plus_spaces x @ c # plus_spaces y"
proof (induction x rule: plus_spaces.induct[case_names more none one two])
  case (more a b d s)
  then show ?case by simp
next
  case (two a b)
  have "plus_spaces (a # b # c # y) = a # plus_spaces (b # c # y)" using assms by simp
  also have "plus_spaces (b # c # y) = b # plus_spaces (c # y)" using assms by (cases y) auto
  finally show ?case using assms by (simp add: plus_spaces_cons)
next
  case (one a)
  have "plus_spaces (a # c # y) = a # plus_spaces (c # y)" using assms by (cases y) auto
  then show ?case using assms by (simp add: plus_spaces_cons)
qed (use assms in \<open>simp add: plus_spaces_cons\<close>)

lemma percent_blank: "percent CHR '' '' = ''%20''"
  by code_simp

lemma percent_space: "percent c = ''%20'' \<longleftrightarrow> c = CHR '' ''"
proof
  assume "percent c = ''%20''"
  then have "percent_decode (percent c) = percent_decode ''%20''" by simp
  moreover have "char_of (32 :: int) = CHR '' ''" by code_simp
  ultimately show "c = CHR '' ''" using decode_percent[of c "[]"] by (simp add: hex_digit_def is_digit_def digit_val_def)
qed (simp add: percent_blank)

lemma percent_chars: "d \<in> set (percent c) \<Longrightarrow> unreserved d \<or> d = CHR ''%''"
  using byte_range[of c] hex_upper_unreserved[of "of_char c div 16"] hex_upper_unreserved[of "of_char c mod 16"]
  by (auto simp: percent_def)

definition plus_escape :: "char \<Rightarrow> string" where
  "plus_escape c = (if c = CHR '' '' then ''+'' else if unreserved c then [c] else percent c)"

lemma plus_spaces_escape: "plus_spaces (uri_escape s) = concat (map plus_escape s)"
proof (induction s)
  case (Cons c s)
  let ?r = "uri_escape s"
  show ?case
  proof (cases "unreserved c")
    case True
    then have "c \<noteq> CHR ''%''" "c \<noteq> CHR '' ''" by (auto simp: unreserved_def)
    then show ?thesis using Cons True by (simp add: uri_escape_def plus_spaces_cons plus_escape_def)
  next
    case False
    obtain h1 h2 where p: "percent c = [CHR ''%'', h1, h2]" by (simp add: percent_def)
    have "unreserved h1" "unreserved h2"
      using p byte_range[of c] hex_upper_unreserved[of "of_char c div 16"] hex_upper_unreserved[of "of_char c mod 16"]
      by (auto simp: percent_def)
    then have h: "h1 \<noteq> CHR ''%''" "h2 \<noteq> CHR ''%''" by (auto simp: unreserved_def)
    have "plus_spaces (percent c @ ?r) = (if c = CHR '' '' then ''+'' else percent c) @ plus_spaces ?r"
      using percent_space[of c] h unfolding p by (auto simp: plus_spaces_cons)
    then show ?thesis using Cons False by (simp add: uri_escape_def plus_escape_def)
  qed
qed (simp add: uri_escape_def)

text \<open>What a server does with a field of a query: \<open>+\<close> is a blank, then the escapes are decoded.\<close>

definition form_decode :: "string \<Rightarrow> string" where
  "form_decode t = percent_decode (map (\<lambda>c. if c = CHR ''+'' then CHR '' '' else c) t)"

lemma plus_escape_chars: "c \<in> set (plus_escape d) \<Longrightarrow> unreserved c \<or> c = CHR ''%'' \<or> c = CHR ''+''"
  using uri_escape_chars[of c "[d]"] by (auto simp: plus_escape_def uri_escape_def split: if_splits)

lemma form_decode_escape: "form_decode (concat (map plus_escape s)) = s"
proof (induction s)
  case (Cons c s)
  let ?b = "map (\<lambda>c. if c = CHR ''+'' then CHR '' '' else c)"
  let ?r = "?b (concat (map plus_escape s))"
  have keep: "?b t = t" if "CHR ''+'' \<notin> set t" for t using that by (induction t) auto
  have plus: "\<not> unreserved (CHR ''+'')" by (simp add: unreserved_def)
  then have "CHR ''+'' \<notin> set (percent c)" using percent_chars by blast
  then have pc: "?b (percent c) = percent c" by (rule keep)
  have "percent_decode (?b (plus_escape c) @ ?r) = c # percent_decode ?r"
  proof (cases "c = CHR '' ''")
    case True
    then show ?thesis using decode_plain[of c ?r] by (simp add: plus_escape_def)
  next
    case blank: False
    show ?thesis
    proof (cases "unreserved c")
      case True
      then have "c \<noteq> CHR ''+''" using plus by metis
      then show ?thesis using blank True decode_plain[of c ?r] percent_not_unreserved[OF True] by (simp add: plus_escape_def)
    next
      case False
      then show ?thesis using blank decode_percent[of c ?r] pc by (simp add: plus_escape_def)
    qed
  qed
  then show ?case using Cons by (simp add: form_decode_def)
qed (simp add: form_decode_def)

definition split_pair :: "string \<Rightarrow> string \<times> string" where
  "split_pair t = (form_decode (takeWhile (\<lambda>c. c \<noteq> CHR ''='') t), form_decode (drop 1 (dropWhile (\<lambda>c. c \<noteq> CHR ''='') t)))"

definition read_query :: "string \<Rightarrow> (string \<times> string) list" where
  "read_query q = map split_pair (split_on CHR ''&'' q)"

definition value_text :: "jsval \<Rightarrow> string" where
  "value_text v = (if v = Undef \<or> v = Null then [] else to_str v)"

definition plus_pair :: "string \<times> jsval \<Rightarrow> string" where
  "plus_pair kv = concat (map plus_escape (fst kv)) @ ''='' @ concat (map plus_escape (value_text (snd kv)))"

lemma plus_spaces_pair: "plus_spaces (param_pair kv) = plus_pair kv"
  using plus_spaces_sep[of "CHR ''=''" "uri_escape (fst kv)" "uri_escape (value_text (snd kv))"]
  by (simp add: param_pair_def plus_pair_def value_text_def plus_spaces_escape)

lemma plus_spaces_join: "plus_spaces (join_with ''&'' (map param_pair a)) = join_with ''&'' (map plus_pair a)"
proof (induction a rule: induct_list012)
  case (3 x y zs)
  then show ?case
    using plus_spaces_sep[of "CHR ''&''" "param_pair x" "join_with ''&'' (map param_pair (y # zs))"]
    by (simp add: plus_spaces_pair)
qed (simp_all add: plus_spaces_pair)

lemma plus_escape_no: 
  assumes "c \<in> {CHR ''&'', CHR ''=''}" shows "c \<notin> set (concat (map plus_escape s))"
proof
  assume "c \<in> set (concat (map plus_escape s))"
  then obtain d where "c \<in> set (plus_escape d)" by auto
  then have "unreserved c \<or> c = CHR ''%'' \<or> c = CHR ''+''" by (rule plus_escape_chars)
  then show False using assms by (auto simp: unreserved_def)
qed

lemma split_pair_plus: "split_pair (plus_pair kv) = (fst kv, value_text (snd kv))"
proof -
  let ?k = "concat (map plus_escape (fst kv))" and ?v = "concat (map plus_escape (value_text (snd kv)))"
  have "takeWhile (\<lambda>c. c \<noteq> CHR ''='') (?k @ ''='' @ ?v) = ?k" "dropWhile (\<lambda>c. c \<noteq> CHR ''='') (?k @ ''='' @ ?v) = ''='' @ ?v"
    using plus_escape_no[of "CHR ''=''" "fst kv"]
    by (auto intro!: takeWhile_append_stop dropWhile_append_stop)
  then show ?thesis unfolding split_pair_def plus_pair_def by (simp add: form_decode_escape)
qed

lemma split_join_pairs: "a \<noteq> [] \<Longrightarrow> split_on CHR ''&'' (join_with ''&'' (map plus_pair a)) = map plus_pair a"
proof (induction a rule: induct_list012)
  case (2 x)
  then show ?case using plus_escape_no[of "CHR ''&''"] by (simp add: split_on_no_sep plus_pair_def)
next
  case (3 x y zs)
  have "CHR ''&'' \<notin> set (plus_pair x)" using plus_escape_no[of "CHR ''&''"] by (simp add: plus_pair_def)
  then show ?case using 3 by (simp add: split_on_append)
qed simp

lemma read_param_array: "a \<noteq> [] \<Longrightarrow> read_query (param_array a) = map (\<lambda>(k, v). (k, value_text v)) a"
  by (simp add: read_query_def param_array_def plus_spaces_join split_join_pairs split_pair_plus comp_def case_prod_beta)

text \<open>
  C27: A serialized form is read back: a server that splits the query text at the ampersands and equal
  signs and decodes the parts gets exactly the names and values of the successful controls, in order.
\<close>

theorem formSerialize_reads_back:
  assumes "formToArray check_on semantic fms \<noteq> []"
  shows "read_query (formSerialize check_on semantic fms) =
    map (\<lambda>(k, v). (k, value_text v)) (formToArray check_on semantic fms)"
  unfolding formSerialize_def by (rule read_param_array[OF assms])

abbreviation text_field :: "nat \<Rightarrow> string \<Rightarrow> string \<Rightarrow> field" where
  "text_field r n v \<equiv> \<lparr>f_ref = r, f_name = n, f_type = ''text'', f_tag = ''INPUT'', f_disabled = False, f_checked = False,
     f_value = Some v, f_value_attr = True, f_index = - 1, f_options = []\<rparr>"

abbreviation demo_form :: form where
  "demo_form \<equiv> \<lparr>controls = [text_field 1 ''name'' ''A & B'', text_field 2 ''x=y'' ''1+1'', (text_field 3 ''off'' ''z'')\<lparr>f_disabled := True\<rparr>],
     clk = None, clk_x = Undef, clk_y = Undef\<rparr>"

theorem formSerialize_reads_back_witness:
  "read_query (formSerialize True False [demo_form]) = [(''name'', ''A & B''), (''x=y'', ''1+1'')]"
proof -
  have arr: "formToArray True False [demo_form] = [(''name'', StrV ''A & B''), (''x=y'', StrV ''1+1'')]" by code_simp
  then show ?thesis using formSerialize_reads_back[of True False "[demo_form]"] by (simp add: value_text_def)
qed

end
