(* ===== verification/Form_Submit.thy ===== *)
theory Form_Submit
  imports Form_Fields
begin

text \<open>
  \<open>ajaxSubmit\<close> of the form plug-in \<open>jquery.form.js\<close>: what is sent and how, and the callbacks that
  run on success. Callbacks and event handlers of the page are named; the ones that can stop a
  submission are given by what they return.
\<close>

subsection \<open>Options\<close>

record submit_opts =
  opt_url :: "string option"
  opt_success :: "string option"
  opt_type :: "string option"
  opt_data :: "(string \<times> jsval) list option"
  opt_semantic :: bool
  before_serialize :: "bool option"     \<comment> \<open>what \<open>beforeSerialize\<close> returns; \<open>Some False\<close> stops\<close>
  before_submit :: "bool option"
  opt_resetForm :: bool
  opt_clearForm :: bool
  opt_dataType :: string
  opt_target :: string
  opt_replaceTarget :: bool
  opt_iframe :: "bool option"
  opt_iframeSrc :: "string option"
  opt_closeKeepAlive :: string

text \<open>What the submission reads of the page: attributes of the form, location, vetoes of the two events.\<close>

record page_env =
  form_method :: "string option"
  form_action :: "string option"
  form_enctype :: "string option"
  form_encoding :: "string option"
  href :: string
  default_success :: "string option"    \<comment> \<open>\<open>$.ajaxSettings.success\<close>\<close>
  veto_serialize :: bool
  veto_validate :: bool
  browser_msie :: "bool option"         \<comment> \<open>\<open>$.browser.msie\<close>; \<open>None\<close> where \<open>$.browser\<close> is not defined\<close>
  raw_method :: "string option"         \<comment> \<open>\<open>getAttribute('method')\<close>\<close>

text \<open>\<open>url.match(/^([^#]+)/)\<close>, \<open>None\<close> for \<open>undefined\<close>.\<close>

definition before_hash :: "string \<Rightarrow> string option" where
  "before_hash url = (let t = takeWhile (\<lambda>c. c \<noteq> CHR ''#'') url in if t = [] then None else Some t)"

definition base_url :: "page_env \<Rightarrow> string option" where
  "base_url pg =
     (let u = (case form_action pg of Some a \<Rightarrow> trim a | None \<Rightarrow> []);
          u1 = (if u \<noteq> [] then u else href pg)
      in if u1 \<noteq> [] then before_hash u1 else Some [])"

definition is_https :: "string \<Rightarrow> bool" where
  "is_https h = prefix ''https'' (to_lower h)"

text \<open>The options after the defaults are filled in.\<close>

definition with_defaults :: "page_env \<Rightarrow> submit_opts \<Rightarrow> submit_opts" where
  "with_defaults pg op =
     op\<lparr>opt_url := (case opt_url op of Some u \<Rightarrow> Some u | None \<Rightarrow> base_url pg),
        opt_success := (case opt_success op of Some f \<Rightarrow> Some f | None \<Rightarrow> default_success pg),
        opt_type := Some (case opt_type op of Some t \<Rightarrow> t
                          | None \<Rightarrow> (case form_method pg of Some m \<Rightarrow> if m \<noteq> [] then m else ''GET'' | None \<Rightarrow> ''GET'')),
        opt_iframeSrc := Some (case opt_iframeSrc op of Some x \<Rightarrow> x
                               | None \<Rightarrow> if is_https (href pg) then ''javascript:false'' else ''about:blank'')\<rparr>"

text \<open>The pairs for \<open>options.data\<close>: an array gives one pair per item.\<close>

definition extra_pairs :: "(string \<times> jsval) list option \<Rightarrow> (string \<times> jsval) list" where
  "extra_pairs d =
     (case d of
        None \<Rightarrow> []
      | Some ps \<Rightarrow> concat (map (\<lambda>(n, v). if isArray v then map (\<lambda>(k, w). (n, w)) (own_props v) else [(n, v)]) ps))"

subsection \<open>What is sent\<close>

datatype success_cb = ResetCb | ClearCb | LoadCb string bool "string option" | PageCb string

datatype sent_by = ByAjax | ByUpload | ByKeepAlive string

record sent =
  s_url :: "string option"
  s_type :: string
  s_data :: "string option"
  s_callbacks :: "success_cb list"
  s_by :: sent_by
  s_pairs :: "(string \<times> jsval) list"

datatype submit_result = NothingSelected | Vetoed string | Stopped string | Sent sent

definition success_callbacks :: "submit_opts \<Rightarrow> success_cb list" where
  "success_callbacks op =
     (if opt_resetForm op then [ResetCb] else []) @
     (if opt_clearForm op then [ClearCb] else []) @
     (if opt_dataType op = [] \<and> opt_target op \<noteq> [] then [LoadCb (opt_target op) (opt_replaceTarget op) (opt_success op)]
      else case opt_success op of Some f \<Rightarrow> [PageCb f] | None \<Rightarrow> [])"

definition is_multipart :: "page_env \<Rightarrow> bool" where
  "is_multipart pg \<longleftrightarrow> form_enctype pg = Some ''multipart/form-data'' \<or> form_encoding pg = Some ''multipart/form-data''"

text \<open>\<open>$('input:file', this)\<close> searches every selected form.\<close>

definition file_inputs :: "form list \<Rightarrow> bool" where
  "file_inputs fms =
     list_ex (\<lambda>fm. list_ex (\<lambda>f. to_lower (f_tag f) = ''input'' \<and> f_type f = ''file'') (controls fm)) fms"

definition send_mode :: "page_env \<Rightarrow> form list \<Rightarrow> submit_opts \<Rightarrow> sent_by" where
  "send_mode pg fms op =
     (if opt_iframe op \<noteq> Some False \<and> (file_inputs fms \<or> opt_iframe op = Some True \<or> is_multipart pg)
      then (if opt_closeKeepAlive op \<noteq> [] then ByKeepAlive (opt_closeKeepAlive op) else ByUpload)
      else ByAjax)"

text \<open>The address and the body for the query text \<open>q\<close>.\<close>

definition url_and_data :: "submit_opts \<Rightarrow> string \<Rightarrow> (string option \<times> string option) result" where
  "url_and_data op q =
     (if to_upper (the (opt_type op)) = ''GET''
      then (case opt_url op of
              None \<Rightarrow> Inl TypeError
            | Some u \<Rightarrow> Inr (Some (u @ (if 0 \<le> index_of u ''?'' then ''&'' else ''?'') @ q), None))
      else Inr (opt_url op, Some q))"

text \<open>
  The method of the request. Without the upload frame \<open>$.browser.msie\<close> is read, which throws where
  jQuery has no \<open>$.browser\<close>.
\<close>

definition sent_type :: "page_env \<Rightarrow> submit_opts \<Rightarrow> sent_by \<Rightarrow> string result" where
  "sent_type pg op md =
     (if md \<noteq> ByAjax then Inr (the (opt_type op))
      else case browser_msie pg of
             None \<Rightarrow> Inl TypeError
           | Some ie \<Rightarrow>
               Inr (if ie \<and> form_method pg = Some ''get'' \<and> raw_method pg \<noteq> None then the (raw_method pg)
                    else the (opt_type op)))"

definition ajaxSubmit :: "bool \<Rightarrow> page_env \<Rightarrow> submit_opts \<Rightarrow> form list \<Rightarrow> submit_result result" where
  "ajaxSubmit check_on pg op0 matched =
     (case matched of
        [] \<Rightarrow> Inr NothingSelected
      | fm # _ \<Rightarrow>
          let op = with_defaults pg op0
          in if veto_serialize pg then Inr (Vetoed ''form-pre-serialize'')
             else if before_serialize op = Some False then Inr (Stopped ''beforeSerialize'')
             else
               let a = formToArray check_on (opt_semantic op) matched @ extra_pairs (opt_data op)
               in if before_submit op = Some False then Inr (Stopped ''beforeSubmit'')
                  else if veto_validate pg then Inr (Vetoed ''form-submit-validate'')
                  else rbind (url_and_data op (param_array a)) (\<lambda>(u, d).
                    let md = send_mode pg matched op
                    in rbind (sent_type pg op md) (\<lambda>t.
                         Inr (Sent \<lparr>s_url = u, s_type = t, s_data = d,
                                    s_callbacks = success_callbacks op, s_by = md, s_pairs = a\<rparr>))))"

text \<open>\<open>options.success\<close>: the callbacks in the order they were collected.\<close>

datatype page_effect = DoReset | DoClear | DoLoad string bool string "string option" | DoCall string string

definition run_callback :: "string \<Rightarrow> success_cb \<Rightarrow> page_effect" where
  "run_callback data cb =
     (case cb of
        ResetCb \<Rightarrow> DoReset
      | ClearCb \<Rightarrow> DoClear
      | LoadCb tgt repl old \<Rightarrow> DoLoad tgt repl data old
      | PageCb f \<Rightarrow> DoCall f data)"

definition run_success :: "sent \<Rightarrow> string \<Rightarrow> page_effect list" where
  "run_success sn data = map (run_callback data) (s_callbacks sn)"

subsection \<open>ajaxForm\<close>

text \<open>
  The click handler: \<open>target\<close> is the clicked element, \<open>closest\<close> the submit element around it, if
  any; \<open>offset\<close> are the coordinates of the event relative to the element where the browser gives them,
  \<open>paged\<close> those computed from the page position.
\<close>

definition is_submitter :: "field \<Rightarrow> bool" where
  "is_submitter f \<longleftrightarrow>
     (to_lower (f_tag f) \<in> {''input'', ''button''} \<and> f_type f = ''submit'') \<or> (to_lower (f_tag f) = ''input'' \<and> f_type f = ''image'')"

definition click_handler ::
  "field \<Rightarrow> field option \<Rightarrow> (jsval \<times> jsval) option \<Rightarrow> jsval \<times> jsval \<Rightarrow> form \<Rightarrow> form" where
  "click_handler tgt clos offset paged fm =
     (case (if is_submitter tgt then Some tgt else clos) of
        None \<Rightarrow> fm
      | Some t \<Rightarrow>
          let fm1 = fm\<lparr>clk := Some t\<rparr>
          in if f_type t = ''image''
             then (case offset of Some (x, y) \<Rightarrow> fm1\<lparr>clk_x := x, clk_y := y\<rparr>
                   | None \<Rightarrow> fm1\<lparr>clk_x := fst paged, clk_y := snd paged\<rparr>)
             else fm1)"

text \<open>The timer that forgets the click.\<close>

definition clear_click :: "form \<Rightarrow> form" where
  "clear_click fm = fm\<lparr>clk := None, clk_x := Null, clk_y := Null\<rparr>"

text \<open>The submit handler: \<open>prevented\<close> if another handler has cancelled the event.\<close>

definition submit_handler :: "bool \<Rightarrow> bool \<Rightarrow> page_env \<Rightarrow> submit_opts \<Rightarrow> form \<Rightarrow> submit_result option result" where
  "submit_handler prevented check_on pg op fm =
     (if prevented then Inr None else rbind (ajaxSubmit check_on pg op [fm]) (\<lambda>r. Inr (Some r)))"

datatype bind_result = Queued | NoForm | Bound "string list"

definition ajaxFormUnbind :: "string list \<Rightarrow> string list" where
  "ajaxFormUnbind bound = filter (\<lambda>h. h \<notin> {''submit.form-plugin'', ''click.form-plugin''}) bound"

text \<open>\<open>ready\<close>: the document is ready; \<open>selector\<close> the selector the empty set was made with.\<close>

definition ajaxForm :: "bool \<Rightarrow> string \<Rightarrow> nat \<Rightarrow> string list \<Rightarrow> bind_result" where
  "ajaxForm ready selector n bound =
     (if n = 0 then (if \<not> ready \<and> selector \<noteq> [] then Queued else NoForm)
      else Bound (ajaxFormUnbind bound @ [''submit.form-plugin'', ''click.form-plugin'']))"

subsection \<open>Laws\<close>

lemma with_defaults_keeps [simp]:
  "opt_semantic (with_defaults pg op) = opt_semantic op" "opt_data (with_defaults pg op) = opt_data op"
  "opt_iframe (with_defaults pg op) = opt_iframe op" "before_submit (with_defaults pg op) = before_submit op"
  "before_serialize (with_defaults pg op) = before_serialize op"
  by (simp_all add: with_defaults_def)

lemma ajaxSubmit_Sent:
  assumes "ajaxSubmit check_on pg op (fm # fms) = Inr (Sent sn)"
  shows "s_pairs sn = formToArray check_on (opt_semantic op) (fm # fms) @ extra_pairs (opt_data op) \<and>
    url_and_data (with_defaults pg op) (param_array (s_pairs sn)) = Inr (s_url sn, s_data sn) \<and>
    s_by sn = send_mode pg (fm # fms) (with_defaults pg op)"
  using assms by (auto simp: ajaxSubmit_def Let_def rbind_Inr_iff split: if_splits)

lemma url_and_data_cases:
  assumes "url_and_data op q = Inr (u, d)"
  shows "(d = Some q \<and> u = opt_url op) \<or> (\<exists>u0 sep. d = None \<and> opt_url op = Some u0 \<and> sep \<in> {''?'', ''&''} \<and> u = Some (u0 @ sep @ q))"
  using assms by (auto simp: url_and_data_def split: if_splits option.splits)


abbreviation demo_opts :: submit_opts where
  "demo_opts \<equiv> \<lparr>opt_url = None, opt_success = Some ''done'', opt_type = Some ''post'', opt_data = Some [(''k'', StrV ''v'')],
     opt_semantic = False, before_serialize = None, before_submit = Some True, opt_resetForm = True, opt_clearForm = False,
     opt_dataType = [], opt_target = [], opt_replaceTarget = False, opt_iframe = None, opt_iframeSrc = None,
     opt_closeKeepAlive = []\<rparr>"

abbreviation demo_page :: page_env where
  "demo_page \<equiv> \<lparr>form_method = None, form_action = Some '' /save#top '', form_enctype = None, form_encoding = None,
     href = ''http://h/'', default_success = None, veto_serialize = False, veto_validate = False,
     browser_msie = Some False, raw_method = None\<rparr>"


text \<open>
  C29: Where jQuery has no \<open>$.browser\<close>, as from version 1.9 on, a submission that is not
  stopped and does not use the upload frame throws instead of being sent.
\<close>

theorem ajaxSubmit_needs_browser:
  assumes "browser_msie pg = None" and "\<not> veto_serialize pg" and "\<not> veto_validate pg"
    and "before_serialize op \<noteq> Some False" and "before_submit op \<noteq> Some False"
    and "send_mode pg (fm # fms) (with_defaults pg op) = ByAjax"
  shows "ajaxSubmit check_on pg op (fm # fms) = Inl TypeError"
  using assms by (auto simp: ajaxSubmit_def Let_def sent_type_def url_and_data_def split: option.splits)

theorem ajaxSubmit_needs_browser_witness:
  "ajaxSubmit True (demo_page\<lparr>browser_msie := None\<rparr>) demo_opts [demo_form] = Inl TypeError"
proof -
  have "send_mode (demo_page\<lparr>browser_msie := None\<rparr>) [demo_form] (with_defaults (demo_page\<lparr>browser_msie := None\<rparr>) demo_opts) = ByAjax"
    by code_simp
  then show ?thesis using ajaxSubmit_needs_browser[of "demo_page\<lparr>browser_msie := None\<rparr>" demo_opts demo_form "[]"] by simp
qed

end
