(* ===== verification/Form_Upload.thy ===== *)
theory Form_Upload
  imports Form_Submit Runs
begin

text \<open>
  \<open>fileUpload\<close> of \<open>jquery.form.js\<close>: a submission through a hidden frame, with a mock request object.
  The state is that of the closure; the events are its timers, the load event of the frame and
  calls of \<open>abort\<close>. The content of the frame at an event is given with the event.
\<close>

subsection \<open>The frame\<close>

record el_view =
  el_html :: string
  el_status :: "string option"          \<comment> \<open>the attribute \<open>status\<close>\<close>
  el_statusText :: "string option"
  el_node :: string

record frame_doc =
  fd_ready :: "string option"
  fd_href :: string
  fd_XMLDocument :: "string option option"   \<comment> \<open>the name of its root element, if it has one\<close>
  fd_isXML :: bool
  fd_body :: "el_view option"
  fd_docElement :: "el_view option"
  fd_textarea :: "el_view option"       \<comment> \<open>its \<open>value\<close> in place of the HTML\<close>
  fd_pre :: "(string \<times> string) option" \<comment> \<open>\<open>textContent\<close> and \<open>innerHTML\<close>\<close>
  fd_b :: "string option"               \<comment> \<open>the HTML of the first \<open>body\<close> element\<close>

text \<open>What \<open>getDoc\<close> gives: it throws, there is no document, or a document.\<close>

datatype frame_view = Blocked | NoDoc | Doc frame_doc

definition getDoc :: "frame_view \<Rightarrow> frame_doc option result" where
  "getDoc fv = (case fv of Blocked \<Rightarrow> Inl TypeError | NoDoc \<Rightarrow> Inr None | Doc d \<Rightarrow> Inr (Some d))"

subsection \<open>State\<close>

record up_opts =
  u_url :: "string option"
  u_method :: "string option"           \<comment> \<open>the \<open>method\<close> attribute read by \<open>ajaxSubmit\<close>\<close>
  u_global :: bool
  u_success :: bool
  u_error :: bool
  u_complete :: bool
  u_beforeSend :: "(bool \<times> bool) option"  \<comment> \<open>it aborts the request; it returns \<open>false\<close>\<close>
  u_dataFilter :: bool
  u_textarea :: bool
  u_timeout :: bool
  u_forceSync :: bool
  u_skipEncodingOverride :: bool
  u_iframeTarget :: "string option option" \<comment> \<open>the given frame's name, if a frame is given\<close>
  u_iframeSrc :: string
  u_opera :: bool

record form_attrs =
  at_target :: "string option"
  at_action :: "string option"
  at_method :: "string option"
  at_enctype :: "string option"
  at_encoding :: "string option"

datatype payload = PNull | PText string | PXml "string option" | PJson jsval

datatype why = Msg string | Thrown jserr | NoReason

datatype up_effect =
    UAlert | UTrigger string | UError string why | USuccess payload | UComplete "string option"
  | USubmit form_attrs "(string \<times> string) list" | USrc string | UEval string

datatype timer = TSubmit | TTimeout | TCheck | TRequeue | TCleanup

record upload =
  form_at :: form_attrs
  frame_id :: string
  frame_shown :: bool
  listening :: bool
  timers :: "timer list"
  active :: int                         \<comment> \<open>\<open>$.active\<close>\<close>
  aborted :: bool
  processed :: bool                     \<comment> \<open>\<open>callbackProcessed\<close>\<close>
  timedOut :: bool
  domCheckCount :: int
  dataType :: string
  extraData :: "(string \<times> jsval) list option"
  x_text :: "string option"
  x_xml :: "string option option"       \<comment> \<open>the root name of \<open>responseXML\<close>\<close>
  x_status :: jsnum
  x_statusText :: string
  x_error :: "why option"
  effects :: "up_effect list"

definition emit :: "up_effect list \<Rightarrow> upload \<Rightarrow> upload" where
  "emit es s = s\<lparr>effects := effects s @ es\<rparr>"

definition when_on :: "bool \<Rightarrow> up_effect \<Rightarrow> up_effect list" where
  "when_on b e = (if b then [e] else [])"

definition set_timer :: "timer \<Rightarrow> upload \<Rightarrow> upload" where
  "set_timer t s = s\<lparr>timers := timers s @ [t]\<rparr>"

definition clear_timer :: "timer \<Rightarrow> upload \<Rightarrow> upload" where
  "clear_timer t s = s\<lparr>timers := removeAll t (timers s)\<rparr>"

subsection \<open>The mock request\<close>

text \<open>\<open>xhr.abort(status)\<close>; \<open>None\<close> is a call without argument.\<close>

definition abort_upload :: "up_opts \<Rightarrow> string option \<Rightarrow> upload \<Rightarrow> upload" where
  "abort_upload u status s =
     (let e = (if status = Some ''timeout'' then ''timeout'' else ''aborted'')
      in emit ([USrc (u_iframeSrc u)] @
               when_on (u_error u) (UError e (case status of Some m \<Rightarrow> Msg m | None \<Rightarrow> NoReason)) @
               when_on (u_global u) (UTrigger ''ajaxError'') @
               when_on (u_complete u) (UComplete (Some e)))
           (s\<lparr>aborted := True, x_error := Some (Msg e)\<rparr>))"

subsection \<open>Start\<close>

definition submit_blocks :: "field \<Rightarrow> bool" where
  "submit_blocks f \<longleftrightarrow>
     to_lower (f_tag f) \<in> {''input'', ''select'', ''textarea'', ''button''} \<and> f_name f = ''submit''"

text \<open>Every serialized control is enabled again; \<open>form[name]\<close> are the controls of that name.\<close>

definition reenable_field :: "(string \<times> jsval) list \<Rightarrow> field \<Rightarrow> field" where
  "reenable_field a f = (if f_name f \<in> set (map fst a) then f\<lparr>f_disabled := False\<rparr> else f)"

definition reenable :: "(string \<times> jsval) list \<Rightarrow> form \<Rightarrow> form" where
  "reenable a fm = fm\<lparr>controls := map (reenable_field a) (controls fm), clk := map_option (reenable_field a) (clk fm)\<rparr>"

text \<open>The submitting element is added to the extra data.\<close>

definition with_clicked :: "form \<Rightarrow> (string \<times> jsval) list option \<Rightarrow> (string \<times> jsval) list option" where
  "with_clicked fm ex =
     (case clk fm of
        None \<Rightarrow> ex
      | Some sub \<Rightarrow>
          let n = f_name sub
          in if n \<noteq> [] \<and> \<not> f_disabled sub
             then (let e1 = put_prop n (StrV (case f_value sub of Some v \<Rightarrow> v | None \<Rightarrow> [])) (case ex of Some ps \<Rightarrow> ps | None \<Rightarrow> [])
                   in Some (if f_type sub = ''image''
                            then put_prop (n @ ''.y'') (clk_y fm) (put_prop (n @ ''.x'') (clk_x fm) e1) else e1))
             else ex)"

definition extra_inputs :: "upload \<Rightarrow> (string \<times> string) list" where
  "extra_inputs s = (case extraData s of None \<Rightarrow> [] | Some ps \<Rightarrow> map (\<lambda>(n, v). (n, value_text v)) ps)"

definition js_text :: "string option \<Rightarrow> string" where
  "js_text v = (case v of Some t \<Rightarrow> t | None \<Rightarrow> ''undefined'')"

text \<open>The attributes of the form while it is submitted.\<close>

definition submit_attrs :: "up_opts \<Rightarrow> string \<Rightarrow> form_attrs \<Rightarrow> form_attrs" where
  "submit_attrs u ident fa =
     (let no_method = (case u_method u of Some m \<Rightarrow> m = [] | None \<Rightarrow> True);
          f1 = fa\<lparr>at_target := Some ident\<rparr>;
          f2 = (if no_method then f1\<lparr>at_method := Some ''POST''\<rparr> else f1);
          f3 = (if at_action fa \<noteq> u_url u then f2\<lparr>at_action := Some (js_text (u_url u))\<rparr> else f2)
      in if \<not> u_skipEncodingOverride u \<and> (no_method \<or> 0 \<le> index_of (to_lower (the (u_method u))) ''post'')
         then f3\<lparr>at_encoding := Some ''multipart/form-data'', at_enctype := Some ''multipart/form-data''\<rparr>
         else f3)"

text \<open>The attributes after the \<open>finally\<close> block, given those before \<open>doSubmit\<close> and those during it.\<close>

definition restore_attrs :: "form_attrs \<Rightarrow> form_attrs \<Rightarrow> form_attrs" where
  "restore_attrs old fa =
     fa\<lparr>at_action := Some (js_text (at_action old)),
        at_target := (case at_target old of Some t \<Rightarrow> if t \<noteq> [] then Some t else None | None \<Rightarrow> None)\<rparr>"

definition doSubmit :: "up_opts \<Rightarrow> upload \<Rightarrow> upload" where
  "doSubmit u s =
     (let old = form_at s;
          during = submit_attrs u (frame_id s) old;
          s1 = (if u_timeout u then set_timer TTimeout s else s);
          s2 = (if u_iframeTarget u = None then s1\<lparr>frame_shown := True, listening := True\<rparr> else s1);
          s3 = emit [USubmit during (extra_inputs s)] (set_timer TCheck s2)
      in s3\<lparr>form_at := restore_attrs old during\<rparr>)"

text \<open>
  \<open>fileUpload\<close> up to the point where it returns: \<open>now\<close> the clock, \<open>act\<close> the value of \<open>$.active\<close>,
  \<open>fa\<close> the attributes of the form, \<open>has_submit_id\<close> whether an input has the id \<open>submit\<close>, \<open>a\<close> the serialized pairs.
\<close>

definition init_upload :: "up_opts \<Rightarrow> string \<Rightarrow> string \<Rightarrow> (string \<times> jsval) list option \<Rightarrow> form_attrs \<Rightarrow> int \<Rightarrow> upload" where
  "init_upload u now dt ex fa act =
     \<lparr>form_at = fa,
      frame_id = (case u_iframeTarget u of Some (Some n) \<Rightarrow> n | _ \<Rightarrow> ''jqFormIO'' @ now),
      frame_shown = (u_iframeTarget u \<noteq> None), listening = False, timers = [], active = act,
      aborted = False, processed = False, timedOut = False, domCheckCount = 50, dataType = dt, extraData = ex,
      x_text = None, x_xml = None, x_status = Fin 0, x_statusText = ''n/a'', x_error = None, effects = []\<rparr>"

definition send_events :: "up_opts \<Rightarrow> upload \<Rightarrow> upload" where
  "send_events u s =
     (if u_global u
      then emit (when_on (active s = 0) (UTrigger ''ajaxStart'') @ [UTrigger ''ajaxSend'']) (s\<lparr>active := active s + 1\<rparr>)
      else s)"

definition fileUpload ::
  "up_opts \<Rightarrow> string \<Rightarrow> string \<Rightarrow> (string \<times> jsval) list option \<Rightarrow> form_attrs \<Rightarrow> int \<Rightarrow> bool \<Rightarrow> (string \<times> jsval) list \<Rightarrow> form \<Rightarrow> upload" where
  "fileUpload u now dt ex fa act has_submit_id a fm0 =
     (let fm = reenable a fm0; s0 = init_upload u now dt ex fa act
      in if list_ex submit_blocks (controls fm) \<or> has_submit_id then emit [UAlert] s0
         else
           let s1 = send_events u s0;
               s2 = (case u_beforeSend u of Some (True, _) \<Rightarrow> abort_upload u None s1 | _ \<Rightarrow> s1)
           in if (case u_beforeSend u of Some (_, stop) \<Rightarrow> stop | None \<Rightarrow> False)
              then (if u_global u then s2\<lparr>active := active s2 - 1\<rparr> else s2)
              else if aborted s2 then s2
              else
                let s3 = s2\<lparr>extraData := with_clicked fm (extraData s2)\<rparr>
                in if u_forceSync u then doSubmit u s3 else set_timer TSubmit s3)"

subsection \<open>The response\<close>

definition or_status :: "string option \<Rightarrow> jsnum \<Rightarrow> jsnum" where
  "or_status att st = (let n = to_number (case att of Some a \<Rightarrow> StrV a | None \<Rightarrow> Null) in if truthy (NumV n) then n else st)"

definition or_text :: "string option \<Rightarrow> string \<Rightarrow> string" where
  "or_text att t = (case att of Some a \<Rightarrow> if a \<noteq> [] then a else t | None \<Rightarrow> t)"

text \<open>The emulation of \<open>status\<close> and \<open>statusText\<close> by attributes of an element.\<close>

definition emulate :: "el_view \<Rightarrow> upload \<Rightarrow> upload" where
  "emulate el s = s\<lparr>x_status := or_status (el_status el) (x_status s), x_statusText := or_text (el_statusText el) (x_statusText s)\<rparr>"

definition doc_root :: "frame_doc \<Rightarrow> el_view option" where
  "doc_root d = (case fd_body d of Some b \<Rightarrow> Some b | None \<Rightarrow> fd_docElement d)"

definition is_script_type :: "string \<Rightarrow> bool" where
  "is_script_type dt = list_ex (\<lambda>w. 0 \<le> index_of (to_lower dt) w) [''json'', ''script'', ''text'']"

definition is_xml_response :: "upload \<Rightarrow> frame_doc \<Rightarrow> bool" where
  "is_xml_response s d \<longleftrightarrow> dataType s = ''xml'' \<or> fd_XMLDocument d \<noteq> None \<or> fd_isXML d"

text \<open>The text and the status of the response are taken from the document.\<close>

definition read_response :: "up_opts \<Rightarrow> frame_doc \<Rightarrow> upload \<Rightarrow> upload" where
  "read_response u d s =
     (let xml = (case fd_XMLDocument d of Some x \<Rightarrow> x | None \<Rightarrow> map_option el_node (fd_docElement d));
          s1 = s\<lparr>x_text := map_option el_html (doc_root d), x_xml := Some xml\<rparr>;
          s2 = (if is_xml_response s d then s1\<lparr>dataType := ''xml''\<rparr> else s1);
          s3 = (case doc_root d of Some el \<Rightarrow> emulate el s2 | None \<Rightarrow> s2);
          scr = is_script_type (dataType s3)
      in if scr \<or> u_textarea u
         then (case fd_textarea d of
                 Some ta \<Rightarrow> emulate ta (s3\<lparr>x_text := Some (el_html ta)\<rparr>)
               | None \<Rightarrow>
                   if scr
                   then (case fd_pre d of
                           Some (tc, h) \<Rightarrow> s3\<lparr>x_text := Some (if tc \<noteq> [] then tc else h)\<rparr>
                         | None \<Rightarrow> (case fd_b d of Some h \<Rightarrow> s3\<lparr>x_text := Some h\<rparr> | None \<Rightarrow> s3))
                   else s3)
         else s3)"

text \<open>
  \<open>httpData\<close>; the header \<open>content-type\<close> is the data type, so the tests on it decide nothing the
  type does not. \<open>flt\<close> is the page's \<open>dataFilter\<close>. A script is returned with its text.
\<close>

definition httpData :: "up_opts \<Rightarrow> (payload \<Rightarrow> payload) \<Rightarrow> upload \<Rightarrow> payload result" where
  "httpData u flt s =
     (let type = dataType s;
          data = (if type = ''xml'' then (case x_xml s of Some r \<Rightarrow> PXml r | None \<Rightarrow> PNull)
                  else case x_text s of Some t \<Rightarrow> PText t | None \<Rightarrow> PNull)
      in if type = ''xml'' \<and> (data = PNull \<or> data = PXml None) then Inl TypeError
         else if type = ''xml'' \<and> data = PXml (Some ''parsererror'') then jq_error ''parsererror''
         else
           let data1 = (if u_dataFilter u then flt data else data)
           in case data1 of
                PText t \<Rightarrow> if type = ''json'' then rbind (parseJSON (StrV t)) (\<lambda>v. Inr (PJson v)) else Inr data1
              | _ \<Rightarrow> Inr data1)"

definition evaluated :: "upload \<Rightarrow> payload \<Rightarrow> up_effect list" where
  "evaluated s p = (case p of PText t \<Rightarrow> when_on (dataType s = ''script'') (UEval t) | _ \<Rightarrow> [])"

definition final_status :: "jsnum \<Rightarrow> string option \<Rightarrow> string option" where
  "final_status st status =
     (if truthy (NumV st)
      then Some (if \<not> num_less st (Fin 200) \<and> num_less st (Fin 300) \<and> st \<noteq> NaN \<or> num_eq st (Fin 304) then ''success'' else ''error'')
      else status)"

text \<open>What follows the attempt to read the response: the callbacks and the global events.\<close>

definition finish_upload :: "up_opts \<Rightarrow> string \<Rightarrow> payload \<Rightarrow> why option \<Rightarrow> upload \<Rightarrow> upload" where
  "finish_upload u status0 data err s =
     (let status = final_status (x_status s) (if aborted s then None else Some status0);
          outcome = (case status of
              None \<Rightarrow> []
            | Some st \<Rightarrow>
                if st = ''success''
                then when_on (u_success u) (USuccess data) @ when_on (u_global u) (UTrigger ''ajaxSuccess'')
                else when_on (u_error u) (UError st (case err of Some w \<Rightarrow> w | None \<Rightarrow> Msg (x_statusText s))) @
                     when_on (u_global u) (UTrigger ''ajaxError''));
          act = (if u_global u then active s - 1 else active s);
          s1 = emit (outcome @ when_on (u_global u) (UTrigger ''ajaxComplete'') @
                     when_on (u_global u \<and> act = 0) (UTrigger ''ajaxStop'') @
                     when_on (u_complete u) (UComplete status))
                 (s\<lparr>active := act, processed := True\<rparr>);
          s2 = (if u_timeout u then clear_timer TTimeout s1 else s1)
      in set_timer TCleanup s2)"

definition process_response :: "up_opts \<Rightarrow> (payload \<Rightarrow> payload) \<Rightarrow> frame_doc \<Rightarrow> upload \<Rightarrow> upload" where
  "process_response u flt d s =
     (let s1 = read_response u d s
      in case httpData u flt s1 of
           Inr p \<Rightarrow> finish_upload u ''success'' p None (emit (evaluated s1 p) s1)
         | Inl ex \<Rightarrow> finish_upload u ''parsererror'' PNull (Some (Thrown ex)) (s1\<lparr>x_error := Some (Thrown ex)\<rparr>))"

datatype cb_reason = Loaded | ClientTimeout | ServerAbort

definition cb :: "up_opts \<Rightarrow> (payload \<Rightarrow> payload) \<Rightarrow> cb_reason \<Rightarrow> frame_view \<Rightarrow> upload \<Rightarrow> upload" where
  "cb u flt e0 fv s =
     (if aborted s \<or> processed s then s
      else
        let e = (case getDoc fv of Inl _ \<Rightarrow> ServerAbort | Inr _ \<Rightarrow> e0);
            doc = (case getDoc fv of Inr d \<Rightarrow> d | Inl _ \<Rightarrow> None)
        in if e = ClientTimeout then abort_upload u (Some ''timeout'') s
           else if e = ServerAbort then abort_upload u (Some ''server abort'') s
           else if (case doc of None \<Rightarrow> True | Some d \<Rightarrow> fd_href d = u_iframeSrc u) \<and> \<not> timedOut s then s
           else
             let s1 = s\<lparr>listening := False\<rparr>
             in if timedOut s1
                then finish_upload u ''error'' PNull (Some (Thrown (ThrowStr ''timeout''))) (s1\<lparr>x_error := Some (Thrown (ThrowStr ''timeout''))\<rparr>)
                else
                  let d = the doc;
                      hidden = (\<not> is_xml_response s1 d \<and> u_opera u \<and> (case fd_body d of None \<Rightarrow> True | Some b \<Rightarrow> el_html b = []));
                      s2 = (if hidden then s1\<lparr>domCheckCount := domCheckCount s1 - 1\<rparr> else s1)
                  in if hidden \<and> domCheckCount s2 \<noteq> 0 then set_timer TRequeue s2
                     else process_response u flt d s2)"

subsection \<open>Events\<close>

definition checkState :: "up_opts \<Rightarrow> (payload \<Rightarrow> payload) \<Rightarrow> frame_view \<Rightarrow> upload \<Rightarrow> upload" where
  "checkState u flt fv s =
     (case fv of
        Doc d \<Rightarrow> (case fd_ready d of
            Some st \<Rightarrow> if to_lower st = ''uninitialized'' then set_timer TCheck s else s
          | None \<Rightarrow> clear_timer TTimeout (cb u flt ServerAbort fv s))
      | _ \<Rightarrow> clear_timer TTimeout (cb u flt ServerAbort fv s))"

datatype up_event = ETimer timer frame_view | ELoad frame_view | EAbort "string option"

definition run_timer :: "up_opts \<Rightarrow> (payload \<Rightarrow> payload) \<Rightarrow> timer \<Rightarrow> frame_view \<Rightarrow> upload \<Rightarrow> upload" where
  "run_timer u flt t fv s0 =
     (let s = s0\<lparr>timers := remove1 t (timers s0)\<rparr>
      in case t of
           TSubmit \<Rightarrow> doSubmit u s
         | TTimeout \<Rightarrow> cb u flt ClientTimeout fv (s\<lparr>timedOut := True\<rparr>)
         | TCheck \<Rightarrow> checkState u flt fv s
         | TRequeue \<Rightarrow> cb u flt Loaded fv s
         | TCleanup \<Rightarrow> (if u_iframeTarget u = None then s\<lparr>frame_shown := False, x_xml := None\<rparr> else s\<lparr>x_xml := None\<rparr>))"

definition up_handle :: "up_opts \<Rightarrow> (payload \<Rightarrow> payload) \<Rightarrow> up_event \<Rightarrow> upload \<Rightarrow> upload" where
  "up_handle u flt e s =
     (case e of
        ETimer t fv \<Rightarrow> run_timer u flt t fv s
      | ELoad fv \<Rightarrow> cb u flt Loaded fv s
      | EAbort st \<Rightarrow> abort_upload u st s)"

text \<open>
  A timer that is set and the load event while it is listened to. The page aborts an upload that is
  in progress; what a later abort does is stated apart.
\<close>

definition up_enabled :: "up_event \<Rightarrow> upload \<Rightarrow> bool" where
  "up_enabled e s =
     (case e of ETimer t fv \<Rightarrow> t \<in> set (timers s) | ELoad fv \<Rightarrow> listening s | EAbort st \<Rightarrow> \<not> aborted s \<and> \<not> processed s)"

subsection \<open>Callbacks are called once\<close>

definition is_complete :: "up_effect \<Rightarrow> bool" where
  "is_complete e = (case e of UComplete _ \<Rightarrow> True | _ \<Rightarrow> False)"

definition is_outcome :: "up_effect \<Rightarrow> bool" where
  "is_outcome e = (case e of USuccess _ \<Rightarrow> True | UError _ _ \<Rightarrow> True | _ \<Rightarrow> False)"

definition completes :: "upload \<Rightarrow> nat" where
  "completes s = length (filter is_complete (effects s))"

definition outcomes :: "upload \<Rightarrow> nat" where
  "outcomes s = length (filter is_outcome (effects s))"

text \<open>
  The invariant: \<open>complete\<close> has been called, if it is given, just when the upload is aborted or
  processed, not both; and at most one of \<open>success\<close> and \<open>error\<close> has been called by then.
\<close>

definition once :: "up_opts \<Rightarrow> upload \<Rightarrow> bool" where
  "once u s \<longleftrightarrow>
     \<not> (aborted s \<and> processed s) \<and>
     completes s = (if u_complete u \<and> (aborted s \<or> processed s) then 1 else 0) \<and>
     outcomes s \<le> (if aborted s \<or> processed s then 1 else 0)"

lemma effect_kinds [simp]:
  "\<not> is_complete UAlert" "\<not> is_complete (UTrigger t)" "\<not> is_complete (UError a b)" "\<not> is_complete (USuccess p)"
  "is_complete (UComplete c)" "\<not> is_complete (USubmit f g)" "\<not> is_complete (USrc t)" "\<not> is_complete (UEval t)"
  "\<not> is_outcome UAlert" "\<not> is_outcome (UTrigger t)" "is_outcome (UError a b)" "is_outcome (USuccess p)"
  "\<not> is_outcome (UComplete c)" "\<not> is_outcome (USubmit f g)" "\<not> is_outcome (USrc t)" "\<not> is_outcome (UEval t)"
  by (simp_all add: is_complete_def is_outcome_def)

lemma emit_counts [simp]:
  "completes (emit es s) = completes s + length (filter is_complete es)"
  "outcomes (emit es s) = outcomes s + length (filter is_outcome es)"
  "aborted (emit es s) = aborted s" "processed (emit es s) = processed s" "active (emit es s) = active s"
  by (simp_all add: completes_def outcomes_def emit_def)

lemma timer_counts [simp]:
  "completes (set_timer t s) = completes s" "outcomes (set_timer t s) = outcomes s"
  "aborted (set_timer t s) = aborted s" "processed (set_timer t s) = processed s"
  "completes (clear_timer t s) = completes s" "outcomes (clear_timer t s) = outcomes s"
  "aborted (clear_timer t s) = aborted s" "processed (clear_timer t s) = processed s"
  by (simp_all add: completes_def outcomes_def set_timer_def clear_timer_def)

lemma field_counts [simp]:
  "completes (s\<lparr>timers := a\<rparr>) = completes s" "outcomes (s\<lparr>timers := a\<rparr>) = outcomes s"
  "completes (s\<lparr>timedOut := b\<rparr>) = completes s" "outcomes (s\<lparr>timedOut := b\<rparr>) = outcomes s"
  "completes (s\<lparr>listening := b\<rparr>) = completes s" "outcomes (s\<lparr>listening := b\<rparr>) = outcomes s"
  "completes (s\<lparr>aborted := b\<rparr>) = completes s" "outcomes (s\<lparr>aborted := b\<rparr>) = outcomes s"
  "completes (s\<lparr>processed := b\<rparr>) = completes s" "outcomes (s\<lparr>processed := b\<rparr>) = outcomes s"
  "completes (s\<lparr>active := n\<rparr>) = completes s" "outcomes (s\<lparr>active := n\<rparr>) = outcomes s"
  "completes (s\<lparr>x_error := w\<rparr>) = completes s" "outcomes (s\<lparr>x_error := w\<rparr>) = outcomes s"
  "completes (s\<lparr>x_xml := x\<rparr>) = completes s" "outcomes (s\<lparr>x_xml := x\<rparr>) = outcomes s"
  "completes (s\<lparr>x_text := y\<rparr>) = completes s" "outcomes (s\<lparr>x_text := y\<rparr>) = outcomes s"
  "completes (s\<lparr>x_status := st\<rparr>) = completes s" "outcomes (s\<lparr>x_status := st\<rparr>) = outcomes s"
  "completes (s\<lparr>x_statusText := y'\<rparr>) = completes s" "outcomes (s\<lparr>x_statusText := y'\<rparr>) = outcomes s"
  "completes (s\<lparr>dataType := y'\<rparr>) = completes s" "outcomes (s\<lparr>dataType := y'\<rparr>) = outcomes s"
  "completes (s\<lparr>extraData := ex\<rparr>) = completes s" "outcomes (s\<lparr>extraData := ex\<rparr>) = outcomes s"
  "completes (s\<lparr>frame_shown := b\<rparr>) = completes s" "outcomes (s\<lparr>frame_shown := b\<rparr>) = outcomes s"
  "completes (s\<lparr>domCheckCount := n\<rparr>) = completes s" "outcomes (s\<lparr>domCheckCount := n\<rparr>) = outcomes s"
  "completes (s\<lparr>form_at := fa\<rparr>) = completes s" "outcomes (s\<lparr>form_at := fa\<rparr>) = outcomes s"
  by (simp_all add: completes_def outcomes_def)

lemma abort_counts:
  assumes "once u s" and "\<not> aborted s" and "\<not> processed s"
  shows "once u (abort_upload u st s)"
  using assms by (simp add: once_def abort_upload_def Let_def when_on_def)

lemma finish_counts:
  assumes "once u s" and "\<not> aborted s" and "\<not> processed s"
  shows "once u (finish_upload u status data err s)"
  using assms by (simp add: once_def finish_upload_def Let_def when_on_def split: option.split)

lemma read_counts [simp]:
  "completes (read_response u d s) = completes s" "outcomes (read_response u d s) = outcomes s"
  "aborted (read_response u d s) = aborted s" "processed (read_response u d s) = processed s"
  by (simp_all add: read_response_def emulate_def Let_def split: option.split)

lemma once_cong:
  assumes "once u s" and "completes t = completes s" and "outcomes t = outcomes s" and "aborted t = aborted s" and "processed t = processed s"
  shows "once u t"
  using assms by (simp add: once_def)

lemma evaluated_counts [simp]: "filter is_complete (evaluated s p) = []" "filter is_outcome (evaluated s p) = []"
  by (simp_all add: evaluated_def when_on_def split: payload.split)

lemma process_counts:
  assumes "once u s" and "\<not> aborted s" and "\<not> processed s"
  shows "once u (process_response u flt d s)"
proof -
  have keep: "once u t" if "completes t = completes s" "outcomes t = outcomes s" "aborted t = aborted s" "processed t = processed s" for t
    using assms(1) that by (rule once_cong)
  show ?thesis
    using assms by (auto simp: process_response_def Let_def intro!: finish_counts keep split: sum.split)
qed

lemma once_simps [simp]:
  "once u (s\<lparr>listening := b\<rparr>) = once u s" "once u (s\<lparr>timedOut := b\<rparr>) = once u s" "once u (s\<lparr>timers := a\<rparr>) = once u s"
  "once u (s\<lparr>domCheckCount := n\<rparr>) = once u s" "once u (s\<lparr>x_error := w\<rparr>) = once u s" "once u (s\<lparr>x_xml := x\<rparr>) = once u s"
  "once u (s\<lparr>frame_shown := b\<rparr>) = once u s" "once u (set_timer t s) = once u s" "once u (clear_timer t s) = once u s"
  "once u (s\<lparr>form_at := fa\<rparr>) = once u s" "once u (s\<lparr>extraData := ex\<rparr>) = once u s" "once u (s\<lparr>active := n\<rparr>) = once u s"
  "once u (emit [USubmit f g] s) = once u s" "once u (emit [UAlert] s) = once u s" "once u (emit [UTrigger x1] s) = once u s"
  "once u (emit [UTrigger x1, UTrigger x2] s) = once u s"
  by (simp_all add: once_def)

lemma cb_counts: "once u s \<Longrightarrow> once u (cb u flt e fv s)"
  by (simp add: cb_def Let_def abort_counts finish_counts process_counts)

lemma submit_counts: "once u s \<Longrightarrow> once u (doSubmit u s)"
  by (simp add: doSubmit_def Let_def)

lemma checkState_counts: "once u s \<Longrightarrow> once u (checkState u flt fv s)"
  by (simp add: checkState_def cb_counts split: frame_view.split option.split)

lemma timer_once: "once u s \<Longrightarrow> once u (run_timer u flt t fv s)"
  by (cases t) (simp_all add: run_timer_def Let_def submit_counts cb_counts checkState_counts)

interpretation upl: machine up_enabled "up_handle u flt" "once u" for u flt
proof
  fix s e
  assume "once u s" and "up_enabled e s"
  then show "once u (up_handle u flt e s)"
    by (cases e) (simp_all add: up_handle_def up_enabled_def timer_once cb_counts abort_counts)
qed

lemma once_init: "once u (init_upload u now dt ex fa act)"
  by (simp add: once_def init_upload_def completes_def outcomes_def)

lemma init_running [simp]:
  "\<not> aborted (init_upload u now dt ex fa act)" "\<not> processed (init_upload u now dt ex fa act)"
  by (simp_all add: init_upload_def)

lemma send_running [simp]: "aborted (send_events u s) = aborted s" "processed (send_events u s) = processed s"
  by (simp_all add: send_events_def)

lemma once_send: "once u s \<Longrightarrow> once u (send_events u s)"
  by (simp add: send_events_def when_on_def)

lemma once_fileUpload: "once u (fileUpload u now dt ex fa act hs a fm)"
  by (auto simp: fileUpload_def Let_def once_init once_send abort_counts submit_counts split: option.split bool.split)


abbreviation demo_up :: up_opts where
  "demo_up \<equiv> \<lparr>u_url = Some ''/upload'', u_method = None, u_global = True, u_success = True, u_error = True, u_complete = True,
     u_beforeSend = None, u_dataFilter = False, u_textarea = False, u_timeout = True, u_forceSync = False,
     u_skipEncodingOverride = False, u_iframeTarget = None, u_iframeSrc = ''about:blank'', u_opera = False\<rparr>"

abbreviation demo_attrs :: form_attrs where
  "demo_attrs \<equiv> \<lparr>at_target = None, at_action = Some ''/'', at_method = None, at_enctype = None, at_encoding = None\<rparr>"

abbreviation demo_doc :: frame_doc where
  "demo_doc \<equiv> \<lparr>fd_ready = Some ''complete'', fd_href = ''http://h/upload'', fd_XMLDocument = None, fd_isXML = False,
     fd_body = Some \<lparr>el_html = ''ok'', el_status = None, el_statusText = None, el_node = ''BODY''\<rparr>, fd_docElement = None,
     fd_textarea = None, fd_pre = None, fd_b = Some ''ok''\<rparr>"

abbreviation demo_events :: "up_event list" where
  "demo_events \<equiv> [ETimer TSubmit NoDoc, ELoad NoDoc, ETimer TCheck (Doc demo_doc), ELoad (Doc demo_doc)]"

definition demo_start :: upload where
  "demo_start = fileUpload demo_up ''17'' [] None demo_attrs 0 False [] demo_form"

definition demo_end :: upload where
  "demo_end = fold (up_handle demo_up (\<lambda>p. p)) demo_events demo_start"

lemma run_fold:
  "run enabled handle s es (fold handle es s) \<longleftrightarrow> list_all (\<lambda>i. enabled (es ! i) (fold handle (take i es) s)) [0 ..< length es]"
proof (induction es arbitrary: s)
  case (Cons e es)
  have "[0 ..< length (e # es)] = 0 # map Suc [0 ..< length es]" by (simp add: upt_conv_Cons map_Suc_upt del: upt_Suc)
  then show ?case using Cons by (simp add: list.pred_map comp_def del: upt_Suc)
qed simp


subsection \<open>Frames given by the page\<close>

definition no_success :: "upload \<Rightarrow> bool" where
  "no_success s \<longleftrightarrow> list_all (\<lambda>e. case e of USuccess _ \<Rightarrow> False | _ \<Rightarrow> True) (effects s)"

definition unheard :: "upload \<Rightarrow> bool" where
  "unheard s \<longleftrightarrow> \<not> listening s \<and> TRequeue \<notin> set (timers s) \<and> \<not> processed s \<and> no_success s"

lemma unheard_simps [simp]:
  "unheard (s\<lparr>timedOut := b\<rparr>) = unheard s" "unheard (s\<lparr>x_xml := x\<rparr>) = unheard s" "unheard (s\<lparr>extraData := ex\<rparr>) = unheard s"
  "unheard (s\<lparr>form_at := fa\<rparr>) = unheard s" "unheard (s\<lparr>active := n\<rparr>) = unheard s" "unheard (s\<lparr>aborted := b, x_error := w\<rparr>) = unheard s"
  "unheard (set_timer t s) = (unheard s \<and> t \<noteq> TRequeue)"
  by (auto simp: unheard_def no_success_def set_timer_def)

lemma unheard_emit:
  "unheard (emit es s) \<longleftrightarrow> unheard s \<and> list_all (\<lambda>e. case e of USuccess _ \<Rightarrow> False | _ \<Rightarrow> True) es"
  by (auto simp: unheard_def no_success_def emit_def)

lemma unheard_fewer: "unheard s \<Longrightarrow> unheard (clear_timer t s)" "unheard s \<Longrightarrow> unheard (s\<lparr>timers := remove1 t (timers s)\<rparr>)"
  by (auto simp: unheard_def no_success_def clear_timer_def dest: notin_set_remove1)

lemma unheard_abort: "unheard s \<Longrightarrow> unheard (abort_upload u st s)"
  by (simp add: abort_upload_def Let_def unheard_emit when_on_def)

lemma unheard_cb: "unheard s \<Longrightarrow> e \<noteq> Loaded \<Longrightarrow> unheard (cb u flt e fv s)"
  by (cases e; cases fv) (simp_all add: cb_def getDoc_def Let_def unheard_abort)

lemma unheard_submit: "u_iframeTarget u \<noteq> None \<Longrightarrow> unheard s \<Longrightarrow> unheard (doSubmit u s)"
  by (auto simp: doSubmit_def Let_def unheard_emit)

lemma unheard_check: "unheard s \<Longrightarrow> unheard (checkState u flt fv s)"
  by (simp add: checkState_def unheard_cb unheard_fewer split: frame_view.split option.split)

lemma unheard_timer:
  assumes "u_iframeTarget u \<noteq> None" and "unheard s" and "t \<in> set (timers s)"
  shows "unheard (run_timer u flt t fv s)"
  using assms by (cases t)
    (auto simp: run_timer_def Let_def unheard_submit unheard_cb unheard_check unheard_fewer, auto simp: unheard_def)

definition given_frame :: "up_opts \<Rightarrow> upload \<Rightarrow> bool" where
  "given_frame u s \<longleftrightarrow> (u_iframeTarget u \<noteq> None \<longrightarrow> unheard s)"

interpretation upl_frame: machine up_enabled "up_handle u flt" "given_frame u" for u flt
proof
  fix s e
  assume "given_frame u s" and "up_enabled e s"
  then show "given_frame u (up_handle u flt e s)"
    by (cases e) (auto simp: given_frame_def up_handle_def up_enabled_def unheard_timer unheard_abort, auto simp: unheard_def)
qed

lemma unheard_start:
  assumes "u_iframeTarget u \<noteq> None"
  shows "unheard (fileUpload u now dt ex fa act hs a fm)"
proof -
  have "unheard (init_upload u now dt ex fa act)" by (simp add: unheard_def no_success_def init_upload_def)
  moreover from this have "unheard (send_events u (init_upload u now dt ex fa act))"
    by (simp add: send_events_def unheard_emit when_on_def)
  ultimately show ?thesis
    using assms by (auto simp: fileUpload_def Let_def unheard_emit unheard_abort unheard_submit split: option.split bool.split)
qed

text \<open>
  With the option \<open>iframeTarget\<close> the load event of the frame is never listened to: whatever
  happens, the response is not processed and \<open>success\<close> is not called.
\<close>

theorem upload_given_frame_unheard:
  assumes "u_iframeTarget u = Some frame"
    and "run up_enabled (up_handle u flt) (fileUpload u now dt ex fa act hs a fm) es t"
  shows "\<not> processed t \<and> (\<forall>p. USuccess p \<notin> set (effects t))"
proof -
  have "given_frame u (fileUpload u now dt ex fa act hs a fm)" using unheard_start assms(1) by (simp add: given_frame_def)
  from upl_frame.run_inv[OF assms(2) this] have "unheard t" using assms(1) by (simp add: given_frame_def)
  then show ?thesis by (auto simp: unheard_def no_success_def list_all_iff)
qed

abbreviation demo_given :: up_opts where
  "demo_given \<equiv> demo_up\<lparr>u_iframeTarget := Some (Some ''frm'')\<rparr>"

abbreviation demo_given_events :: "up_event list" where
  "demo_given_events \<equiv> [ETimer TSubmit NoDoc, ETimer TCheck (Doc demo_doc), ETimer TTimeout (Doc demo_doc)]"

definition demo_given_start :: upload where
  "demo_given_start = fileUpload demo_given ''17'' [] None demo_attrs 0 False [] demo_form"

definition demo_given_end :: upload where
  "demo_given_end = fold (up_handle demo_given (\<lambda>p. p)) demo_given_events demo_given_start"

theorem upload_given_frame_unheard_witness:
  "run up_enabled (up_handle demo_given (\<lambda>p. p)) demo_given_start demo_given_events demo_given_end \<and>
   aborted demo_given_end \<and> \<not> processed demo_given_end"
proof -
  have "run up_enabled (up_handle demo_given (\<lambda>p. p)) demo_given_start demo_given_events demo_given_end"
    unfolding demo_given_end_def run_fold by code_simp
  moreover have "aborted demo_given_end" by code_simp
  ultimately show ?thesis
    using upload_given_frame_unheard[of demo_given "Some ''frm''" "\<lambda>p. p" "''17''" "[]" None demo_attrs 0 False "[]" demo_form
        demo_given_events demo_given_end]
    unfolding demo_given_start_def[symmetric] by simp
qed

subsection \<open>The form and the counter of active requests\<close>

lemma submit_attrs_target: "at_target (submit_attrs u ident fa) = Some ident"
  by (simp add: submit_attrs_def Let_def)

text \<open>
  The form is submitted into the frame, to the address of the options, with the extra data, and
  has its own target and action again afterwards, provided it had an action.
\<close>

theorem doSubmit_restores_form:
  assumes "at_target (form_at s) \<noteq> Some []" and "at_action (form_at s) = Some act" and "u_url u = Some url"
  shows "at_target (form_at (doSubmit u s)) = at_target (form_at s) \<and> at_action (form_at (doSubmit u s)) = at_action (form_at s) \<and>
    (\<exists>fa. effects (doSubmit u s) = effects s @ [USubmit fa (extra_inputs s)] \<and> at_target fa = Some (frame_id s) \<and> at_action fa = Some url)"
  using assms
  by (auto simp: doSubmit_def Let_def restore_attrs_def js_text_def emit_def set_timer_def submit_attrs_def split: option.split)

theorem doSubmit_restores_form_witness:
  "at_action (form_at (doSubmit demo_up demo_start)) = Some ''/'' \<and> at_target (form_at (doSubmit demo_up demo_start)) = None"
  using doSubmit_restores_form[of demo_start "''/''" demo_up "''/upload''"]
  by (simp add: demo_start_def fileUpload_def init_upload_def send_events_def emit_def set_timer_def Let_def submit_blocks_def reenable_def
      reenable_field_def)

text \<open>A form without an action gets the action \<open>undefined\<close>.\<close>

lemma doSubmit_no_action: "at_action (form_at s) = None \<Longrightarrow> at_action (form_at (doSubmit u s)) = Some ''undefined''"
  by (simp add: doSubmit_def Let_def restore_attrs_def js_text_def)

text \<open>An aborted upload stays counted in \<open>$.active\<close>, and a processed one does not.\<close>

lemma abort_keeps_active: "active (abort_upload u st s) = active s"
  by (simp add: abort_upload_def Let_def)

lemma finish_active: "u_global u \<Longrightarrow> active (finish_upload u st data err s) = active s - 1"
  by (simp add: finish_upload_def Let_def set_timer_def clear_timer_def)

text \<open>An abort after the end calls \<open>complete\<close> once more.\<close>

lemma late_abort: "u_complete u \<Longrightarrow> completes (abort_upload u st s) = completes s + 1"
  by (simp add: abort_upload_def Let_def when_on_def)

end
