(* ===== verification/Jq_Callbacks.thy ===== *)
theory Jq_Callbacks
  imports Jq_Core
begin

text \<open>
  Callback lists (\<open>jQuery.Callbacks\<close>) and what \<open>Deferred\<close> and \<open>when\<close> do when their callbacks are called,
  of \<open>jquery-1.9.1.js\<close>. A callback may itself add callbacks, fire lists or resolve deferreds while a
  list is firing, so all lists live in one state and the execution is a partial function: \<open>None\<close> is
  an execution that does not end, \<open>Inl\<close> an exception. The functions of the page are a parameter: what
  they do and return, given their arguments and the state.
\<close>

subsection \<open>Options\<close>

text \<open>\<open>match(/\S+/g) || []\<close>.\<close>

function non_spaces :: "string \<Rightarrow> string list" where
  "non_spaces s =
     (let t = dropWhile is_space s
      in if t = [] then [] else takeWhile (\<lambda>c. \<not> is_space c) t # non_spaces (dropWhile (\<lambda>c. \<not> is_space c) t))"
  by pat_completeness auto
termination
proof (relation "measure length", simp)
  fix s t :: string
  assume t: "t = dropWhile is_space s" "t \<noteq> []"
  then have "\<not> is_space (hd t)" using hd_dropWhile by metis
  then have "length (dropWhile (\<lambda>c. \<not> is_space c) t) < length t"
    using t(2) length_dropWhile_le[of "\<lambda>c. \<not> is_space c" "tl t"] by (cases t) auto
  also have "\<dots> \<le> length s" by (simp add: t(1) length_dropWhile_le)
  finally show "(dropWhile (\<lambda>c. \<not> is_space c) t, s) \<in> measure length" by simp
qed

declare non_spaces.simps [simp del]

record cb_options =
  o_once :: bool
  o_memory :: bool
  o_unique :: bool
  o_stopOnFalse :: bool

definition createOptions :: "string \<Rightarrow> cb_options" where
  "createOptions options =
     (let flags = non_spaces options
      in \<lparr>o_once = ''once'' \<in> set flags, o_memory = ''memory'' \<in> set flags,
          o_unique = ''unique'' \<in> set flags, o_stopOnFalse = ''stopOnFalse'' \<in> set flags\<rparr>)"

subsection \<open>Functions and lists\<close>

text \<open>The value of \<open>this\<close> in a callback.\<close>

datatype ctx = CPromise nat | CDeferred nat | CVal jsval | CArr "ctx list"

type_synonym args = "jsval list"
type_synonym data = "ctx \<times> args"

text \<open>
  The functions in a list: those of the page, by number, and the closures of \<open>Deferred\<close>, \<open>then\<close> and
  \<open>when\<close>. A deferred \<open>d\<close> has the lists \<open>3 d\<close> (done), \<open>3 d + 1\<close> (fail) and \<open>3 d + 2\<close> (progress).
\<close>

datatype fn =
    FUser nat
  | FSetState nat string
  | FDisable nat
  | FLock nat
  | FThen nat nat "nat option" nat      \<comment> \<open>of deferred, tuple index, function, new deferred\<close>
  | FAction nat nat                     \<comment> \<open>\<open>deferred.resolve\<close>, \<open>reject\<close> or \<open>notify\<close>\<close>
  | FUpdate nat nat bool                \<comment> \<open>\<open>updateFunc\<close> of a \<open>when\<close>: index, progress\<close>

text \<open>An argument of \<open>add\<close>: a function, an array of arguments, or something else.\<close>

datatype cb_arg = AFn fn | AArr "cb_arg list" | AOther

record cblist =
  cb_opts :: cb_options
  lst :: "fn list option"               \<comment> \<open>\<open>None\<close> when disabled\<close>
  stack :: "data list option"           \<comment> \<open>\<open>None\<close> for \<open>false\<close> and \<open>undefined\<close>\<close>
  memo :: "data option"
  fired :: bool
  firing :: bool
  firingStart :: nat
  firingIndex :: int
  firingLength :: int

definition Callbacks :: "string \<Rightarrow> cblist" where
  "Callbacks options =
     (let ops = createOptions options
      in \<lparr>cb_opts = ops, lst = Some [], stack = (if o_once ops then None else Some []), memo = None, fired = False, firing = False,
          firingStart = 0, firingIndex = 0, firingLength = 0\<rparr>)"

definition has_fn :: "fn \<Rightarrow> cblist \<Rightarrow> bool" where
  "has_fn f c = (case lst c of None \<Rightarrow> False | Some fs \<Rightarrow> f \<in> set fs)"

text \<open>The inner \<open>add\<close>: functions are pushed, arrays inspected recursively.\<close>

fun add_args :: "bool \<Rightarrow> cb_arg list \<Rightarrow> fn list \<Rightarrow> fn list" where
  "add_args unique [] fs = fs"
| "add_args unique (AFn f # as) fs = add_args unique as (if \<not> unique \<or> f \<notin> set fs then fs @ [f] else fs)"
| "add_args unique (AArr bs # as) fs = add_args unique as (add_args unique bs fs)"
| "add_args unique (AOther # as) fs = add_args unique as fs"

text \<open>\<open>inArray(f, fs, i)\<close>.\<close>

definition fn_index :: "fn \<Rightarrow> fn list \<Rightarrow> nat \<Rightarrow> nat option" where
  "fn_index f fs i = find (\<lambda>j. fs ! j = f) [i ..< length fs]"

definition drop_at :: "nat \<Rightarrow> 'a list \<Rightarrow> 'a list" where
  "drop_at i xs = take i xs @ drop (Suc i) xs"

text \<open>The loop of \<open>remove\<close> for one function: the list, \<open>firingLength\<close> and \<open>firingIndex\<close>.\<close>

function remove_fn :: "bool \<Rightarrow> fn \<Rightarrow> nat \<Rightarrow> fn list \<times> int \<times> int \<Rightarrow> fn list \<times> int \<times> int" where
  "remove_fn busy f i (fs, len, idx) =
     (case fn_index f fs i of
        None \<Rightarrow> (fs, len, idx)
      | Some j \<Rightarrow>
          remove_fn busy f j
            (drop_at j fs,
             if busy \<and> int j \<le> len then len - 1 else len,
             if busy \<and> int j \<le> idx then idx - 1 else idx))"
  by pat_completeness auto
termination
proof (relation "measure (\<lambda>(b, f, i, fs, _). length fs)", simp)
  fix busy f i and fs :: "fn list" and len idx j
  assume "fn_index f fs i = Some j"
  then have "j < length fs" by (auto simp: fn_index_def find_Some_iff nth_append)
  then show "((busy, f, j, drop_at j fs, if busy \<and> int j \<le> len then len - 1 else len, if busy \<and> int j \<le> idx then idx - 1 else idx),
      busy, f, i, fs, len, idx) \<in> measure (\<lambda>(b, f, i, fs, _). length fs)"
    by (simp add: drop_at_def)
qed

declare remove_fn.simps [simp del]

definition cb_remove :: "fn list \<Rightarrow> cblist \<Rightarrow> cblist" where
  "cb_remove fs c =
     (case lst c of
        None \<Rightarrow> c
      | Some l \<Rightarrow>
          let (l', len, idx) = fold (\<lambda>f. remove_fn (firing c) f 0) fs (l, firingLength c, firingIndex c)
          in c\<lparr>lst := Some l', firingLength := len, firingIndex := idx\<rparr>)"

definition cb_empty :: "cblist \<Rightarrow> cblist" where
  "cb_empty c = c\<lparr>lst := Some []\<rparr>"

definition disable :: "cblist \<Rightarrow> cblist" where
  "disable c = c\<lparr>lst := None, stack := None, memo := None\<rparr>"

definition disabled :: "cblist \<Rightarrow> bool" where
  "disabled c \<longleftrightarrow> lst c = None"

definition lock :: "cblist \<Rightarrow> cblist" where
  "lock c = (let c1 = c\<lparr>stack := None\<rparr> in if memo c1 = None then disable c1 else c1)"

definition locked :: "cblist \<Rightarrow> bool" where
  "locked c \<longleftrightarrow> stack c = None"

text \<open>\<open>has\<close> without an argument.\<close>

definition has_any :: "cblist \<Rightarrow> bool" where
  "has_any c = (case lst c of None \<Rightarrow> False | Some fs \<Rightarrow> fs \<noteq> [])"

subsection \<open>The state\<close>

text \<open>A \<open>when\<close> in progress: the master and the arrays of its closure.\<close>

record waiting =
  master :: nat
  remaining :: int
  resolveValues :: "jsval list"
  resolveContexts :: "ctx list"
  progressValues :: "jsval list"
  progressContexts :: "ctx list"

record world =
  lists :: "nat \<Rightarrow> cblist"
  dstate :: "nat \<Rightarrow> string"            \<comment> \<open>the \<open>state\<close> of each deferred\<close>
  whens :: "nat \<Rightarrow> waiting"
  calls :: "(fn \<times> data) list"          \<comment> \<open>the callbacks called, in order\<close>

definition set_list :: "nat \<Rightarrow> cblist \<Rightarrow> world \<Rightarrow> world" where
  "set_list l c w = w\<lparr>lists := (lists w)(l := c)\<rparr>"

definition upd_list :: "nat \<Rightarrow> (cblist \<Rightarrow> cblist) \<Rightarrow> world \<Rightarrow> world" where
  "upd_list l g w = set_list l (g (lists w l)) w"

subsection \<open>What a callback does\<close>

datatype act =
    AAdd nat "cb_arg list"
  | ARemove nat "fn list"
  | AFire nat data                      \<comment> \<open>\<open>fireWith\<close>\<close>
  | AEmpty nat
  | ADisable nat
  | ALock nat
  | AUpdate nat nat bool data
  | ANew nat                            \<comment> \<open>\<open>jQuery.Deferred()\<close> with that number\<close>

datatype ret = RVal jsval | RPromise nat

type_synonym page_fns = "nat \<Rightarrow> data \<Rightarrow> world \<Rightarrow> act list \<times> ret"

text \<open>\<open>resolve\<close>, \<open>reject\<close> and \<open>notify\<close>: \<open>this === deferred ? promise : this\<close>.\<close>

definition settle :: "nat \<Rightarrow> nat \<Rightarrow> data \<Rightarrow> act" where
  "settle d k a = AFire (3 * d + k) (if fst a = CDeferred d then CPromise d else fst a, snd a)"

text \<open>The listener of \<open>then\<close>; \<open>fo\<close> is the function given for this outcome.\<close>

definition then_listener :: "page_fns \<Rightarrow> nat \<Rightarrow> nat \<Rightarrow> nat option \<Rightarrow> nat \<Rightarrow> data \<Rightarrow> world \<Rightarrow> act list" where
  "then_listener user d k fo nd a w =
     (let c = (if fst a = CPromise d then CPromise nd else fst a)
      in case fo of
           None \<Rightarrow> [AFire (3 * nd + k) (c, snd a)]
         | Some f \<Rightarrow>
             (case user f a w of
                (as, RPromise p) \<Rightarrow>
                  as @ [AAdd (3 * p) [AFn (FAction nd 0)], AAdd (3 * p + 1) [AFn (FAction nd 1)], AAdd (3 * p + 2) [AFn (FAction nd 2)]]
              | (as, RVal v) \<Rightarrow> as @ [AFire (3 * nd + k) (c, [v])]))"

definition behave :: "page_fns \<Rightarrow> fn \<Rightarrow> data \<Rightarrow> world \<Rightarrow> act list \<times> ret" where
  "behave user f a w =
     (case f of
        FUser n \<Rightarrow> user n a w
      | FThen d k fo nd \<Rightarrow> (then_listener user d k fo nd a w, RVal Undef)
      | FAction d k \<Rightarrow> ([settle d k a], RVal Undef)
      | FUpdate m i prog \<Rightarrow> ([AUpdate m i prog a], RVal Undef)
      | _ \<Rightarrow> ([], RVal Undef))"

text \<open>The effect of the callbacks that \<open>Deferred\<close> puts in front of its lists.\<close>

definition internal :: "fn \<Rightarrow> world \<Rightarrow> world" where
  "internal f w =
     (case f of
        FSetState d s \<Rightarrow> w\<lparr>dstate := (dstate w)(d := s)\<rparr>
      | FDisable l \<Rightarrow> upd_list l disable w
      | FLock l \<Rightarrow> upd_list l lock w
      | _ \<Rightarrow> w)"

text \<open>\<open>updateFunc\<close>: the arrays of the \<open>when\<close> and what is fired then.\<close>

definition update_when :: "nat \<Rightarrow> nat \<Rightarrow> bool \<Rightarrow> data \<Rightarrow> world \<Rightarrow> world \<times> act list" where
  "update_when m i prog a w =
     (let q = whens w m;
          v = (case snd a of [] \<Rightarrow> Undef | [x] \<Rightarrow> x | xs \<Rightarrow> mk_arr xs)
      in if prog
         then let q1 = q\<lparr>progressContexts := (progressContexts q)[i := fst a], progressValues := (progressValues q)[i := v]\<rparr>
              in (w\<lparr>whens := (whens w)(m := q1)\<rparr>, [AFire (3 * master q + 2) (CArr (progressContexts q1), progressValues q1)])
         else let q1 = q\<lparr>resolveContexts := (resolveContexts q)[i := fst a], resolveValues := (resolveValues q)[i := v],
                         remaining := remaining q - 1\<rparr>
              in (w\<lparr>whens := (whens w)(m := q1)\<rparr>,
                  if remaining q1 = 0 then [AFire (3 * master q) (CArr (resolveContexts q1), resolveValues q1)] else []))"

text \<open>A new deferred: its three lists with the callbacks that come first.\<close>

definition new_Deferred :: "nat \<Rightarrow> world \<Rightarrow> world" where
  "new_Deferred d w =
     (let once = Callbacks ''once memory'';
          w1 = set_list (3 * d) (once\<lparr>lst := Some [FSetState d ''resolved'', FDisable (3 * d + 1), FLock (3 * d + 2)]\<rparr>) w;
          w2 = set_list (3 * d + 1) (once\<lparr>lst := Some [FSetState d ''rejected'', FDisable (3 * d), FLock (3 * d + 2)]\<rparr>) w1;
          w3 = set_list (3 * d + 2) (Callbacks ''memory'') w2
      in w3\<lparr>dstate := (dstate w3)(d := ''pending'')\<rparr>)"

subsection \<open>Execution\<close>

datatype task = Acts "act list" | Fire nat data | Loop nat data

text \<open>\<open>add\<close> before the call of \<open>fire\<close>.\<close>

definition added :: "cb_arg list \<Rightarrow> cblist \<Rightarrow> cblist" where
  "added as c =
     (case lst c of
        None \<Rightarrow> c
      | Some fs \<Rightarrow>
          let fs' = add_args (o_unique (cb_opts c)) as fs;
              c1 = c\<lparr>lst := Some fs'\<rparr>
          in if firing c then c1\<lparr>firingLength := int (length fs')\<rparr>
             else if memo c \<noteq> None then c1\<lparr>firingStart := length fs\<rparr> else c1)"

text \<open>The head of \<open>fire\<close>.\<close>

definition start_fire :: "data \<Rightarrow> cblist \<Rightarrow> cblist" where
  "start_fire a c =
     c\<lparr>memo := (if o_memory (cb_opts c) then Some a else None), fired := True, firingIndex := int (firingStart c), firingStart := 0,
       firingLength := (case lst c of Some fs \<Rightarrow> int (length fs) | None \<Rightarrow> 0), firing := True\<rparr>"

text \<open>Its end; the data of the next call of \<open>fire\<close> if one is stacked.\<close>

definition end_fire :: "cblist \<Rightarrow> cblist \<times> data option" where
  "end_fire c0 =
     (let c = c0\<lparr>firing := False\<rparr>
      in if lst c = None then (c, None)
         else case stack c of
                Some (a # st) \<Rightarrow> (c\<lparr>stack := Some st\<rparr>, Some a)
              | Some [] \<Rightarrow> (c, None)
              | None \<Rightarrow> (if memo c \<noteq> None then c\<lparr>lst := Some []\<rparr> else disable c, None))"

text \<open>\<open>list && firingIndex < firingLength\<close>, and the callback there: \<open>None\<close> past the end of the list.\<close>

definition more :: "cblist \<Rightarrow> bool" where
  "more c \<longleftrightarrow> lst c \<noteq> None \<and> firingIndex c < firingLength c"

definition current :: "cblist \<Rightarrow> fn option" where
  "current c = (case lst c of None \<Rightarrow> None
     | Some fs \<Rightarrow> if 0 \<le> firingIndex c \<and> firingIndex c < int (length fs) then Some (fs ! nat (firingIndex c)) else None)"

definition called :: "fn \<Rightarrow> data \<Rightarrow> world \<Rightarrow> world" where
  "called f a w = internal f (w\<lparr>calls := calls w @ [(f, a)]\<rparr>)"

definition next_index :: "cblist \<Rightarrow> cblist" where
  "next_index c = c\<lparr>firingIndex := firingIndex c + 1\<rparr>"

definition forget :: "cblist \<Rightarrow> cblist" where
  "forget c = c\<lparr>memo := None\<rparr>"

partial_function (option) exec_cb :: "page_fns \<Rightarrow> task \<Rightarrow> world \<Rightarrow> world result option" where
  "exec_cb user t w =
     (case t of
        Acts [] \<Rightarrow> Some (Inr w)
      | Acts (a # as) \<Rightarrow>
          Option.bind
            (case a of
               AAdd l xs \<Rightarrow>
                 let c = lists w l; w1 = upd_list l (added xs) w
                 in if lst c \<noteq> None \<and> \<not> firing c \<and> memo c \<noteq> None then exec_cb user (Fire l (the (memo c))) w1 else Some (Inr w1)
             | AFire l x \<Rightarrow>
                 let c = lists w l
                 in if lst c \<noteq> None \<and> (\<not> fired c \<or> stack c \<noteq> None)
                    then (if firing c then Some (Inr (set_list l (c\<lparr>stack := map_option (\<lambda>st. st @ [x]) (stack c)\<rparr>) w))
                          else exec_cb user (Fire l x) w)
                    else Some (Inr w)
             | ARemove l fs \<Rightarrow> Some (Inr (upd_list l (cb_remove fs) w))
             | AEmpty l \<Rightarrow> Some (Inr (upd_list l cb_empty w))
             | ADisable l \<Rightarrow> Some (Inr (upd_list l disable w))
             | ALock l \<Rightarrow> Some (Inr (upd_list l lock w))
             | AUpdate m i prog x \<Rightarrow> (let (w1, bs) = update_when m i prog x w in exec_cb user (Acts bs) w1)
             | ANew d \<Rightarrow> Some (Inr (new_Deferred d w)))
            (\<lambda>r. case r of Inl e \<Rightarrow> Some (Inl e) | Inr w1 \<Rightarrow> exec_cb user (Acts as) w1)
      | Fire l x \<Rightarrow>
          Option.bind (exec_cb user (Loop l x) (upd_list l (start_fire x) w))
            (\<lambda>r. case r of
                   Inl e \<Rightarrow> Some (Inl e)
                 | Inr w1 \<Rightarrow>
                     let (c, again) = end_fire (lists w1 l); w2 = set_list l c w1
                     in case again of None \<Rightarrow> Some (Inr w2) | Some y \<Rightarrow> exec_cb user (Fire l y) w2)
      | Loop l x \<Rightarrow>
          if \<not> more (lists w l) then Some (Inr w)
          else case current (lists w l) of
                 None \<Rightarrow> Some (Inl TypeError)
               | Some f \<Rightarrow>
                   let w1 = called f x w
                   in Option.bind (exec_cb user (Acts (fst (behave user f x w))) w1)
                        (\<lambda>r. case r of
                               Inl e \<Rightarrow> Some (Inl e)
                             | Inr w2 \<Rightarrow>
                                 if snd (behave user f x w) = RVal (BoolV False) \<and> o_stopOnFalse (cb_opts (lists w2 l))
                                 then Some (Inr (upd_list l forget w2))
                                 else exec_cb user (Loop l x) (upd_list l next_index w2)))"

declare exec_cb.simps [code]

subsection \<open>Lists whose callbacks do not act\<close>

text \<open>A callback of the page that touches no list, or one of \<open>Deferred\<close> for another list.\<close>

definition idle :: "page_fns \<Rightarrow> nat \<Rightarrow> fn \<Rightarrow> bool" where
  "idle user l f \<longleftrightarrow>
     (case f of
        FUser n \<Rightarrow> \<forall>a w. fst (user n a w) = []
      | FSetState _ _ \<Rightarrow> True
      | FDisable l' \<Rightarrow> l' \<noteq> l
      | FLock l' \<Rightarrow> l' \<noteq> l
      | _ \<Rightarrow> False)"

lemma lists_set [simp]: "lists (set_list l c w) l' = (if l' = l then c else lists w l')"
  by (simp add: set_list_def)

lemma lists_upd [simp]: "lists (upd_list l g w) l' = (if l' = l then g (lists w l) else lists w l')"
  by (simp add: upd_list_def)

lemma rest_set [simp]:
  "dstate (set_list l c w) = dstate w" "calls (set_list l c w) = calls w" "dstate (upd_list l g w) = dstate w"
  "calls (upd_list l g w) = calls w"
  by (simp_all add: set_list_def upd_list_def)

lemma upd_upd [simp]: "upd_list l g (upd_list l h w) = upd_list l (\<lambda>c. g (h c)) w"
  by (simp add: upd_list_def set_list_def)

lemma calls_called [simp]: "calls (called f x w) = calls w @ [(f, x)]"
  by (simp add: called_def internal_def upd_list_def set_list_def split: fn.split)

lemma calls_fold: "calls (fold (\<lambda>f. called f x) fs w) = calls w @ map (\<lambda>f. (f, x)) fs"
  by (induction fs arbitrary: w) auto

lemma idle_behave: "idle user l f \<Longrightarrow> fst (behave user f x w) = []"
  by (cases f; cases x) (auto simp: idle_def behave_def)

lemma idle_list: "idle user l f \<Longrightarrow> lists (called f x w) l = lists w l"
  by (cases f) (auto simp: idle_def called_def internal_def)

lemma idle_fold: "list_all (idle user l) fs \<Longrightarrow> lists (fold (\<lambda>f. called f x) fs w) l = lists w l"
  by (induction fs arbitrary: w) (auto simp: idle_list)

lemma idle_commute:
  assumes "idle user l f"
  shows "called f x (upd_list l g w) = upd_list l g (called f x w)"
  using assms by (cases f) (auto simp: idle_def called_def internal_def upd_list_def set_list_def fun_upd_twist)

lemma idle_commute_fold:
  "list_all (idle user l) fs \<Longrightarrow> fold (\<lambda>f. called f x) fs (upd_list l g w) = upd_list l g (fold (\<lambda>f. called f x) fs w)"
  by (induction fs arbitrary: w) (auto simp: idle_commute)

lemma exec_nil [simp]: "exec_cb user (Acts []) w = Some (Inr w)"
  by (subst exec_cb.simps) simp

lemma bind_nil [simp]: "Option.bind m (case_sum (\<lambda>e. Some (Inl e)) (exec_cb user (Acts []))) = m"
  by (cases m) (auto split: sum.split)

lemma upd_same: "g (lists w l) = lists w l \<Longrightarrow> upd_list l g w = w"
  by (simp add: upd_list_def set_list_def)

text \<open>The loop calls the remaining callbacks in order, each once.\<close>

lemma loop_idle:
  assumes "lst (lists w l) = Some fs" and "firingIndex (lists w l) = int i" and "firingLength (lists w l) = int (length fs)"
    and "i \<le> length fs" and "list_all (idle user l) (drop i fs)" and "\<not> o_stopOnFalse (cb_opts (lists w l))"
  shows "exec_cb user (Loop l x) w =
    Some (Inr (upd_list l (\<lambda>c. c\<lparr>firingIndex := int (length fs)\<rparr>) (fold (\<lambda>f. called f x) (drop i fs) w)))"
  using assms
proof (induction "length fs - i" arbitrary: i w)
  case 0
  then have i: "i = length fs" by simp
  have "\<not> more (lists w l)" using 0 i by (simp add: more_def)
  moreover have "upd_list l (\<lambda>c. c\<lparr>firingIndex := int (length fs)\<rparr>) w = w" using 0 i by (intro upd_same) simp
  ultimately show ?case using i by (subst exec_cb.simps) simp
next
  case (Suc k)
  let ?f = "fs ! i"
  have i: "i < length fs" using Suc.hyps(2) by simp
  then have dr: "drop i fs = ?f # drop (Suc i) fs" by (simp add: Cons_nth_drop_Suc)
  have id: "idle user l ?f" and rest: "list_all (idle user l) (drop (Suc i) fs)" using Suc.prems(5) dr by auto
  let ?w = "upd_list l next_index (called ?f x w)"
  have cur: "more (lists w l)" "current (lists w l) = Some ?f" using Suc.prems i by (auto simp: more_def current_def)
  have "exec_cb user (Loop l x) w = exec_cb user (Loop l x) ?w"
    by (subst exec_cb.simps) (simp add: cur idle_behave[OF id] idle_list[OF id] Suc.prems(6))
  also have "\<dots> = Some (Inr (upd_list l (\<lambda>c. c\<lparr>firingIndex := int (length fs)\<rparr>) (fold (\<lambda>f. called f x) (drop (Suc i) fs) ?w)))"
    using Suc.hyps Suc.prems i rest by (intro Suc.hyps(1)) (auto simp: next_index_def idle_list[OF id])
  also have "fold (\<lambda>f. called f x) (drop (Suc i) fs) ?w = upd_list l next_index (fold (\<lambda>f. called f x) (drop i fs) w)"
    by (simp add: dr idle_commute_fold[OF rest])
  finally show ?case by (simp add: next_index_def)
qed

text \<open>
  A list that is not firing calls its callbacks from \<open>firingStart\<close> on, in order, each once. \<open>fired_as\<close>
  is the list afterwards.
\<close>

definition fired_as :: "data \<Rightarrow> cblist \<Rightarrow> cblist" where
  "fired_as x c =
     fst (end_fire ((start_fire x c)\<lparr>firingIndex := firingLength (start_fire x c)\<rparr>))"

lemma fire_idle:
  assumes "lst (lists w l) = Some fs" and "firingStart (lists w l) \<le> length fs"
    and "stack (lists w l) = None \<or> stack (lists w l) = Some []"
    and "list_all (idle user l) (drop (firingStart (lists w l)) fs)" and "\<not> o_stopOnFalse (cb_opts (lists w l))"
  shows "exec_cb user (Fire l x) w =
    Some (Inr (upd_list l (fired_as x) (fold (\<lambda>f. called f x) (drop (firingStart (lists w l)) fs) w)))"
proof -
  let ?c = "lists w l" and ?n = "firingStart (lists w l)"
  let ?w = "upd_list l (start_fire x) w"
  let ?v = "fold (\<lambda>f. called f x) (drop ?n fs) w"
  let ?u = "upd_list l (\<lambda>c. (start_fire x c)\<lparr>firingIndex := int (length fs)\<rparr>) ?v"
  have same: "lists ?v l = ?c" using assms(4) by (rule idle_fold)
  have "exec_cb user (Loop l x) ?w = Some (Inr (upd_list l (\<lambda>c. c\<lparr>firingIndex := int (length fs)\<rparr>) (fold (\<lambda>f. called f x) (drop ?n fs) ?w)))"
    using assms by (intro loop_idle) (auto simp: start_fire_def)
  then have loop: "exec_cb user (Loop l x) ?w = Some (Inr ?u)" by (simp add: idle_commute_fold[OF assms(4)])
  have ul: "lists ?u l = (start_fire x ?c)\<lparr>firingIndex := firingLength (start_fire x ?c)\<rparr>"
    using assms(1) by (simp add: same) (simp add: start_fire_def)
  have fin: "snd (end_fire (lists ?u l)) = None"
    using assms(3) unfolding ul by (auto simp: end_fire_def start_fire_def split: option.split)
  have "exec_cb user (Fire l x) w = Some (Inr (set_list l (fst (end_fire (lists ?u l))) ?u))"
    using fin by (subst exec_cb.simps) (simp only: loop task.case Option.bind.simps sum.case, simp add: case_prod_unfold Let_def)
  also have "set_list l (fst (end_fire (lists ?u l))) ?u = upd_list l (fired_as x) ?v"
    unfolding ul by (simp add: upd_list_def set_list_def fired_as_def same)
  finally show ?thesis .
qed

lemma exec_fire:
  assumes "lst (lists w l) \<noteq> None" and "\<not> fired (lists w l) \<or> stack (lists w l) \<noteq> None" and "\<not> firing (lists w l)"
  shows "exec_cb user (Acts [AFire l x]) w = exec_cb user (Fire l x) w"
  using assms by (subst exec_cb.simps) (auto simp: Let_def)

lemma exec_fire_nothing:
  assumes "lst (lists w l) = None \<or> fired (lists w l) \<and> stack (lists w l) = None"
  shows "exec_cb user (Acts [AFire l x]) w = Some (Inr w)"
  using assms by (subst exec_cb.simps) (auto simp: Let_def)

lemma exec_add:
  assumes "lst (lists w l) \<noteq> None" and "\<not> firing (lists w l)" and "memo (lists w l) = Some x"
  shows "exec_cb user (Acts [AAdd l as]) w = exec_cb user (Fire l x) (upd_list l (added as) w)"
  using assms by (subst exec_cb.simps) (auto simp: Let_def)

lemma add_args_fns: "add_args False (map AFn gs) fs = fs @ gs"
  by (induction gs arbitrary: fs) auto

lemma fired_as_simps:
  assumes "lst c = Some fs" and "o_memory (cb_opts c)"
  shows "memo (fired_as x c) = Some x" "\<not> firing (fired_as x c)" "cb_opts (fired_as x c) = cb_opts c"
    "stack c = Some [] \<Longrightarrow> lst (fired_as x c) = Some fs \<and> stack (fired_as x c) = Some []"
    "stack c = None \<Longrightarrow> lst (fired_as x c) = Some [] \<and> stack (fired_as x c) = None"
    "fired (fired_as x c)" "firingStart (fired_as x c) = 0"
  using assms by (auto simp: fired_as_def end_fire_def start_fire_def Let_def split: option.split list.split)

text \<open>Adding functions to a list that has been fired with \<open>memory\<close>.\<close>

lemma add_after_fire:
  assumes "lst (lists w l) = Some fs" and "\<not> firing (lists w l)" and "memo (lists w l) = Some x"
    and "stack (lists w l) = None \<or> stack (lists w l) = Some []" and "list_all (idle user l) gs"
    and "\<not> o_stopOnFalse (cb_opts (lists w l))" and "\<not> o_unique (cb_opts (lists w l))"
  shows "exec_cb user (Acts [AAdd l (map AFn gs)]) w =
    Some (Inr (upd_list l (\<lambda>c. fired_as x (added (map AFn gs) c)) (fold (\<lambda>f. called f x) gs w)))"
proof -
  let ?w = "upd_list l (added (map AFn gs)) w"
  have c: "lists ?w l = (lists w l)\<lparr>lst := Some (fs @ gs), firingStart := length fs\<rparr>"
    using assms by (simp add: added_def add_args_fns)
  have "exec_cb user (Acts [AAdd l (map AFn gs)]) w = exec_cb user (Fire l x) ?w"
    using assms by (intro exec_add) auto
  also have "\<dots> = Some (Inr (upd_list l (fired_as x) (fold (\<lambda>f. called f x) (drop (firingStart (lists ?w l)) (fs @ gs)) ?w)))"
    by (rule fire_idle) (use assms in \<open>simp_all only: c, auto\<close>)
  finally show ?thesis by (simp only: c) (simp add: idle_commute_fold[OF assms(5)])
qed


abbreviation demo_fns :: page_fns where
  "demo_fns \<equiv> (\<lambda>n a w. ([], RVal Undef))"

abbreviation demo_world :: world where
  "demo_world \<equiv> \<lparr>lists = (\<lambda>_. (Callbacks ''once memory'')\<lparr>lst := Some [FUser 1, FUser 2]\<rparr>), dstate = (\<lambda>_. []),
     whens = (\<lambda>_. \<lparr>master = 0, remaining = 0, resolveValues = [], resolveContexts = [], progressValues = [], progressContexts = []\<rparr>),
     calls = []\<rparr>"


end
