(* ===== verification/Jq_Deferred.thy ===== *)
theory Jq_Deferred
  imports Jq_Callbacks
begin

text \<open>
  \<open>jQuery.Deferred\<close> and \<open>jQuery.when\<close> over the callback lists. The main law: whatever the callbacks of
  the page do, also while lists are firing, a deferred changes its state at most once.
\<close>

subsection \<open>Methods\<close>

definition promise_done :: "nat \<Rightarrow> cb_arg list \<Rightarrow> act list" where
  "promise_done d as = [AAdd (3 * d) as]"

definition promise_fail :: "nat \<Rightarrow> cb_arg list \<Rightarrow> act list" where
  "promise_fail d as = [AAdd (3 * d + 1) as]"

definition promise_progress :: "nat \<Rightarrow> cb_arg list \<Rightarrow> act list" where
  "promise_progress d as = [AAdd (3 * d + 2) as]"

definition promise_always :: "nat \<Rightarrow> cb_arg list \<Rightarrow> act list" where
  "promise_always d as = promise_done d [AArr as] @ promise_fail d [AArr as]"

definition resolve :: "nat \<Rightarrow> args \<Rightarrow> act list" where
  "resolve d xs = [settle d 0 (CDeferred d, xs)]"

definition reject :: "nat \<Rightarrow> args \<Rightarrow> act list" where
  "reject d xs = [settle d 1 (CDeferred d, xs)]"

definition notify :: "nat \<Rightarrow> args \<Rightarrow> act list" where
  "notify d xs = [settle d 2 (CDeferred d, xs)]"

text \<open>\<open>then(fnDone, fnFail, fnProgress)\<close> on \<open>d\<close>, with \<open>nd\<close> the new deferred.\<close>

definition promise_then :: "nat \<Rightarrow> nat \<Rightarrow> nat option \<Rightarrow> nat option \<Rightarrow> nat option \<Rightarrow> act list" where
  "promise_then d nd f0 f1 f2 =
     [ANew nd,
      AAdd (3 * d) [AFn (FThen d 0 f0 nd)],
      AAdd (3 * d + 1) [AFn (FThen d 1 f1 nd)],
      AAdd (3 * d + 2) [AFn (FThen d 2 f2 nd)]]"

subsection \<open>when\<close>

text \<open>The loop over the arguments, which are values or deferreds; \<open>m\<close> numbers the \<open>when\<close> and its master.\<close>

fun when_loop :: "page_fns \<Rightarrow> nat \<Rightarrow> nat \<Rightarrow> (jsval + nat) list \<Rightarrow> world \<Rightarrow> world result option" where
  "when_loop user m i [] w = Some (Inr w)"
| "when_loop user m i (Inr d # as) w =
     Option.bind (exec_cb user (Acts [AAdd (3 * d) [AFn (FUpdate m i False)], AAdd (3 * d + 1) [AFn (FAction m 1)],
                                      AAdd (3 * d + 2) [AFn (FUpdate m i True)]]) w)
       (\<lambda>r. case r of Inl e \<Rightarrow> Some (Inl e) | Inr w1 \<Rightarrow> when_loop user m (Suc i) as w1)"
| "when_loop user m i (Inl v # as) w =
     when_loop user m (Suc i) as
       (w\<lparr>whens := (whens w)(m := (whens w m)\<lparr>remaining := remaining (whens w m) - 1\<rparr>)\<rparr>)"

definition arg_value :: "jsval + nat \<Rightarrow> jsval" where
  "arg_value a = (case a of Inl v \<Rightarrow> v | Inr _ \<Rightarrow> Undef)"

text \<open>
  The result is the deferred whose promise is returned. A slot of \<open>resolveValues\<close> that holds a
  deferred is overwritten before the master resolves.
\<close>

definition jq_when :: "page_fns \<Rightarrow> nat \<Rightarrow> (jsval + nat) list \<Rightarrow> world \<Rightarrow> (nat \<times> world) result option" where
  "jq_when user m args w =
     (case args of
        [Inr d] \<Rightarrow> Some (Inr (d, w))
      | _ \<Rightarrow>
          let n = length args;
              w1 = new_Deferred m w;
              q = \<lparr>master = m, remaining = (if n = 1 then 0 else int n), resolveValues = map arg_value args,
                   resolveContexts = replicate n (CVal Undef), progressValues = replicate n Undef,
                   progressContexts = replicate n (CVal Undef)\<rparr>;
              w2 = w1\<lparr>whens := (whens w1)(m := q)\<rparr>
          in Option.bind (if 1 < n then when_loop user m 0 args w2 else Some (Inr w2))
               (\<lambda>r. case r of
                      Inl e \<Rightarrow> Some (Inl e)
                    | Inr w3 \<Rightarrow>
                        let q3 = whens w3 m
                        in if remaining q3 = 0
                           then Option.bind (exec_cb user (Acts [AFire (3 * m)
                                    (if 1 < n then CArr (resolveContexts q3) else CVal Undef, resolveValues q3)]) w3)
                                  (\<lambda>r. case r of Inl e \<Rightarrow> Some (Inl e) | Inr w4 \<Rightarrow> Some (Inr (m, w4)))
                           else Some (Inr (m, w3))))"

subsection \<open>A deferred and its lists\<close>

definition final :: "nat \<Rightarrow> string" where
  "final k = (if k = 0 then ''resolved'' else ''rejected'')"

definition heads :: "nat \<Rightarrow> nat \<Rightarrow> fn list" where
  "heads d k = [FSetState d (final k), FDisable (3 * d + (1 - k)), FLock (3 * d + 2)]"

definition own :: "nat \<Rightarrow> nat \<Rightarrow> bool" where
  "own d l \<longleftrightarrow> l = 3 * d \<or> l = 3 * d + 1"

text \<open>The functions only \<open>Deferred\<close> itself puts into the two lists of \<open>d\<close>.\<close>

definition harmful :: "nat \<Rightarrow> fn \<Rightarrow> bool" where
  "harmful d f =
     (case f of FSetState d' _ \<Rightarrow> d' = d | FDisable l \<Rightarrow> own d l | FLock l \<Rightarrow> own d l | _ \<Rightarrow> False)"

definition clean :: "nat \<Rightarrow> cblist \<Rightarrow> bool" where
  "clean d c = (case lst c of None \<Rightarrow> True | Some fs \<Rightarrow> list_all (\<lambda>f. \<not> harmful d f) fs)"

text \<open>The two lists of a pending deferred, before and after the call of \<open>fire\<close> has begun.\<close>

definition full :: "nat \<Rightarrow> nat \<Rightarrow> cblist \<Rightarrow> bool" where
  "full d k c \<longleftrightarrow> (\<exists>us. lst c = Some (heads d k @ us) \<and> list_all (\<lambda>f. \<not> harmful d f) us) \<and> stack c = None"

definition waiting_list :: "nat \<Rightarrow> nat \<Rightarrow> cblist \<Rightarrow> bool" where
  "waiting_list d k c \<longleftrightarrow> full d k c \<and> \<not> fired c \<and> \<not> firing c \<and> memo c = None \<and> firingStart c = 0"

definition others_clean :: "nat \<Rightarrow> world \<Rightarrow> bool" where
  "others_clean d w \<longleftrightarrow> (\<forall>l. \<not> own d l \<longrightarrow> clean d (lists w l))"

definition is_pending :: "nat \<Rightarrow> world \<Rightarrow> bool" where
  "is_pending d w \<longleftrightarrow> dstate w d = ''pending'' \<and> waiting_list d 0 (lists w (3 * d)) \<and> waiting_list d 1 (lists w (3 * d + 1))"

definition is_settled :: "nat \<Rightarrow> nat \<Rightarrow> world \<Rightarrow> bool" where
  "is_settled d k w \<longleftrightarrow>
     dstate w d = final k \<and> lst (lists w (3 * d + (1 - k))) = None \<and>
     (let c = lists w (3 * d + k) in fired c \<and> stack c = None \<and> (clean d c \<or> full d k c \<and> firing c \<and> 1 \<le> firingIndex c))"

definition deferred_ok :: "nat \<Rightarrow> world \<Rightarrow> bool" where
  "deferred_ok d w \<longleftrightarrow> others_clean d w \<and> (is_pending d w \<or> is_settled d 0 w \<or> is_settled d 1 w)"

text \<open>While the first two callbacks of list \<open>3 d + k\<close> are called: \<open>i\<close> is the index.\<close>

definition settling :: "nat \<Rightarrow> nat \<Rightarrow> nat \<Rightarrow> world \<Rightarrow> bool" where
  "settling d k i w \<longleftrightarrow>
     others_clean d w \<and> waiting_list d (1 - k) (lists w (3 * d + (1 - k))) \<and>
     dstate w d = (if i = 0 then ''pending'' else final k) \<and>
     (let c = lists w (3 * d + k) in full d k c \<and> fired c \<and> firing c \<and> firingIndex c = int i \<and> 3 \<le> firingLength c)"

text \<open>What the page may do to the lists: everything the methods of promises and deferreds offer.\<close>

fun polite_args :: "nat \<Rightarrow> cb_arg list \<Rightarrow> bool" where
  "polite_args d [] = True"
| "polite_args d (AFn f # as) = (\<not> harmful d f \<and> polite_args d as)"
| "polite_args d (AArr bs # as) = (polite_args d bs \<and> polite_args d as)"
| "polite_args d (AOther # as) = polite_args d as"

fun polite :: "nat \<Rightarrow> act \<Rightarrow> bool" where
  "polite d (AAdd l as) = polite_args d as"
| "polite d (ARemove l fs) = (\<not> own d l)"
| "polite d (AFire l x) = True"
| "polite d (AEmpty l) = (\<not> own d l)"
| "polite d (ADisable l) = (\<not> own d l)"
| "polite d (ALock l) = (\<not> own d l)"
| "polite d (AUpdate m i p x) = True"
| "polite d (ANew d') = (d' \<noteq> d)"

subsection \<open>Every update keeps the invariant\<close>

lemma final_not_pending [simp]: "final k \<noteq> ''pending''" "''pending'' \<noteq> final k"
  by (simp_all add: final_def)

lemma harmful_simps [simp]:
  "\<not> harmful d (FUser n)" "\<not> harmful d (FThen e k f nd)" "\<not> harmful d (FAction e k)" "\<not> harmful d (FUpdate m i p)"
  "harmful d (FSetState e s) \<longleftrightarrow> e = d" "harmful d (FDisable l) \<longleftrightarrow> own d l" "harmful d (FLock l) \<longleftrightarrow> own d l"
  by (simp_all add: harmful_def)

lemma add_args_polite:
  "polite_args d as \<Longrightarrow> \<exists>gs. add_args u as fs = fs @ gs \<and> list_all (\<lambda>f. \<not> harmful d f) gs"
proof (induction u as fs rule: add_args.induct)
  case (2 u f as fs)
  then obtain gs where "add_args u as (if \<not> u \<or> f \<notin> set fs then fs @ [f] else fs) = (if \<not> u \<or> f \<notin> set fs then fs @ [f] else fs) @ gs"
    "list_all (\<lambda>f. \<not> harmful d f) gs" by auto
  then show ?case using 2(2) by (auto intro!: exI[of _ "(if \<not> u \<or> f \<notin> set fs then [f] else []) @ gs"])
next
  case (3 u bs as fs)
  then obtain gs where g: "add_args u bs fs = fs @ gs" "list_all (\<lambda>f. \<not> harmful d f) gs" by auto
  with 3 obtain hs where "add_args u as (fs @ gs) = (fs @ gs) @ hs" "list_all (\<lambda>f. \<not> harmful d f) hs" by auto
  then show ?case using g by (auto intro!: exI[of _ "gs @ hs"])
qed auto

definition settled_list :: "nat \<Rightarrow> nat \<Rightarrow> cblist \<Rightarrow> bool" where
  "settled_list d k c \<longleftrightarrow> fired c \<and> stack c = None \<and> (clean d c \<or> full d k c \<and> firing c \<and> 1 \<le> firingIndex c)"

lemma is_settled_list:
  "is_settled d k w \<longleftrightarrow>
     dstate w d = final k \<and> lst (lists w (3 * d + (1 - k))) = None \<and> settled_list d k (lists w (3 * d + k))"
  by (simp add: is_settled_def settled_list_def Let_def)

text \<open>An update of one list that does not belong to \<open>d\<close>.\<close>

lemma ok_other:
  assumes "deferred_ok d w" and "\<not> own d l" and "clean d c"
  shows "deferred_ok d (set_list l c w)"
proof -
  have l: "l \<noteq> 3 * d" "l \<noteq> 3 * d + 1" using assms(2) by (simp_all add: own_def)
  then have "is_pending d (set_list l c w) = is_pending d w" by (simp add: is_pending_def)
  moreover have "is_settled d 0 (set_list l c w) = is_settled d 0 w" "is_settled d 1 (set_list l c w) = is_settled d 1 w"
    using l by (simp_all add: is_settled_list)
  moreover have "others_clean d (set_list l c w)" using assms by (simp add: deferred_ok_def others_clean_def)
  ultimately show ?thesis using assms(1) by (simp add: deferred_ok_def)
qed

lemma clean_other: "deferred_ok d w \<Longrightarrow> \<not> own d l \<Longrightarrow> clean d (lists w l)"
  by (simp add: deferred_ok_def others_clean_def)

text \<open>An update of a list of a settled deferred.\<close>

definition settled_keep :: "nat \<Rightarrow> nat \<Rightarrow> cblist \<Rightarrow> cblist \<Rightarrow> bool" where
  "settled_keep d k c c' \<longleftrightarrow>
     (fired c \<longrightarrow> fired c') \<and> (stack c = None \<longrightarrow> stack c' = None) \<and> (lst c = None \<longrightarrow> lst c' = None) \<and>
     (stack c = None \<and> (clean d c \<or> full d k c \<and> firing c \<and> 1 \<le> firingIndex c) \<longrightarrow>
        clean d c' \<or> full d k c' \<and> firing c' \<and> 1 \<le> firingIndex c')"

lemma ok_settled:
  assumes "is_settled d k w" and "k < 2" and "\<And>j. j < 2 \<Longrightarrow> settled_keep d j (lists w l) c"
  shows "is_settled d k (set_list l c w)"
proof -
  have keep: "settled_keep d k (lists w l) c" using assms(2,3) by simp
  then have "lst (lists w l) = None \<Longrightarrow> lst c = None" by (simp add: settled_keep_def)
  moreover have "settled_list d k (lists w l) \<Longrightarrow> settled_list d k c"
    using keep unfolding settled_keep_def settled_list_def by blast
  ultimately show ?thesis using assms(1) unfolding is_settled_list by auto
qed

lemma settled_index:
  assumes "deferred_ok d w" and "dstate w d \<noteq> ''pending''"
  obtains k where "k < 2" and "is_settled d k w"
proof -
  have "is_settled d 0 w \<or> is_settled d 1 w" using assms by (auto simp: deferred_ok_def is_pending_def)
  then show thesis using that[of 0] that[of 1] by auto
qed

lemma ok_upd:
  assumes "deferred_ok d w" and "own d l \<Longrightarrow> dstate w d \<noteq> ''pending''"
    and "clean d (lists w l) \<Longrightarrow> clean d c" and "\<And>j. j < 2 \<Longrightarrow> settled_keep d j (lists w l) c"
  shows "deferred_ok d (set_list l c w)"
proof (cases "own d l")
  case False
  then show ?thesis using assms clean_other ok_other by blast
next
  case True
  then have np: "dstate w d \<noteq> ''pending''" by (rule assms(2))
  have oc: "others_clean d (set_list l c w)" using assms(1) True by (auto simp: deferred_ok_def others_clean_def)
  obtain k where k: "k < 2" "is_settled d k w" using settled_index[OF assms(1) np] .
  then have "is_settled d k (set_list l c w)" using assms(4) by (intro ok_settled) auto
  then show ?thesis using oc k(1) by (auto simp: deferred_ok_def less_2_cases_iff)
qed

lemma added_lst:
  assumes "polite_args d as" and "lst c = Some fs"
  obtains gs where "lst (added as c) = Some (fs @ gs)" and "list_all (\<lambda>f. \<not> harmful d f) gs"
proof -
  obtain gs where "add_args (o_unique (cb_opts c)) as fs = fs @ gs" "list_all (\<lambda>f. \<not> harmful d f) gs"
    using add_args_polite[OF assms(1)] by blast
  moreover from this assms(2) have "lst (added as c) = Some (fs @ gs)" by (simp add: added_def Let_def)
  ultimately show thesis using that by blast
qed

lemma added_clean: "polite_args d as \<Longrightarrow> clean d c \<Longrightarrow> clean d (added as c)"
proof (cases "lst c")
  case (Some fs)
  assume as: "polite_args d as" "clean d c"
  obtain gs where "lst (added as c) = Some (fs @ gs)" "list_all (\<lambda>f. \<not> harmful d f) gs" using added_lst[OF as(1) Some] .
  then show ?thesis using as(2) Some by (simp add: clean_def)
qed (simp add: added_def)

lemma added_same [simp]:
  "fired (added as c) = fired c" "stack (added as c) = stack c" "firing (added as c) = firing c"
  "firingIndex (added as c) = firingIndex c" "memo (added as c) = memo c" "lst (added as c) = None \<longleftrightarrow> lst c = None"
  "memo c = None \<Longrightarrow> firingStart (added as c) = firingStart c"
  by (auto simp: added_def Let_def split: option.splits)

lemma added_full: "polite_args d as \<Longrightarrow> full d k c \<Longrightarrow> full d k (added as c)"
  unfolding full_def by (elim conjE exE, erule (1) added_lst) auto

lemma added_keep: "polite_args d as \<Longrightarrow> settled_keep d j c (added as c)"
  by (auto simp: settled_keep_def added_clean added_full)

lemma ok_add:
  assumes "deferred_ok d w" and "polite_args d as"
  shows "deferred_ok d (upd_list l (added as) w)"
proof (cases "own d l \<and> dstate w d = ''pending''")
  case False
  then show ?thesis unfolding upd_list_def using assms by (intro ok_upd) (auto simp: added_clean added_keep)
next
  case True
  have p: "is_pending d w" using assms(1) True by (auto simp: deferred_ok_def is_settled_def final_def)
  then have "waiting_list d k c \<Longrightarrow> waiting_list d k (added as c)" for k c
    using assms(2) by (simp add: waiting_list_def added_full)
  then have "is_pending d (upd_list l (added as) w)" using p by (auto simp: is_pending_def)
  moreover have "others_clean d (upd_list l (added as) w)"
    using assms(1) True by (auto simp: deferred_ok_def others_clean_def)
  ultimately show ?thesis by (simp add: deferred_ok_def)
qed

lemma start_keep: "\<not> firing c \<Longrightarrow> settled_keep d j c (start_fire x c)"
  by (auto simp: settled_keep_def start_fire_def clean_def)

lemma end_keep: "settled_keep d j c (fst (end_fire c))"
  by (auto simp: settled_keep_def end_fire_def clean_def disable_def Let_def split: option.splits list.splits)

lemma end_clean: "clean d c \<Longrightarrow> clean d (fst (end_fire c))"
  by (auto simp: end_fire_def clean_def disable_def Let_def split: option.splits list.splits)

lemma index_keep: "settled_keep d j c (next_index c)" "settled_keep d j c (forget c)" "settled_keep d j c (disable c)"
  "settled_keep d j c (c\<lparr>stack := map_option g (stack c)\<rparr>)"
  by (auto simp: settled_keep_def next_index_def forget_def disable_def clean_def full_def)

lemma plain_clean:
  "clean d (next_index c) = clean d c" "clean d (forget c) = clean d c" "clean d (start_fire x c) = clean d c"
  "clean d (disable c)" "clean d (c\<lparr>stack := st\<rparr>) = clean d c" "clean d (cb_empty c)"
  by (simp_all add: clean_def next_index_def forget_def start_fire_def disable_def cb_empty_def)

lemma lock_clean: "clean d c \<Longrightarrow> clean d (lock c)"
  by (auto simp: clean_def lock_def disable_def Let_def)

lemma set_drop_at: "set (drop_at j fs) \<subseteq> set fs"
  by (auto simp: drop_at_def dest: in_set_takeD in_set_dropD)

lemma remove_fn_subset: "set (fst (remove_fn busy f i q)) \<subseteq> set (fst q)"
proof (induction busy f i q rule: remove_fn.induct)
  case (1 busy f i fs len idx)
  then show ?case
  proof (cases "fn_index f fs i")
    case (Some j)
    have "set (fst (remove_fn busy f i (fs, len, idx))) \<subseteq> set (drop_at j fs)"
      using 1[OF Some] by (subst remove_fn.simps) (simp add: Some)
    then show ?thesis using set_drop_at[of j fs] by simp
  qed (subst remove_fn.simps, simp)
qed

lemma fold_remove_subset: "set (fst (fold (\<lambda>f. remove_fn busy f 0) fs q)) \<subseteq> set (fst q)"
proof (induction fs arbitrary: q)
  case (Cons f fs)
  have "set (fst (fold (\<lambda>f. remove_fn busy f 0) fs (remove_fn busy f 0 q))) \<subseteq> set (fst (remove_fn busy f 0 q))" by (rule Cons)
  also have "\<dots> \<subseteq> set (fst q)" by (rule remove_fn_subset)
  finally show ?case by simp
qed simp

lemma remove_clean: "clean d c \<Longrightarrow> clean d (cb_remove fs c)"
proof (cases "lst c")
  case (Some l)
  assume "clean d c"
  then show ?thesis
    using fold_remove_subset[of "firing c" fs "(l, firingLength c, firingIndex c)"] Some
    by (auto simp: clean_def cb_remove_def list_all_iff case_prod_unfold Let_def)
qed (simp add: cb_remove_def)

lemma ok_start:
  assumes "deferred_ok d w" and "\<not> firing (lists w l)" and "own d l \<Longrightarrow> dstate w d \<noteq> ''pending''"
  shows "deferred_ok d (upd_list l (start_fire x) w)"
  unfolding upd_list_def using assms by (intro ok_upd) (auto simp: plain_clean start_keep)

lemma ok_end:
  assumes "deferred_ok d w" and "own d l \<Longrightarrow> dstate w d \<noteq> ''pending''"
  shows "deferred_ok d (set_list l (fst (end_fire (lists w l))) w)"
  using assms by (intro ok_upd) (auto simp: end_clean end_keep)

lemma ok_step:
  assumes "deferred_ok d w" and "own d l \<Longrightarrow> dstate w d \<noteq> ''pending''"
  shows "deferred_ok d (upd_list l next_index w)" "deferred_ok d (upd_list l forget w)"
  unfolding upd_list_def using assms by (intro ok_upd; auto simp: plain_clean index_keep)+

lemma ok_push:
  assumes "deferred_ok d w" and "own d l \<Longrightarrow> dstate w d \<noteq> ''pending''"
  shows "deferred_ok d (set_list l ((lists w l)\<lparr>stack := map_option g (stack (lists w l))\<rparr>) w)"
  using assms by (intro ok_upd) (auto simp: plain_clean index_keep)

lemma ok_calls: "deferred_ok d (w\<lparr>calls := cs\<rparr>) = deferred_ok d w" "deferred_ok d (w\<lparr>whens := ws\<rparr>) = deferred_ok d w"
  by (simp_all add: deferred_ok_def others_clean_def is_pending_def is_settled_def)

subsection \<open>Callbacks\<close>

lemma own_other:
  assumes "d' \<noteq> d"
  shows "\<not> own d (3 * d')" "\<not> own d (3 * d' + 1)" "\<not> own d (3 * d' + 2)"
  using assms unfolding own_def by presburger+

lemma own_progress [simp]: "\<not> own d (3 * d + 2)" "\<not> own d (Suc (Suc (3 * d)))"
  by (simp_all add: own_def)

lemma ok_cong:
  assumes "deferred_ok d w" and "lists w' = lists w" and "dstate w' d = dstate w d"
  shows "deferred_ok d w'"
  using assms by (simp add: deferred_ok_def others_clean_def is_pending_def is_settled_def)

lemma ok_internal:
  assumes "deferred_ok d w" and "\<not> harmful d f"
  shows "deferred_ok d (internal f w) \<and> dstate (internal f w) d = dstate w d"
  using assms
  by (cases f)
     (auto simp: internal_def upd_list_def plain_clean intro!: ok_other lock_clean clean_other intro: ok_cong[of d w])

lemma ok_disable:
  assumes "deferred_ok d w" and "dstate w d \<noteq> ''pending''"
  shows "deferred_ok d (upd_list l disable w)"
  unfolding upd_list_def using assms by (intro ok_upd) (auto simp: plain_clean index_keep)

lemma current_in:
  assumes "current c = Some f" and "lst c = Some fs"
  shows "f \<in> set fs \<and> f = fs ! nat (firingIndex c) \<and> nat (firingIndex c) < length fs"
  using assms by (auto simp: current_def split: if_splits)

lemma full_current:
  assumes "full d k c" and "1 \<le> firingIndex c" and "current c = Some f" and "harmful d f"
  shows "f = FDisable (3 * d + (1 - k))"
proof -
  obtain us where us: "lst c = Some (heads d k @ us)" "list_all (\<lambda>f. \<not> harmful d f) us" using assms(1) by (auto simp: full_def)
  let ?i = "nat (firingIndex c)"
  have f: "f = (heads d k @ us) ! ?i" "?i < length (heads d k @ us)" using current_in[OF assms(3) us(1)] by auto
  have "?i = 1 \<or> ?i = 2 \<or> 3 \<le> ?i" using assms(2) by linarith
  then show ?thesis
  proof (elim disjE)
    assume "3 \<le> ?i"
    then have "f = us ! (?i - 3)" "?i - 3 < length us" using f by (auto simp: heads_def nth_append numeral_3_eq_3)
    then have "f \<in> set us" by simp
    then have False using us(2) assms(4) by (simp add: list_all_iff)
    then show ?thesis ..
  next
    assume "?i = 2"
    then show ?thesis using f assms(4) by (simp add: heads_def)
  qed (use f in \<open>simp add: heads_def\<close>)
qed

lemma ok_called:
  assumes "deferred_ok d w" and "own d l \<Longrightarrow> dstate w d \<noteq> ''pending''" and "current (lists w l) = Some f"
  shows "deferred_ok d (called f x w) \<and> dstate (called f x w) d = dstate w d"
proof -
  let ?w = "w\<lparr>calls := calls w @ [(f, x)]\<rparr>"
  have ok: "deferred_ok d ?w" using assms(1) by (simp add: ok_calls)
  show ?thesis
  proof (cases "harmful d f")
    case False
    then show ?thesis using ok_internal[OF ok False] by (simp add: called_def)
  next
    case True
    have nc: "\<not> clean d (lists w l)"
      using True assms(3) by (auto simp: current_def clean_def list_all_iff split: option.splits if_splits)
    then have own: "own d l" using clean_other[OF assms(1)] by blast
    obtain k where k: "k < 2" "is_settled d k w" using settled_index[OF assms(1) assms(2)[OF own]] .
    have "lst (lists w l) \<noteq> None" using assms(3) by (cases "lst (lists w l)") (simp_all add: current_def)
    then have l: "l = 3 * d + k" using own k by (auto simp: own_def is_settled_list less_2_cases_iff)
    then have "full d k (lists w l)" "1 \<le> firingIndex (lists w l)" using k(2) nc by (auto simp: is_settled_list settled_list_def)
    then have f: "f = FDisable (3 * d + (1 - k))" using full_current assms(3) True by blast
    show ?thesis using ok_disable[OF ok] assms(2)[OF own] by (simp add: f called_def internal_def)
  qed
qed

lemma ok_new:
  assumes "deferred_ok d w" and "d' \<noteq> d"
  shows "deferred_ok d (new_Deferred d' w) \<and> dstate (new_Deferred d' w) d = dstate w d"
proof -
  note o = own_other[OF assms(2)]
  have c: "clean d ((Callbacks s)\<lparr>lst := Some [FSetState d' t, FDisable (3 * d'), FLock (3 * d' + 2)]\<rparr>)"
    "clean d ((Callbacks s)\<lparr>lst := Some [FSetState d' t, FDisable (3 * d' + 1), FLock (3 * d' + 2)]\<rparr>)" "clean d (Callbacks s)" for s t
    using o assms(2) by (simp_all add: clean_def Callbacks_def Let_def)
  define w1 where "w1 = set_list (3 * d') ((Callbacks ''once memory'')\<lparr>lst := Some [FSetState d' ''resolved'', FDisable (3 * d' + 1), FLock (3 * d' + 2)]\<rparr>) w"
  define w2 where "w2 = set_list (3 * d' + 1) ((Callbacks ''once memory'')\<lparr>lst := Some [FSetState d' ''rejected'', FDisable (3 * d'), FLock (3 * d' + 2)]\<rparr>) w1"
  define w3 where "w3 = set_list (3 * d' + 2) (Callbacks ''memory'') w2"
  have "deferred_ok d w1" unfolding w1_def using assms(1) o(1) c(2) by (rule ok_other)
  then have "deferred_ok d w2" unfolding w2_def using o(2) c(1) by (rule ok_other)
  then have w3: "deferred_ok d w3" unfolding w3_def using o(3) c(3) by (rule ok_other)
  have new: "new_Deferred d' w = w3\<lparr>dstate := (dstate w3)(d' := ''pending'')\<rparr>"
    by (simp only: new_Deferred_def Let_def w1_def w2_def w3_def)
  have "deferred_ok d (new_Deferred d' w)" unfolding new by (rule ok_cong[OF w3]) (use assms(2) in simp_all)
  moreover have "dstate w3 = dstate w" by (simp add: w1_def w2_def w3_def)
  ultimately show ?thesis using assms(2) unfolding new by simp
qed

subsection \<open>Settling\<close>

lemma index_cases: "k < 2 \<Longrightarrow> (k = 0 \<Longrightarrow> P) \<Longrightarrow> (k = 1 \<Longrightarrow> P) \<Longrightarrow> P" for k :: nat
  by (auto simp: less_2_cases_iff)

lemma others_own:
  assumes "others_clean d w" and "\<And>l. \<not> own d l \<Longrightarrow> lists w' l = lists w l"
  shows "others_clean d w'"
  using assms by (simp add: others_clean_def)

lemma settling_start:
  assumes "deferred_ok d w" and "dstate w d = ''pending''" and "k < 2"
  shows "settling d k 0 (upd_list (3 * d + k) (start_fire x) w)"
proof -
  have p: "is_pending d w" using assms(1,2) by (auto simp: deferred_ok_def is_settled_def final_def)
  then have wl: "waiting_list d k (lists w (3 * d + k))" "waiting_list d (1 - k) (lists w (3 * d + (1 - k)))"
    using assms(3) by (auto simp: is_pending_def elim: index_cases)
  have "own d (3 * d + k)" using assms(3) by (auto simp: own_def elim: index_cases)
  have "others_clean d (upd_list (3 * d + k) (start_fire x) w)"
    by (rule others_own[where w = w]) (use assms(1) \<open>own d (3 * d + k)\<close> in \<open>auto simp: deferred_ok_def\<close>)
  moreover have "3 * d + (1 - k) \<noteq> 3 * d + k" using assms(3) by (rule index_cases) simp_all
  ultimately show ?thesis
    using wl assms(2) by (auto simp: settling_def Let_def waiting_list_def full_def start_fire_def heads_def)
qed

lemma settling_current:
  assumes "settling d k i w" and "i < 2"
  shows "more (lists w (3 * d + k))" and "current (lists w (3 * d + k)) = Some (heads d k ! i)"
  using assms by (auto simp: settling_def Let_def full_def more_def current_def heads_def less_2_cases_iff)

lemma settling_first:
  assumes "settling d k 0 w" and "k < 2"
  shows "settling d k 1 (upd_list (3 * d + k) next_index (called (heads d k ! 0) x w))"
proof -
  let ?w = "upd_list (3 * d + k) next_index (called (heads d k ! 0) x w)"
  have ne: "3 * d + (1 - k) \<noteq> 3 * d + k" using assms(2) by (rule index_cases) simp_all
  have "own d (3 * d + k)" using assms(2) by (auto simp: own_def elim: index_cases)
  have "others_clean d ?w"
    by (rule others_own[where w = w]) (use assms(1) \<open>own d (3 * d + k)\<close> in \<open>auto simp: settling_def called_def internal_def heads_def\<close>)
  moreover have "dstate ?w d = final k" by (simp add: called_def internal_def heads_def)
  moreover have "lists ?w (3 * d + k) = next_index (lists w (3 * d + k))" "lists ?w (3 * d + (1 - k)) = lists w (3 * d + (1 - k))"
    using ne by (simp_all add: called_def internal_def heads_def)
  ultimately show ?thesis using assms(1) by (simp add: settling_def Let_def next_index_def full_def)
qed

lemma settling_second:
  assumes "settling d k 1 w" and "k < 2"
  shows "deferred_ok d (upd_list (3 * d + k) next_index (called (heads d k ! 1) x w)) \<and>
    dstate (upd_list (3 * d + k) next_index (called (heads d k ! 1) x w)) d = final k"
proof -
  let ?w = "upd_list (3 * d + k) next_index (called (heads d k ! 1) x w)"
  have ne: "3 * d + (1 - k) \<noteq> 3 * d + k" using assms(2) by (rule index_cases) simp_all
  have "own d (3 * d + k)" "own d (3 * d + (1 - k))" using assms(2) by (auto simp: own_def elim: index_cases)
  have "others_clean d ?w"
    by (rule others_own[where w = w]) (use assms(1) \<open>own d (3 * d + k)\<close> \<open>own d (3 * d + (1 - k))\<close> in \<open>auto simp: settling_def called_def internal_def heads_def\<close>)
  moreover have st: "dstate ?w d = final k" using assms(1) by (simp add: settling_def called_def internal_def heads_def)
  moreover have "lists ?w (3 * d + k) = next_index (lists w (3 * d + k))"
    "lists ?w (3 * d + (1 - k)) = disable (lists w (3 * d + (1 - k)))"
    using ne by (simp_all add: called_def internal_def heads_def)
  then have "is_settled d k ?w"
    using assms(1) st by (simp add: settling_def is_settled_list settled_list_def Let_def next_index_def full_def disable_def)
  ultimately show ?thesis using assms(2) by (auto simp: deferred_ok_def elim: index_cases)
qed

subsection \<open>Executions\<close>

definition polite_fns :: "nat \<Rightarrow> page_fns \<Rightarrow> bool" where
  "polite_fns d user \<longleftrightarrow> (\<forall>n a w. list_all (polite d) (fst (user n a w)))"

definition before :: "nat \<Rightarrow> task \<Rightarrow> world \<Rightarrow> bool" where
  "before d t w =
     (case t of
        Acts as \<Rightarrow> deferred_ok d w \<and> list_all (polite d) as
      | Fire l x \<Rightarrow> deferred_ok d w \<and> lst (lists w l) \<noteq> None \<and> \<not> firing (lists w l)
      | Loop l x \<Rightarrow> deferred_ok d w \<and> (own d l \<longrightarrow> dstate w d \<noteq> ''pending'') \<or>
                    (\<exists>k i. k < 2 \<and> i < 2 \<and> l = 3 * d + k \<and> settling d k i w))"

definition target :: "nat \<Rightarrow> task \<Rightarrow> nat \<Rightarrow> bool" where
  "target d t k = (case t of Acts _ \<Rightarrow> False | Fire l _ \<Rightarrow> l = 3 * d + k \<and> k < 2 | Loop l _ \<Rightarrow> l = 3 * d + k \<and> k < 2)"

definition after :: "nat \<Rightarrow> task \<Rightarrow> world \<Rightarrow> world \<Rightarrow> bool" where
  "after d t w w' \<longleftrightarrow>
     deferred_ok d w' \<and> (dstate w d \<noteq> ''pending'' \<longrightarrow> dstate w' d = dstate w d) \<and>
     (\<forall>k. dstate w d = ''pending'' \<and> target d t k \<longrightarrow> dstate w' d = final k)"

text \<open>What an execution has to satisfy, and one step of it over an execution that does.\<close>

definition lawful :: "nat \<Rightarrow> (task \<Rightarrow> world \<Rightarrow> world result option) \<Rightarrow> bool" where
  "lawful d ex \<longleftrightarrow>
     (\<forall>w r. ex (Acts []) w = Some r \<longrightarrow> r = Inr w) \<and>
     (\<forall>t w w'. ex t w = Some (Inr w') \<longrightarrow> before d t w \<longrightarrow> after d t w w')"

lemma lawfulD: "lawful d ex \<Longrightarrow> ex t w = Some (Inr w') \<Longrightarrow> before d t w \<Longrightarrow> after d t w w'"
  by (simp add: lawful_def)

lemma afterD: "after d t w w' \<Longrightarrow> deferred_ok d w'" "after d t w w' \<Longrightarrow> dstate w d \<noteq> ''pending'' \<Longrightarrow> dstate w' d = dstate w d"
  by (simp_all add: after_def)

lemma after_acts: "after d (Acts as) w w' \<longleftrightarrow> deferred_ok d w' \<and> (dstate w d \<noteq> ''pending'' \<longrightarrow> dstate w' d = dstate w d)"
  by (simp add: after_def target_def)

lemma pending_idle:
  assumes "deferred_ok d w" and "own d l" and "dstate w d = ''pending''"
  shows "\<not> firing (lists w l)"
  using assms by (auto simp: deferred_ok_def is_pending_def is_settled_list own_def waiting_list_def final_def)

lemma add_step:
  assumes "lawful d ex" and "deferred_ok d w" and "polite_args d xs"
    and "(let c = lists w l; w1 = upd_list l (added xs) w
          in if lst c \<noteq> None \<and> \<not> firing c \<and> memo c \<noteq> None then ex (Fire l (the (memo c))) w1 else Some (Inr w1)) = Some (Inr w')"
  shows "after d (Acts as) w w'"
proof -
  let ?w = "upd_list l (added xs) w"
  have ok: "deferred_ok d ?w" using assms(2,3) by (rule ok_add)
  show ?thesis
  proof (cases "lst (lists w l) \<noteq> None \<and> \<not> firing (lists w l) \<and> memo (lists w l) \<noteq> None")
    case True
    then have "ex (Fire l (the (memo (lists w l)))) ?w = Some (Inr w')" using assms(4) by (simp add: Let_def)
    moreover have "before d (Fire l (the (memo (lists w l)))) ?w" using True ok by (simp add: before_def)
    ultimately have "after d (Fire l (the (memo (lists w l)))) ?w w'" by (rule lawfulD[OF assms(1)])
    then show ?thesis by (simp add: after_def target_def)
  next
    case False
    then have "w' = ?w" using assms(4) by (simp add: Let_def split: if_splits)
    then show ?thesis using ok by (simp add: after_acts)
  qed
qed

lemma fire_step:
  assumes "lawful d ex" and "deferred_ok d w"
    and "(let c = lists w l
          in if lst c \<noteq> None \<and> (\<not> fired c \<or> stack c \<noteq> None)
             then (if firing c then Some (Inr (set_list l (c\<lparr>stack := map_option (\<lambda>st. st @ [x]) (stack c)\<rparr>) w)) else ex (Fire l x) w)
             else Some (Inr w)) = Some (Inr w')"
  shows "after d (Acts as) w w'"
proof -
  let ?c = "lists w l"
  show ?thesis
  proof (cases "lst ?c \<noteq> None \<and> (\<not> fired ?c \<or> stack ?c \<noteq> None)")
    case False
    then have "w' = w" using assms(3) unfolding Let_def by (simp only: if_False simp_thms option.inject sum.inject)
    then show ?thesis using assms(2) by (simp add: after_acts)
  next
    case True
    show ?thesis
    proof (cases "firing ?c")
      case busy: True
      have eq: "w' = set_list l (?c\<lparr>stack := map_option (\<lambda>st. st @ [x]) (stack ?c)\<rparr>) w"
        using assms(3) True busy unfolding Let_def by (simp only: if_True simp_thms option.inject sum.inject)
      have "own d l \<Longrightarrow> dstate w d \<noteq> ''pending''" using pending_idle[OF assms(2)] busy by blast
      from ok_push[OF assms(2) this] show ?thesis unfolding eq by (simp add: after_acts)
    next
      case idle: False
      have ex: "ex (Fire l x) w = Some (Inr w')" using assms(3) True idle unfolding Let_def by (simp only: if_True if_False simp_thms)
      have "before d (Fire l x) w" using True idle assms(2) by (simp add: before_def)
      from lawfulD[OF assms(1) ex this] show ?thesis by (simp add: after_def target_def)
    qed
  qed
qed

lemma update_step:
  assumes "lawful d ex" and "deferred_ok d w" and "(let (w1, bs) = update_when m i prog x w in ex (Acts bs) w1) = Some (Inr w')"
  shows "after d (Acts as) w w'"
proof -
  obtain w1 bs where u: "update_when m i prog x w = (w1, bs)" by (cases "update_when m i prog x w")
  then have w1: "deferred_ok d w1" "dstate w1 = dstate w" and bs: "list_all (polite d) bs"
    using assms(2) by (auto simp: update_when_def Let_def ok_calls split: if_splits)
  have "ex (Acts bs) w1 = Some (Inr w')" using assms(3) u by simp
  moreover have "before d (Acts bs) w1" using w1 bs by (simp add: before_def)
  ultimately have "after d (Acts bs) w1 w'" by (rule lawfulD[OF assms(1)])
  then show ?thesis using w1(2) by (simp add: after_acts)
qed

lemma upd_step:
  assumes "deferred_ok d w" and "\<not> own d l" and "\<And>c. clean d c \<Longrightarrow> clean d (g c)"
  shows "after d (Acts as) w (upd_list l g w)"
  using assms clean_other[OF assms(1,2)] by (simp add: after_acts upd_list_def ok_other)

lemma behave_polite:
  assumes "polite_fns d user"
  shows "list_all (polite d) (fst (behave user f x w))"
proof -
  have "list_all (polite d) (fst (user n x w))" for n using assms by (cases x) (auto simp: polite_fns_def)
  then show ?thesis
    by (cases f) (auto simp: behave_def then_listener_def settle_def Let_def split: option.split prod.splits ret.split, (metis fst_conv)+)
qed

text \<open>The rest of the loop after the call of \<open>f\<close>.\<close>

lemma loop_rest:
  assumes "lawful d ex" and "deferred_ok d w2" and "own d l \<longrightarrow> dstate w2 d \<noteq> ''pending''"
    and "(if stop then Some (Inr (upd_list l forget w2)) else ex (Loop l x) (upd_list l next_index w2)) = Some (Inr w')"
  shows "deferred_ok d w' \<and> (dstate w2 d \<noteq> ''pending'' \<longrightarrow> dstate w' d = dstate w2 d)"
proof (cases stop)
  case True
  then show ?thesis using assms ok_step(2)[OF assms(2)] by auto
next
  case False
  have "before d (Loop l x) (upd_list l next_index w2)" using ok_step(1)[OF assms(2)] assms(3) by (simp add: before_def)
  from lawfulD[OF assms(1) _ this] have "after d (Loop l x) (upd_list l next_index w2) w'" using assms(4) False by simp
  then show ?thesis by (simp add: after_def)
qed

lemma called_settling:
  assumes "lawful d ex" and "k < 2" and "i < 2" and "settling d k i w"
    and "ex (Loop (3 * d + k) x) (upd_list (3 * d + k) next_index (called (heads d k ! i) x w)) = Some (Inr w')"
  shows "deferred_ok d w' \<and> dstate w' d = final k"
proof -
  let ?w = "upd_list (3 * d + k) next_index (called (heads d k ! i) x w)"
  from assms(3) show ?thesis
  proof (rule index_cases)
    assume i: "i = 0"
    then have s: "settling d k 1 ?w" using settling_first assms(2,4) by blast
    have "k < 2 \<and> (1::nat) < 2 \<and> 3 * d + k = 3 * d + k \<and> settling d k 1 ?w" using assms(2) s by simp
    then have "before d (Loop (3 * d + k) x) ?w" unfolding before_def by (simp only: task.case) blast
    moreover have "dstate ?w d = final k" using s by (simp add: settling_def)
    ultimately show ?thesis using lawfulD[OF assms(1,5)] by (simp add: after_def)
  next
    assume i: "i = 1"
    then have s: "deferred_ok d ?w" "dstate ?w d = final k" using settling_second assms(2,4) by blast+
    then have "before d (Loop (3 * d + k) x) ?w" by (simp add: before_def)
    then show ?thesis using lawfulD[OF assms(1,5)] s(2) by (simp add: after_def)
  qed
qed

lemma behave_internal: "i < 2 \<Longrightarrow> behave user (heads d k ! i) x w = ([], RVal Undef)"
  by (auto simp: heads_def behave_def elim!: index_cases)

lemma loop_step:
  assumes "lawful d ex" and "polite_fns d user" and "before d (Loop l x) w" and "more (lists w l)" and "current (lists w l) = Some f"
    and "ex (Acts (fst (behave user f x w))) (called f x w) = Some (Inr w2)"
    and "(if snd (behave user f x w) = RVal (BoolV False) \<and> o_stopOnFalse (cb_opts (lists w2 l))
          then Some (Inr (upd_list l forget w2)) else ex (Loop l x) (upd_list l next_index w2)) = Some (Inr w')"
  shows "after d (Loop l x) w w'"
proof (cases "deferred_ok d w \<and> (own d l \<longrightarrow> dstate w d \<noteq> ''pending'')")
  case True
  then have c: "deferred_ok d (called f x w)" "dstate (called f x w) d = dstate w d"
    using ok_called[of d w l f x] assms(5) by auto
  then have "before d (Acts (fst (behave user f x w))) (called f x w)" using behave_polite[OF assms(2)] by (simp add: before_def)
  from lawfulD[OF assms(1,6) this] have w2: "deferred_ok d w2" "dstate w d \<noteq> ''pending'' \<longrightarrow> dstate w2 d = dstate w d"
    using c(2) by (auto simp: after_acts)
  have "own d l \<longrightarrow> dstate w2 d \<noteq> ''pending''" using True w2(2) by auto
  from loop_rest[OF assms(1) w2(1) this assms(7)]
  have "deferred_ok d w' \<and> (dstate w2 d \<noteq> ''pending'' \<longrightarrow> dstate w' d = dstate w2 d)" .
  moreover have "target d (Loop l x) k \<Longrightarrow> own d l" for k by (auto simp: target_def own_def elim!: index_cases)
  ultimately show ?thesis using True w2(2) by (auto simp: after_def)
next
  case False
  then obtain k i where k: "k < 2" "i < 2" "l = 3 * d + k" "settling d k i w" using assms(3) by (auto simp: before_def)
  have f: "f = heads d k ! i" using settling_current(2)[OF k(4,2)] assms(5) k(3) by simp
  have b: "behave user f x w = ([], RVal Undef)" unfolding f by (rule behave_internal[OF k(2)])
  have w2: "w2 = called f x w" using assms(1,6) b by (fastforce simp: lawful_def)
  have "ex (Loop l x) (upd_list l next_index (called f x w)) = Some (Inr w')" using assms(7) b w2 by simp
  then have "deferred_ok d w' \<and> dstate w' d = final k" using called_settling[OF assms(1) k(1,2,4)] f k(3) by simp
  moreover have "dstate w d = ''pending'' \<or> dstate w d = final k" using k(4) by (auto simp: settling_def split: if_splits)
  ultimately show ?thesis using k(3) by (auto simp: after_def target_def)
qed

lemma loop_end:
  assumes "before d (Loop l x) w" and "\<not> more (lists w l)"
  shows "after d (Loop l x) w w"
proof (cases "deferred_ok d w \<and> (own d l \<longrightarrow> dstate w d \<noteq> ''pending'')")
  case True
  moreover have "target d (Loop l x) k \<Longrightarrow> own d l" for k by (auto simp: target_def own_def elim!: index_cases)
  ultimately show ?thesis by (auto simp: after_def)
next
  case False
  then obtain k i where "k < 2" "i < 2" "l = 3 * d + k" "settling d k i w" using assms(1) by (auto simp: before_def)
  then show ?thesis using settling_current(1) assms(2) by blast
qed

lemma end_fire_again: "end_fire c = (c', Some y) \<Longrightarrow> lst c' \<noteq> None \<and> \<not> firing c'"
  by (auto simp: end_fire_def Let_def split: if_splits option.splits list.splits)

lemma start_before:
  assumes "before d (Fire l x) w"
  shows "before d (Loop l x) (upd_list l (start_fire x) w)"
proof (cases "own d l \<and> dstate w d = ''pending''")
  case True
  then obtain k where k: "k < 2" "l = 3 * d + k" by (auto simp: own_def intro: that[of 0] that[of 1])
  have "settling d k 0 (upd_list l (start_fire x) w)"
    unfolding k(2) using assms True k(1) by (intro settling_start) (auto simp: before_def)
  then have "k < 2 \<and> (0::nat) < 2 \<and> l = 3 * d + k \<and> settling d k 0 (upd_list l (start_fire x) w)" using k by simp
  then show ?thesis unfolding before_def by (simp only: task.case) blast
next
  case False
  then show ?thesis using assms ok_start[of d w l x] by (auto simp: before_def)
qed

lemma fired_step:
  assumes "lawful d ex" and "before d (Fire l x) w" and "ex (Loop l x) (upd_list l (start_fire x) w) = Some (Inr w1)"
    and "(let (c, again) = end_fire (lists w1 l); w2 = set_list l c w1
          in case again of None \<Rightarrow> Some (Inr w2) | Some y \<Rightarrow> ex (Fire l y) w2) = Some (Inr w')"
  shows "after d (Fire l x) w w'"
proof -
  have a1: "after d (Loop l x) (upd_list l (start_fire x) w) w1" by (rule lawfulD[OF assms(1,3) start_before[OF assms(2)]])
  then have w1: "deferred_ok d w1" "dstate w d \<noteq> ''pending'' \<longrightarrow> dstate w1 d = dstate w d"
    "\<And>k. dstate w d = ''pending'' \<Longrightarrow> target d (Fire l x) k \<Longrightarrow> dstate w1 d = final k"
    by (auto simp: after_def target_def)
  have settled: "own d l \<Longrightarrow> dstate w1 d \<noteq> ''pending''"
  proof -
    assume "own d l"
    then obtain k where "target d (Fire l x) k" by (auto simp: own_def target_def intro: that[of 0] that[of 1])
    then show ?thesis using w1(2,3) by (metis final_not_pending(1))
  qed
  obtain c again where e: "end_fire (lists w1 l) = (c, again)" by (cases "end_fire (lists w1 l)")
  let ?w = "set_list l c w1"
  have ok: "deferred_ok d ?w" using ok_end[OF w1(1), of l] settled e by simp
  have "deferred_ok d w' \<and> (dstate w1 d \<noteq> ''pending'' \<longrightarrow> dstate w' d = dstate w1 d)"
  proof (cases again)
    case None
    then have "w' = ?w" using assms(4) e by (simp add: Let_def)
    then show ?thesis using ok by simp
  next
    case (Some y)
    have "before d (Fire l y) ?w" using ok end_fire_again[of "lists w1 l" c y] e Some by (simp add: before_def)
    moreover have "ex (Fire l y) ?w = Some (Inr w')" using assms(4) e Some by (simp add: Let_def)
    ultimately have "after d (Fire l y) ?w w'" using lawfulD[OF assms(1)] by blast
    then show ?thesis by (simp add: after_def)
  qed
  then show ?thesis using w1 by (auto simp: after_def)
qed

lemma act_step:
  assumes "lawful d ex" and "deferred_ok d w" and "polite d a"
    and "(case a of
            AAdd l xs \<Rightarrow>
              let c = lists w l; w1 = upd_list l (added xs) w
              in if lst c \<noteq> None \<and> \<not> firing c \<and> memo c \<noteq> None then ex (Fire l (the (memo c))) w1 else Some (Inr w1)
          | AFire l x \<Rightarrow>
              let c = lists w l
              in if lst c \<noteq> None \<and> (\<not> fired c \<or> stack c \<noteq> None)
                 then (if firing c then Some (Inr (set_list l (c\<lparr>stack := map_option (\<lambda>st. st @ [x]) (stack c)\<rparr>) w)) else ex (Fire l x) w)
                 else Some (Inr w)
          | ARemove l fs \<Rightarrow> Some (Inr (upd_list l (cb_remove fs) w))
          | AEmpty l \<Rightarrow> Some (Inr (upd_list l cb_empty w))
          | ADisable l \<Rightarrow> Some (Inr (upd_list l disable w))
          | ALock l \<Rightarrow> Some (Inr (upd_list l lock w))
          | AUpdate m i prog x \<Rightarrow> (let (w1, bs) = update_when m i prog x w in ex (Acts bs) w1)
          | ANew d \<Rightarrow> Some (Inr (new_Deferred d w))) = Some (Inr w')"
  shows "after d (Acts as) w w'"
proof (cases a)
  case (AAdd l xs)
  then show ?thesis using assms by (intro add_step[OF assms(1,2)]) simp_all
next
  case (AFire l x)
  then show ?thesis using assms(4) by (intro fire_step[OF assms(1,2)]) simp
next
  case (AUpdate m i prog x)
  then show ?thesis using assms(4) by (intro update_step[OF assms(1,2)]) simp
next
  case (ANew e)
  then show ?thesis using assms(2-4) ok_new[of d w e] by (simp add: after_acts)
next
  case (ARemove l fs)
  then show ?thesis using assms upd_step[OF assms(2), of l "cb_remove fs"] remove_clean by simp
next
  case (AEmpty l)
  then show ?thesis using assms upd_step[OF assms(2), of l cb_empty] plain_clean by simp
next
  case (ADisable l)
  then show ?thesis using assms upd_step[OF assms(2), of l disable] plain_clean by simp
next
  case (ALock l)
  then show ?thesis using assms upd_step[OF assms(2), of l lock] lock_clean by simp
qed

lemma bind_Inr:
  "Option.bind m (\<lambda>r. case r of Inl e \<Rightarrow> Some (Inl e) | Inr x \<Rightarrow> k x) = Some (Inr y) \<longleftrightarrow> (\<exists>x. m = Some (Inr x) \<and> k x = Some (Inr y))"
  by (cases m) (auto split: sum.splits)

lemma loop_cases:
  assumes "lawful d ex" and "polite_fns d user" and "before d (Loop l x) w"
    and "(if \<not> more (lists w l) then Some (Inr w)
          else case current (lists w l) of
                 None \<Rightarrow> Some (Inl TypeError)
               | Some f \<Rightarrow>
                   let w1 = called f x w
                   in Option.bind (ex (Acts (fst (behave user f x w))) w1)
                        (\<lambda>r. case r of
                               Inl e \<Rightarrow> Some (Inl e)
                             | Inr w2 \<Rightarrow>
                                 if snd (behave user f x w) = RVal (BoolV False) \<and> o_stopOnFalse (cb_opts (lists w2 l))
                                 then Some (Inr (upd_list l forget w2))
                                 else ex (Loop l x) (upd_list l next_index w2))) = Some (Inr w')"
  shows "after d (Loop l x) w w'"
proof (cases "more (lists w l)")
  case True
  then obtain g w2 where "current (lists w l) = Some g" "ex (Acts (fst (behave user g x w))) (called g x w) = Some (Inr w2)"
    "(if snd (behave user g x w) = RVal (BoolV False) \<and> o_stopOnFalse (cb_opts (lists w2 l))
      then Some (Inr (upd_list l forget w2)) else ex (Loop l x) (upd_list l next_index w2)) = Some (Inr w')"
    using assms(4) by (cases "current (lists w l)") (auto simp: Let_def bind_Inr)
  then show ?thesis using loop_step[OF assms(1-3)] True by blast
next
  case False
  then show ?thesis using assms(3,4) loop_end by auto
qed

lemma exec_lawful:
  assumes "polite_fns d user" and "exec_cb user t w = Some r"
  shows "(t = Acts [] \<longrightarrow> r = Inr w) \<and> (\<forall>w'. r = Inr w' \<longrightarrow> before d t w \<longrightarrow> after d t w w')"
proof -
  have "polite_fns d user \<longrightarrow> (t = Acts [] \<longrightarrow> r = Inr w) \<and> (\<forall>w'. r = Inr w' \<longrightarrow> before d t w \<longrightarrow> after d t w w')"
  proof (rule exec_cb.raw_induct[OF _ assms(2), where P = "\<lambda>user t w r. polite_fns d user \<longrightarrow>
      (t = Acts [] \<longrightarrow> r = Inr w) \<and> (\<forall>w'. r = Inr w' \<longrightarrow> before d t w \<longrightarrow> after d t w w')"], goal_cases)
    case (1 f user t w r)
    show ?case
    proof (intro impI conjI allI)
      assume "t = Acts []"
      then show "r = Inr w" using 1(2) by simp
    next
      fix w'
      assume p: "polite_fns d user" and r: "r = Inr w'" and bf: "before d t w"
      have L: "lawful d (f user)" using 1(1)[of user] p by (auto simp: lawful_def)
      show "after d t w w'"
      proof (cases t)
        case (Loop l x)
        show ?thesis using loop_cases[OF L p] bf 1(2) unfolding Loop r task.case by blast
      next
        case (Fire l x)
        then obtain w1 where "f user (Loop l x) (upd_list l (start_fire x) w) = Some (Inr w1)"
          "(let (c, again) = end_fire (lists w1 l); w2 = set_list l c w1
            in case again of None \<Rightarrow> Some (Inr w2) | Some y \<Rightarrow> f user (Fire l y) w2) = Some (Inr w')"
          using 1(2) r by (auto simp: bind_Inr)
        then show ?thesis using fired_step[OF L] bf Fire by blast
      next
        case (Acts as)
        show ?thesis
        proof (cases as)
          case Nil
          then show ?thesis using 1(2) Acts r bf by (auto simp: before_def after_acts)
        next
          case (Cons a bs)
          have ok: "deferred_ok d w" "polite d a" "list_all (polite d) bs" using bf Acts Cons by (auto simp: before_def)
          show ?thesis using 1(2) unfolding Acts Cons r task.case list.case bind_Inr
          proof (elim exE conjE, goal_cases)
            case prems: (1 w1)
            from act_step[OF L ok(1,2) prems(1)] have a1: "after d (Acts as) w w1" .
            then have "before d (Acts bs) w1" using ok(3) by (simp add: before_def after_acts)
            from lawfulD[OF L prems(2) this] a1 show ?case by (auto simp: after_acts)
          qed
        qed
      qed
    qed
  qed
  then show ?thesis using assms(1) by blast
qed

subsection \<open>Settling at most once\<close>

lemma new_lists:
  "lists (new_Deferred d w) (3 * d) = (Callbacks ''once memory'')\<lparr>lst := Some (heads d 0)\<rparr>"
  "lists (new_Deferred d w) (3 * d + 1) = (Callbacks ''once memory'')\<lparr>lst := Some (heads d 1)\<rparr>"
  "\<not> own d l \<Longrightarrow> l \<noteq> 3 * d + 2 \<Longrightarrow> lists (new_Deferred d w) l = lists w l"
  "lists (new_Deferred d w) (3 * d + 2) = Callbacks ''memory''"
  "dstate (new_Deferred d w) d = ''pending''"
  by (simp_all add: new_Deferred_def Let_def heads_def final_def own_def)

lemma once_memory: "createOptions ''once memory'' = \<lparr>o_once = True, o_memory = True, o_unique = False, o_stopOnFalse = False\<rparr>"
  by code_simp

lemma new_ok:
  assumes "others_clean d w"
  shows "deferred_ok d (new_Deferred d w)"
proof -
  have "waiting_list d k ((Callbacks ''once memory'')\<lparr>lst := Some (heads d k)\<rparr>)" for k
    by (simp add: waiting_list_def full_def Callbacks_def once_memory Let_def)
  then have "is_pending d (new_Deferred d w)" by (simp only: is_pending_def new_lists)
  moreover have "clean d (lists (new_Deferred d w) l)" if "\<not> own d l" for l
    using assms that new_lists(3,4)[of d] by (cases "l = 3 * d + 2") (auto simp: others_clean_def clean_def Callbacks_def Let_def)
  ultimately show ?thesis by (simp add: deferred_ok_def others_clean_def)
qed

lemma exec_ok:
  assumes "polite_fns d user" and "deferred_ok d w" and "list_all (polite d) as" and "exec_cb user (Acts as) w = Some (Inr w')"
  shows "deferred_ok d w' \<and> (dstate w d \<noteq> ''pending'' \<longrightarrow> dstate w' d = dstate w d)"
  using exec_lawful[OF assms(1,4)] assms(2,3) by (auto simp: before_def after_acts)

lemma settle_state:
  assumes "polite_fns d user" and "deferred_ok d w" and "dstate w d = ''pending''" and "k < 2"
    and "exec_cb user (Acts [settle d k a]) w = Some (Inr w')"
  shows "deferred_ok d w' \<and> dstate w' d = final k"
proof -
  obtain x where s: "settle d k a = AFire (3 * d + k) x" by (simp add: settle_def)
  have "is_pending d w" using assms(2,3) by (auto simp: deferred_ok_def is_settled_def)
  then have wl: "waiting_list d k (lists w (3 * d + k))" using assms(4) by (auto simp: is_pending_def elim: index_cases)
  then have "exec_cb user (Acts [AFire (3 * d + k) x]) w = exec_cb user (Fire (3 * d + k) x) w"
    by (intro exec_fire) (auto simp: waiting_list_def full_def)
  then have "exec_cb user (Fire (3 * d + k) x) w = Some (Inr w')" using assms(5) s by simp
  moreover have "before d (Fire (3 * d + k) x) w" using assms(2) wl by (auto simp: before_def waiting_list_def full_def)
  ultimately have "after d (Fire (3 * d + k) x) w w'" using exec_lawful[OF assms(1)] by blast
  then show ?thesis using assms(3,4) by (simp add: after_def target_def)
qed


lemma fire_done:
  assumes "lists w (3 * d) = (Callbacks ''once memory'')\<lparr>lst := Some (heads d 0 @ map FUser ns)\<rparr>"
    and "\<And>n a v. n \<in> set ns \<Longrightarrow> fst (user n a v) = []"
  shows "\<exists>w'. exec_cb user (Acts [AFire (3 * d) x]) w = Some (Inr w') \<and> dstate w' d = ''resolved'' \<and>
    calls w' = calls w @ map (\<lambda>f. (f, x)) (heads d 0 @ map FUser ns)"
proof -
  let ?fs = "heads d 0 @ map FUser ns"
  have c: "lst (lists w (3 * d)) = Some ?fs" "\<not> fired (lists w (3 * d))" "\<not> firing (lists w (3 * d))" "firingStart (lists w (3 * d)) = 0"
    "stack (lists w (3 * d)) = None" "\<not> o_stopOnFalse (cb_opts (lists w (3 * d)))"
    by (simp_all add: assms(1) Callbacks_def once_memory Let_def)
  have "list_all (idle user (3 * d)) ?fs" using assms(2) by (auto simp: heads_def idle_def list_all_iff)
  then have "exec_cb user (Fire (3 * d) x) w = Some (Inr (upd_list (3 * d) (fired_as x) (fold (\<lambda>f. called f x) ?fs w)))"
    using fire_idle[of w "3 * d" ?fs user x] c by simp
  moreover have "exec_cb user (Acts [AFire (3 * d) x]) w = exec_cb user (Fire (3 * d) x) w"
    using exec_fire[of w "3 * d" user x] c by simp
  moreover have "dstate (fold (\<lambda>f. called f x) (map FUser ns) v) = dstate v" for v
    by (induction ns arbitrary: v) (auto simp: called_def internal_def)
  then have "dstate (fold (\<lambda>f. called f x) ?fs w) d = ''resolved''"
    by (simp add: heads_def called_def internal_def final_def)
  ultimately show ?thesis by (simp add: calls_fold del: fold_append)
qed

text \<open>
  C33: Resolving a pending deferred whose callbacks leave the lists alone returns: the deferred is
  resolved, and its callbacks have been called with the promise and the values, in the order in
  which they were added and each once.
\<close>

theorem resolve_calls_done:
  assumes "lists w (3 * d) = (Callbacks ''once memory'')\<lparr>lst := Some (heads d 0 @ map FUser ns)\<rparr>"
    and "\<And>n a v. n \<in> set ns \<Longrightarrow> fst (user n a v) = []"
  shows "\<exists>w'. exec_cb user (Acts (resolve d xs)) w = Some (Inr w') \<and> dstate w' d = ''resolved'' \<and>
    calls w' = calls w @ map (\<lambda>f. (f, CPromise d, xs)) (heads d 0 @ map FUser ns)"
  using fire_done[OF assms] by (simp add: resolve_def settle_def)

subsection \<open>when\<close>

lemma when_loop_values:
  "\<exists>w'. when_loop user m i (map Inl vs) w = Some (Inr w') \<and> lists w' = lists w \<and> calls w' = calls w \<and>
     whens w' m = (whens w m)\<lparr>remaining := remaining (whens w m) - int (length vs)\<rparr>"
proof (induction vs arbitrary: i w)
  case (Cons v vs)
  let ?w = "w\<lparr>whens := (whens w)(m := (whens w m)\<lparr>remaining := remaining (whens w m) - 1\<rparr>)\<rparr>"
  obtain w' where "when_loop user m (Suc i) (map Inl vs) ?w = Some (Inr w')" "lists w' = lists w" "calls w' = calls w"
    "whens w' m = (whens ?w m)\<lparr>remaining := remaining (whens ?w m) - int (length vs)\<rparr>"
    using Cons[of "Suc i" ?w] by auto
  then show ?case by (auto simp: algebra_simps)
qed auto

lemma arg_value_Inl [simp]: "arg_value (Inl v) = v" "map (arg_value \<circ> Inl) vs = vs"
  by (induction vs) (simp_all add: arg_value_def)

text \<open>\<open>when\<close> of plain values, none of them a deferred, resolves its master at once with these values.\<close>

lemma when_values:
  "\<exists>w' c. jq_when user m (map Inl vs) w = Some (Inr (m, w')) \<and> dstate w' m = ''resolved'' \<and>
     calls w' = calls w @ map (\<lambda>f. (f, c, vs)) (heads m 0)"
proof -
  let ?n = "length vs"
  let ?q = "\<lparr>master = m, remaining = (if ?n = 1 then 0 else int ?n), resolveValues = vs,
      resolveContexts = replicate ?n (CVal Undef), progressValues = replicate ?n Undef, progressContexts = replicate ?n (CVal Undef)\<rparr>"
  let ?w2 = "(new_Deferred m w)\<lparr>whens := (whens (new_Deferred m w))(m := ?q)\<rparr>"
  obtain w3 where w3: "(if 1 < ?n then when_loop user m 0 (map Inl vs) ?w2 else Some (Inr ?w2)) = Some (Inr w3)"
    "lists w3 = lists ?w2" "calls w3 = calls ?w2" "remaining (whens w3 m) = 0" "resolveValues (whens w3 m) = vs"
    using when_loop_values[of user m 0 vs ?w2] by (cases "1 < ?n") (auto simp: not_less le_Suc_eq)
  let ?x = "(if 1 < ?n then CArr (resolveContexts (whens w3 m)) else CVal Undef, vs)"
  have "lists w3 (3 * m) = (Callbacks ''once memory'')\<lparr>lst := Some (heads m 0 @ map FUser [])\<rparr>"
    using w3(2) new_lists(1)[of m w] by simp
  from fire_done[OF this, of user ?x] obtain w4 where w4: "exec_cb user (Acts [AFire (3 * m) ?x]) w3 = Some (Inr w4)"
    "dstate w4 m = ''resolved''" "calls w4 = calls w3 @ map (\<lambda>f. (f, ?x)) (heads m 0)"
    by auto
  have "calls w3 = calls w" using w3(3) by (simp add: new_Deferred_def Let_def)
  moreover have "jq_when user m (map Inl vs) w = Some (Inr (m, w4))"
    using w3 w4(1) by (cases vs) (auto simp: jq_when_def Let_def)
  ultimately show ?thesis using w4 by auto
qed

text \<open>Two deferreds, the second resolved first: the values come in the order of the arguments.\<close>

lemma when_two:
  "(case jq_when demo_fns 9 [Inr 1, Inr 2] (new_Deferred 2 (new_Deferred 1 demo_world)) of
      Some (Inr (m, w)) \<Rightarrow>
        (case exec_cb demo_fns (Acts (resolve 2 [StrV ''b''] @ resolve 1 [StrV ''a''])) w of
           Some (Inr w') \<Rightarrow> m = 9 \<and> dstate w 9 = ''pending'' \<and> dstate w' 9 = ''resolved'' \<and>
             resolveValues (whens w' 9) = [StrV ''a'', StrV ''b'']
         | _ \<Rightarrow> False)
    | _ \<Rightarrow> False)"
  by code_simp

text \<open>A page whose first function rejects and resolves again: the deferred stays resolved.\<close>

definition demo_user :: page_fns where
  "demo_user n a w = (if n = 1 then reject 0 [] @ resolve 0 [Null] @ promise_done 0 [AFn (FUser 2)] else [], RVal Undef)"

definition returned :: "world result option \<Rightarrow> bool" where
  "returned r = (case r of Some (Inr _) \<Rightarrow> True | _ \<Rightarrow> False)"

definition result_of :: "world result option \<Rightarrow> world" where
  "result_of r = (case r of Some (Inr w) \<Rightarrow> w | _ \<Rightarrow> demo_world)"

lemma returned_result: "returned r \<Longrightarrow> r = Some (Inr (result_of r))"
  by (auto simp: returned_def result_of_def split: option.splits sum.splits)

definition demo_w :: world where
  "demo_w = result_of (exec_cb demo_user (Acts (promise_done 0 [AFn (FUser 1)])) (new_Deferred 0 demo_world))"

definition demo_w1 :: world where
  "demo_w1 = result_of (exec_cb demo_user (Acts (resolve 0 [])) demo_w)"

definition demo_w2 :: world where
  "demo_w2 = result_of (exec_cb demo_user (Acts (reject 0 [])) demo_w1)"


theorem resolve_calls_done_witness:
  "\<exists>w w'. exec_cb demo_fns (Acts (resolve 0 [Null])) w = Some (Inr w') \<and> dstate w' 0 = ''resolved'' \<and>
     calls w' = calls w @ map (\<lambda>f. (f, CPromise 0, [Null])) (heads 0 0 @ [FUser 1, FUser 2])"
proof -
  define w where "w = set_list 0 ((Callbacks ''once memory'')\<lparr>lst := Some (heads 0 0 @ map FUser [1, 2])\<rparr>) (new_Deferred 0 demo_world)"
  have "lists w (3 * 0) = (Callbacks ''once memory'')\<lparr>lst := Some (heads 0 0 @ map FUser [1, 2])\<rparr>" by (simp add: w_def)
  from resolve_calls_done[OF this, of demo_fns "[Null]"] show ?thesis by auto
qed

end
