(* ===== verification/Syntax_Match.thy ===== *)
theory Syntax_Match
  imports Js_Strings
begin

text \<open>
  The syntax tree of the highlighter \<open>jquery.syntax.core.js\<close>: \<open>Syntax.Match\<close> with its insertion at the
  end and its reduction to HTML. A tree is a value: insertion returns the changed tree, \<open>None\<close> where
  the code returns \<open>null\<close> and changes nothing. The \<open>parent\<close> of a node is the path to it; \<open>next\<close> is only
  written. Warnings to the console are left out.
\<close>

subsection \<open>Matches\<close>

text \<open>\<open>allow\<close> of an expression: not given, \<open>'*'\<close>, or a list of classes.\<close>

datatype allow = NoAllow | AllowAll | AllowOnly "string list"

record expr =
  klass :: string
  force :: bool
  only :: "string list option"
  allowed :: allow
  disallow :: "string list option"
  owner :: "string option"              \<comment> \<open>the class of the owning brush\<close>

datatype smatch = Match
  (offset: int)
  (endOffset: int)
  (len: int)
  (expression: expr)
  (val: string)
  (children: "smatch list")
  (complete: bool)

text \<open>\<open>substr\<close> of the language: a negative start counts from the end.\<close>

definition js_substr :: "string \<Rightarrow> int \<Rightarrow> int \<Rightarrow> string" where
  "js_substr s i n = (let k = (if i < 0 then max 0 (int (length s) + i) else i) in take (nat n) (drop (nat k) s))"

definition new_Match :: "int \<Rightarrow> int \<Rightarrow> expr \<Rightarrow> string \<Rightarrow> smatch" where
  "new_Match off n e v = Match off (off + n) n e v [] False"

text \<open>\<open>adjust\<close>; a length of 0 and a missing one leave the length, an empty or missing text the value.\<close>

definition adjust :: "int \<Rightarrow> int option \<Rightarrow> string \<Rightarrow> smatch \<Rightarrow> smatch" where
  "adjust off n tx m =
     (let o1 = offset m + off;
          l = (case n of Some k \<Rightarrow> if k \<noteq> 0 then k else len m | None \<Rightarrow> len m);
          e = (case n of Some k \<Rightarrow> if k \<noteq> 0 then o1 + k else endOffset m + off | None \<Rightarrow> endOffset m + off)
      in Match o1 e l (expression m) (if tx \<noteq> [] then js_substr tx o1 l else val m) (children m) (complete m))"

fun shift :: "int \<Rightarrow> string \<Rightarrow> smatch \<Rightarrow> smatch" where
  "shift off tx (Match a b n e v cs c) =
     (let m = adjust off None tx (Match a b n e v cs c)
      in Match (offset m) (endOffset m) (len m) e (val m) (map (shift off tx) cs) c)"

text \<open>The comparator: negative, zero or positive.\<close>

definition match_sort :: "smatch \<Rightarrow> smatch \<Rightarrow> int" where
  "match_sort a b = (if offset a - offset b \<noteq> 0 then offset a - offset b else len b - len a)"

definition contains :: "smatch \<Rightarrow> smatch \<Rightarrow> bool" where
  "contains t m \<longleftrightarrow> offset t \<le> offset m \<and> endOffset m \<le> endOffset t"

subsection \<open>Nesting\<close>

definition canContain :: "smatch \<Rightarrow> smatch \<Rightarrow> bool" where
  "canContain t m =
     (if force (expression m) then True
      else if complete t then False
      else if only (expression m) \<noteq> None then True
      else if allowed (expression t) = NoAllow then False
      else if (case disallow (expression t) of Some ks \<Rightarrow> klass (expression m) \<in> set ks | None \<Rightarrow> False) then False
      else (case allowed (expression t) of
              AllowAll \<Rightarrow> True
            | AllowOnly ks \<Rightarrow> klass (expression m) \<in> set ks
            | NoAllow \<Rightarrow> False))"

text \<open>
  \<open>canHaveChild\<close>: the loop from the node to the root; a node is given by its class and whether its
  tree is complete. The first entry is the node itself, which is not tested for completeness.
\<close>

fun only_within :: "string list \<Rightarrow> (string \<times> bool) list \<Rightarrow> bool" where
  "only_within ks [] = False"
| "only_within ks [(k, c)] = (k \<in> set ks)"
| "only_within ks ((k, c) # (k', c') # up) = (k \<in> set ks \<or> (\<not> c' \<and> only_within ks ((k', c') # up)))"

definition canHaveChild :: "(string \<times> bool) list \<Rightarrow> smatch \<Rightarrow> bool" where
  "canHaveChild path m = (case only (expression m) of Some ks \<Rightarrow> only_within ks path | None \<Rightarrow> True)"

definition insert_at :: "nat \<Rightarrow> 'a \<Rightarrow> 'a list \<Rightarrow> 'a list" where
  "insert_at i x xs = take i xs @ x # drop i xs"

definition with_children :: "smatch list \<Rightarrow> smatch \<Rightarrow> smatch" where
  "with_children cs t = Match (offset t) (endOffset t) (len t) (expression t) (val t) cs (complete t)"

definition with_expression :: "expr \<Rightarrow> smatch \<Rightarrow> smatch" where
  "with_expression e t = Match (offset t) (endOffset t) (len t) e (val t) (children t) (complete t)"

definition own_by :: "smatch \<Rightarrow> smatch \<Rightarrow> smatch" where
  "own_by t m =
     (if owner (expression m) = None then with_expression ((expression m)\<lparr>owner := owner (expression t)\<rparr>) m else m)"

definition node_of :: "smatch \<Rightarrow> string \<times> bool" where
  "node_of t = (klass (expression t), complete t)"

text \<open>\<open>_splice\<close>; \<open>up\<close> is the path above \<open>t\<close>.\<close>

definition splice :: "(string \<times> bool) list \<Rightarrow> nat \<Rightarrow> smatch \<Rightarrow> smatch \<Rightarrow> smatch option" where
  "splice up i m t =
     (if canHaveChild (node_of t # up) m then Some (with_children (insert_at i (own_by t m) (children t)) t) else None)"

subsection \<open>insertAtEnd\<close>

text \<open>
  The branches for a match that starts before the last child, or overlaps its end, test \<open>match.force\<close>,
  a property no match has: they return \<open>null\<close>.
\<close>

lemma size_last: "xs \<noteq> [] \<Longrightarrow> size (last xs) < Suc (size_list size xs)" for xs :: "smatch list"
  by (induction xs) auto

function insertAtEnd :: "(string \<times> bool) list \<Rightarrow> smatch \<Rightarrow> smatch \<Rightarrow> smatch option" where
  "insertAtEnd up m t =
     (if \<not> contains t m then None
      else if \<not> canContain t m then None
      else if children t = [] then splice up 0 m t
      else
        let i = length (children t) - 1; child = last (children t)
        in if offset m < offset child then None
           else if offset m < endOffset child
           then (if endOffset m \<le> endOffset child
                 then map_option (\<lambda>c. with_children ((children t)[i := c]) t) (insertAtEnd (node_of t # up) m child)
                 else None)
           else splice up (i + 1) m t)"
  by pat_completeness auto
termination
proof (relation "measure (\<lambda>(up, m, t). size t)", simp)
  fix up m t i child
  assume "children t \<noteq> []" "child = last (children t)"
  then show "((node_of t # up, m, child), up, m, t) \<in> measure (\<lambda>(up, m, t). size t)"
    using size_last[of "children t"] by (cases t) auto
qed

declare insertAtEnd.simps [simp del]

subsection \<open>Reduction to HTML\<close>

datatype html = HText string | HSpan string "html list" | HLink string string    \<comment> \<open>a link: its \<open>href\<close> and its text\<close>

fun text_of :: "html \<Rightarrow> string" where
  "text_of (HText s) = s"
| "text_of (HSpan k hs) = concat (map text_of hs)"
| "text_of (HLink href s) = s"

text \<open>The text nodes and spans appended for the children, and the position after them.\<close>

fun reduce :: "(smatch \<Rightarrow> html \<Rightarrow> html) \<Rightarrow> smatch \<Rightarrow> html" where
  "reduce process (Match a b n e v cs c) =
     (let (body, start) =
        fold (\<lambda>ch (hs, start).
                (hs @ [HText (js_substr v (start - a) (offset ch - start)), reduce process ch], endOffset ch))
          cs ([], a);
          tail = (if start = a then [HText v]
                  else if start < b then [HText (js_substr v (start - a) (b - start))]
                  else [])
      in process (Match a b n e v cs c) (HSpan (klass e) (body @ tail)))"

subsection \<open>Trees over a text\<close>

text \<open>The characters of a text from \<open>a\<close> to \<open>b\<close>, where the text starts at \<open>base\<close>.\<close>

definition slice :: "int \<Rightarrow> string \<Rightarrow> int \<Rightarrow> int \<Rightarrow> string" where
  "slice base tx a b = take (nat (b - a)) (drop (nat (a - base)) tx)"

fun chain :: "int \<Rightarrow> smatch list \<Rightarrow> int \<Rightarrow> bool" where
  "chain a [] b = (a \<le> b)"
| "chain a (m # ms) b = (a \<le> offset m \<and> chain (endOffset m) ms b)"

text \<open>
  A well-formed tree: every node is a slice of the text, and the children of a node lie inside it, in
  order and without overlap.
\<close>

fun wf_tree :: "int \<Rightarrow> string \<Rightarrow> smatch \<Rightarrow> bool" where
  "wf_tree base tx (Match a b n e v cs c) \<longleftrightarrow>
     base \<le> a \<and> a \<le> b \<and> b \<le> base + int (length tx) \<and> n = b - a \<and> v = slice base tx a b \<and>
     chain a cs b \<and> list_all (wf_tree base tx) cs"

lemma wf_treeD:
  assumes "wf_tree base tx t"
  shows "base \<le> offset t" "offset t \<le> endOffset t" "endOffset t \<le> base + int (length tx)" "len t = endOffset t - offset t"
    "val t = slice base tx (offset t) (endOffset t)" "chain (offset t) (children t) (endOffset t)"
    "list_all (wf_tree base tx) (children t)"
  using assms by (cases t; simp)+

lemma slice_append:
  assumes "base \<le> a" "a \<le> b" "b \<le> c"
  shows "slice base tx a b @ slice base tx b c = slice base tx a c"
proof -
  have "nat (b - a) + nat (c - b) = nat (c - a)" "nat (b - base) = nat (b - a) + nat (a - base)" using assms by auto
  then show ?thesis unfolding slice_def by (metis take_add drop_drop)
qed

lemma slice_same [simp]: "slice base tx a a = []"
  by (simp add: slice_def)

lemma substr_slice:
  assumes "base \<le> a" "a \<le> x" "x \<le> y" "y \<le> b"
  shows "js_substr (slice base tx a b) (x - a) (y - x) = slice base tx x y"
proof -
  have "nat (x - a) + nat (a - base) = nat (x - base)" "min (nat (y - x)) (nat (b - a) - nat (x - a)) = nat (y - x)" using assms by auto
  then show ?thesis using assms by (simp add: js_substr_def slice_def drop_take)
qed

lemma chain_le: "chain a ms b \<Longrightarrow> list_all (wf_tree base tx) ms \<Longrightarrow> a \<le> b"
  by (induction ms arbitrary: a) (auto dest!: wf_treeD(2), fastforce dest: wf_treeD(2))

lemma chain_append: "chain a (ms @ ns) b \<longleftrightarrow> (\<exists>c. chain a ms c \<and> chain c ns b)" if "list_all (wf_tree base tx) ns"
proof (induction ms arbitrary: a)
  case Nil
  show ?case
  proof
    assume "chain a ([] @ ns) b"
    then show "\<exists>c. chain a [] c \<and> chain c ns b" by (intro exI[of _ a]) simp
  next
    assume "\<exists>c. chain a [] c \<and> chain c ns b"
    then show "chain a ([] @ ns) b" by (cases ns) auto
  qed
qed auto

text \<open>The pieces put together by the loop of \<open>reduce\<close>.\<close>

lemma reduce_loop:
  assumes "list_all (wf_tree base tx) ms" and "chain start ms b" and "base \<le> a" and "a \<le> start"
    and "\<And>m. m \<in> set ms \<Longrightarrow> text_of (red m) = val m"
  shows "\<exists>body fin. fold (\<lambda>ch (hs, start). (hs @ [HText (js_substr (slice base tx a b) (start - a) (offset ch - start)), red ch], endOffset ch))
      ms (hs, start) = (hs @ body, fin) \<and> start \<le> fin \<and> fin \<le> b \<and> concat (map text_of body) = slice base tx start fin"
  using assms
proof (induction ms arbitrary: start hs)
  case (Cons m ms)
  have m: "wf_tree base tx m" "start \<le> offset m" "chain (endOffset m) ms b" "offset m \<le> endOffset m" "list_all (wf_tree base tx) ms"
    using Cons.prems wf_treeD(2)[of base tx m] by auto
  have le: "endOffset m \<le> b" by (rule chain_le[OF m(3,5)])
  let ?hs = "hs @ [HText (js_substr (slice base tx a b) (start - a) (offset m - start)), red m]"
  obtain body fin where IH: "fold (\<lambda>ch (hs, start). (hs @ [HText (js_substr (slice base tx a b) (start - a) (offset ch - start)), red ch], endOffset ch))
      ms (?hs, endOffset m) = (?hs @ body, fin)" "endOffset m \<le> fin" "fin \<le> b"
      "concat (map text_of body) = slice base tx (endOffset m) fin"
    using Cons.IH[of "endOffset m" ?hs] Cons.prems m by auto
  have t: "js_substr (slice base tx a b) (start - a) (offset m - start) = slice base tx start (offset m)"
    using Cons.prems(3,4) m le by (intro substr_slice) auto
  have "val m = slice base tx (offset m) (endOffset m)" using wf_treeD(5)[OF m(1)] .
  then have "slice base tx start (offset m) @ val m @ slice base tx (endOffset m) fin = slice base tx start fin"
    using Cons.prems(3,4) m IH(2) by (simp add: slice_append)
  then show ?case
    using IH m t Cons.prems(5)[of m]
    by (intro exI[of _ "[HText (js_substr (slice base tx a b) (start - a) (offset m - start)), red m] @ body"] exI[of _ "fin"]) auto
qed auto

lemma reduce_text:
  assumes "wf_tree base tx t" and "\<And>m h. text_of (process m h) = text_of h"
  shows "text_of (reduce process t) = val t"
  using assms(1)
proof (induction t)
  case (Match a b n e v cs c)
  note wf = Match.prems[unfolded wf_tree.simps]
  have v: "v = slice base tx a b" using wf by blast
  have red: "text_of (reduce process m) = val m" if "m \<in> set cs" for m
    using Match.IH[OF that] wf that by (auto simp: list_all_iff)
  obtain body fin where fold: "fold (\<lambda>ch (hs, start). (hs @ [HText (js_substr v (start - a) (offset ch - start)), reduce process ch], endOffset ch))
      cs ([], a) = (body, fin)" "a \<le> fin" "fin \<le> b" "concat (map text_of body) = slice base tx a fin"
    using reduce_loop[of base tx cs a b a "reduce process" "[]"] wf red by (auto simp: v)
  have "js_substr v (fin - a) (b - fin) = slice base tx fin b" unfolding v using wf fold by (intro substr_slice) auto
  then have "concat (map text_of body) @ (if fin = a then v else if fin < b then js_substr v (fin - a) (b - fin) else []) = v"
    using fold wf v by (auto simp: slice_append)
  then show ?case by (simp add: fold(1) assms(2) split: if_splits)
qed

subsection \<open>Insertion keeps trees well-formed\<close>

definition same_span :: "smatch \<Rightarrow> smatch \<Rightarrow> bool" where
  "same_span t t' \<longleftrightarrow> offset t' = offset t \<and> endOffset t' = endOffset t \<and> len t' = len t \<and> val t' = val t"

lemma wf_with_children:
  assumes "wf_tree base tx t" and "chain (offset t) cs (endOffset t)" and "list_all (wf_tree base tx) cs"
  shows "wf_tree base tx (with_children cs t)"
  using assms by (cases t) (simp add: with_children_def)

lemma with_children_simps [simp]:
  "offset (with_children cs t) = offset t" "endOffset (with_children cs t) = endOffset t" "len (with_children cs t) = len t"
  "val (with_children cs t) = val t" "children (with_children cs t) = cs" "expression (with_children cs t) = expression t"
  by (simp_all add: with_children_def)

lemma own_by_simps [simp]:
  "offset (own_by t m) = offset m" "endOffset (own_by t m) = endOffset m" "wf_tree base tx (own_by t m) = wf_tree base tx m"
  "val (own_by t m) = val m" "children (own_by t m) = children m"
  by (cases m; simp add: own_by_def with_expression_def)+

lemma chain_last: "chain a ms b \<Longrightarrow> ms \<noteq> [] \<Longrightarrow> chain a ms (endOffset (last ms))"
  by (induction ms arbitrary: a) (auto split: if_splits)

lemma chain_snoc: "chain a (ms @ [m]) b \<longleftrightarrow> chain a ms (offset m) \<and> endOffset m \<le> b"
  by (induction ms arbitrary: a) auto

lemma chain_weaken: "chain a ms b \<Longrightarrow> b \<le> b' \<Longrightarrow> chain a ms b'"
  by (induction ms arbitrary: a) auto

lemma splice_wf:
  assumes "wf_tree base tx t" and "wf_tree base tx m" and "contains t m" and "splice up (length (children t)) m t = Some t'"
    and "children t = [] \<or> endOffset (last (children t)) \<le> offset m"
  shows "wf_tree base tx t' \<and> same_span t t'"
proof -
  have t': "t' = with_children (children t @ [own_by t m]) t" using assms(4) by (auto simp: splice_def insert_at_def split: if_splits)
  have "chain (offset t) (children t) (offset m)"
  proof (cases "children t = []")
    case False
    then have "chain (offset t) (children t) (endOffset (last (children t)))" using chain_last wf_treeD(6)[OF assms(1)] by blast
    then show ?thesis using chain_weaken False assms(5) by blast
  qed (use assms(3) in \<open>simp add: contains_def\<close>)
  then have "wf_tree base tx t'" unfolding t'
    using assms(1-3) wf_treeD(7)[OF assms(1)] by (intro wf_with_children) (auto simp: chain_snoc contains_def)
  then show ?thesis by (simp add: t' same_span_def)
qed

lemma insertAtEnd_wf:
  assumes "wf_tree base tx t" and "wf_tree base tx m" and "insertAtEnd up m t = Some t'"
  shows "wf_tree base tx t' \<and> same_span t t'"
  using assms
proof (induction up m t arbitrary: t' rule: insertAtEnd.induct)
  case (1 up m t)
  let ?cs = "children t" and ?c = "last (children t)"
  have con: "contains t m" "canContain t m" using 1(4) by (auto simp: insertAtEnd.simps[of up m t] split: if_splits)
  consider "?cs = []" | "?cs \<noteq> []" "endOffset ?c \<le> offset m" | "?cs \<noteq> []" "offset ?c \<le> offset m" "offset m < endOffset ?c" "endOffset m \<le> endOffset ?c"
    using 1(4) by (auto simp: insertAtEnd.simps[of up m t] Let_def split: if_splits)
  then show ?case
  proof cases
    case 1
    then show ?thesis using splice_wf[OF "1.prems"(1,2) con(1)] "1.prems"(3) con by (simp add: insertAtEnd.simps[of up m t])
  next
    case 2
    have "offset ?c \<le> endOffset ?c" using wf_treeD(7)[OF "1.prems"(1)] 2(1) by (auto simp: list_all_iff intro: wf_treeD(2))
    then have "splice up (length ?cs) m t = Some t'"
      using "1.prems"(3) con 2 by (simp add: insertAtEnd.simps[of up m t] Let_def)
    then show ?thesis using splice_wf[OF "1.prems"(1,2) con(1)] 2 by blast
  next
    case 3
    have wc: "wf_tree base tx ?c" using wf_treeD(7)[OF "1.prems"(1)] 3(1) by (simp add: list_all_iff)
    obtain c' where c': "insertAtEnd (node_of t # up) m ?c = Some c'" "t' = with_children (?cs[length ?cs - 1 := c']) t"
      using "1.prems"(3) con 3 by (auto simp: insertAtEnd.simps[of up m t] Let_def split: if_splits)
    have IH: "wf_tree base tx c' \<and> same_span ?c c'"
      using "1.IH"[OF _ _ 3(1) refl refl _ _ _ wc "1.prems"(2) c'(1)] con 3 by simp
    have up: "?cs[length ?cs - 1 := c'] = butlast ?cs @ [c']"
      using 3(1) by (metis append_butlast_last_id length_butlast list_update_length)
    have "chain (offset t) (butlast ?cs @ [?c]) (endOffset t)" using wf_treeD(6)[OF "1.prems"(1)] 3(1) by simp
    then have "chain (offset t) (butlast ?cs @ [c']) (endOffset t)" using IH by (simp add: chain_snoc same_span_def)
    moreover have "list_all (wf_tree base tx) (butlast ?cs @ [c'])"
      using wf_treeD(7)[OF "1.prems"(1)] IH by (auto simp: list_all_iff dest: in_set_butlastD)
    ultimately have "wf_tree base tx t'" unfolding c'(2) up using "1.prems"(1) by (intro wf_with_children)
    then show ?thesis by (simp add: c'(2) same_span_def)
  qed
qed

text \<open>
  C37: insertion keeps syntax trees well-formed. If a match is inserted at the end of a tree, both over the
  same text, every node of the result is still a slice of the text with its children inside it, in order and
  without overlap, and the tree spans what it did.
\<close>

theorem insertAtEnd_keeps_tree:
  assumes "wf_tree base tx t" and "wf_tree base tx m" and "insertAtEnd up m t = Some t'"
  shows "wf_tree base tx t' \<and> same_span t t'"
  by (rule insertAtEnd_wf[OF assms])

definition any_expr :: expr where
  "any_expr = \<lparr>klass = ''k'', force = False, only = None, allowed = AllowAll, disallow = None, owner = None\<rparr>"

theorem insertAtEnd_keeps_tree_witness:
  "\<exists>t'. insertAtEnd [] (new_Match 1 2 any_expr ''bc'') (Match 0 4 4 any_expr ''abcd'' [new_Match 0 1 any_expr ''a''] False) = Some t' \<and>
     length (children t') = 2 \<and> wf_tree 0 ''abcd'' t' \<and> same_span (Match 0 4 4 any_expr ''abcd'' [new_Match 0 1 any_expr ''a''] False) t'"
proof -
  let ?m = "new_Match 1 2 any_expr ''bc''" and ?t = "Match 0 4 4 any_expr ''abcd'' [new_Match 0 1 any_expr ''a''] False"
  obtain t' where t': "insertAtEnd [] ?m ?t = Some t'" "length (children t') = 2"
  proof
    show "insertAtEnd [] ?m ?t = Some (with_children [new_Match 0 1 any_expr ''a'', ?m] ?t)" by code_simp
    show "length (children (with_children [new_Match 0 1 any_expr ''a'', ?m] ?t)) = 2" by simp
  qed
  have "wf_tree 0 ''abcd'' ?t" "wf_tree 0 ''abcd'' ?m" by code_simp+
  from insertAtEnd_keeps_tree[OF this t'(1)] show ?thesis using t' by blast
qed

end
