(* ===== verification/Syntax_Bisect.thy ===== *)
theory Syntax_Bisect
  imports Syntax_Match "HOL-Library.Multiset"
begin

text \<open>
  Splitting a syntax tree of \<open>jquery.syntax.core.js\<close> at offsets: \<open>bisectAtOffsets\<close>, \<open>split\<close>, and the
  insertion of a range of the page with \<open>insert\<close> and \<open>_insertWhole\<close>.
\<close>

subsection \<open>bisectAtOffsets\<close>

text \<open>The parts of the node alone: a part per split, \<open>None\<close> for the placeholder \<open>null\<close>.\<close>

fun cut :: "smatch \<Rightarrow> int \<Rightarrow> int list \<Rightarrow> smatch option list" where
  "cut t start [] = []"
| "cut t start (off # offs) =
     (if endOffset t < off then []
      else if off < offset t \<or> off - start = 0 then None # cut t off offs
      else
        let st = (if start < offset t then offset t else start)
        in Some (new_Match st (off - st) (expression t) (js_substr (val t) (st - offset t) (off - st))) # cut t off offs)"

definition add_child :: "smatch \<Rightarrow> smatch \<Rightarrow> smatch" where
  "add_child c p = with_children (children p @ [c]) p"

text \<open>
  The parts of a child are merged into the parts from the current one on; a part beyond the last one,
  or a placeholder, is \<open>undefined\<close> or \<open>null\<close> and has no children.
\<close>

fun merge_parts :: "smatch option list \<Rightarrow> smatch option list \<Rightarrow> smatch option list result" where
  "merge_parts [] ps = Inr ps"
| "merge_parts (None # cps) [] = rbind (merge_parts cps []) (\<lambda>qs. Inr [])"
| "merge_parts (None # cps) (p # ps) = rbind (merge_parts cps ps) (\<lambda>qs. Inr (p # qs))"
| "merge_parts (Some c # cps) (Some p # ps) = rbind (merge_parts cps ps) (\<lambda>qs. Inr (Some (add_child c p) # qs))"
| "merge_parts (Some c # cps) ps = Inl TypeError"

lemma merge_parts_length: "merge_parts cps ps = Inr qs \<Longrightarrow> length qs = length ps"
  by (induction cps ps arbitrary: qs rule: merge_parts.induct) (auto simp: rbind_Inr_iff)

definition numeric_sort :: "int list \<Rightarrow> int list" where
  "numeric_sort xs = sort xs"

lemma size_drop_list: "dropWhile P xs = x # ys \<Longrightarrow> Suc (size x + size_list size ys) \<le> size_list size xs" for xs :: "smatch list"
  by (induction xs) (auto split: if_splits)

text \<open>
  \<open>fill splits parts children\<close> is the second loop from the current part on, with the children that are
  not yet placed. A placeholder is passed over without dropping a split, as in the code. The number of
  parts of a child that is cut is at least two.
\<close>

function bisectAtOffsets :: "int list \<Rightarrow> smatch \<Rightarrow> smatch option list result"
  and fill :: "int list \<Rightarrow> smatch option list \<Rightarrow> smatch list \<Rightarrow> smatch option list result" where
  "bisectAtOffsets splits t =
     (let all = numeric_sort (splits @ [endOffset t]);
          parts = cut t (offset t) all
      in fill (take (length parts) all) parts (children t))"
| "fill splits [] cs = Inr []"
| "fill splits (None # ps) cs = rbind (fill splits ps cs) (\<lambda>qs. Inr (None # qs))"
| "fill splits (Some p # ps) cs =
     (let moved = takeWhile (\<lambda>c. endOffset c \<le> endOffset p) cs;
          p1 = with_children (children p @ moved) p
      in case dropWhile (\<lambda>c. endOffset c \<le> endOffset p) cs of
           [] \<Rightarrow> rbind (fill (tl splits) ps []) (\<lambda>qs. Inr (Some p1 # qs))
         | c # rest \<Rightarrow>
             if offset c < endOffset p
             then rbind (bisectAtOffsets splits c) (\<lambda>cps.
                    rbind (merge_parts cps (Some p1 # ps)) (\<lambda>qs.
                      let n = length cps - 2
                      in rbind (fill (drop (n + 1) splits) (drop (n + 1) qs) rest) (\<lambda>rs. Inr (take (n + 1) qs @ rs))))
             else rbind (fill (tl splits) ps (c # rest)) (\<lambda>qs. Inr (Some p1 # qs)))"
  by pat_completeness auto
termination
proof (relation "inv_image (less_than <*lex*> less_than)
    (\<lambda>x. case x of Inl (sp, t) \<Rightarrow> (size t, 0) | Inr (sp, ps, cs) \<Rightarrow> (size_list size cs, length ps))", goal_cases)
  case (2 splits t all parts)
  then show ?case by (cases t) simp
qed (auto dest!: size_drop_list)

subsection \<open>split and insert\<close>

text \<open>The values of \<open>lastIndex\<close> for the matches of \<open>/\n/g\<close>.\<close>

fun newline_ends :: "int \<Rightarrow> string \<Rightarrow> int list" where
  "newline_ends i [] = []"
| "newline_ends i (c # s) = (if c = CHR 0x0A then (i + 1) # newline_ends (i + 1) s else newline_ends (i + 1) s)"

definition present :: "'a option list \<Rightarrow> 'a list" where
  "present xs = map the (filter (\<lambda>x. x \<noteq> None) xs)"

text \<open>\<open>split\<close> with \<open>ends\<close> the values of \<open>lastIndex\<close> for the pattern.\<close>

definition split_match :: "(string \<Rightarrow> int list) \<Rightarrow> smatch \<Rightarrow> smatch list result" where
  "split_match ends t = rbind (bisectAtOffsets (ends (val t)) t) (\<lambda>ps. Inr (present ps))"

definition part_at :: "nat \<Rightarrow> smatch option list \<Rightarrow> smatch option" where
  "part_at i ps = (if i < length ps then ps ! i else None)"

text \<open>\<open>_insertWhole\<close>; \<open>rule_for\<close> is \<open>getRuleForKlass\<close> of the brush that owns a node.\<close>

definition insertWhole :: "(string \<Rightarrow> string \<Rightarrow> expr option) \<Rightarrow> smatch \<Rightarrow> smatch \<Rightarrow> smatch result" where
  "insertWhole rule_for m t =
     rbind (bisectAtOffsets [offset m, endOffset m] t) (\<lambda>parts.
       let kids = (\<lambda>i. case part_at i parts of Some p \<Rightarrow> children p | None \<Rightarrow> []);
           e = (case owner (expression t) of
                  None \<Rightarrow> expression m
                | Some b \<Rightarrow> (case rule_for b (klass (expression m)) of Some r \<Rightarrow> r | None \<Rightarrow> expression m));
           m1 = with_expression e m;
           mid = (if part_at 1 parts = None then [] else [with_children (filter (canContain m1) (kids 1)) m1])
       in Inr (with_children (kids 0 @ mid @ kids 2) t))"

text \<open>\<open>insert(match, true)\<close>: down to the smallest node that contains the match. \<open>Inr None\<close> is \<open>null\<close>.\<close>

lemma find_size: "find P cs = Some c \<Longrightarrow> size c < Suc (size_list size cs)" for cs :: "smatch list"
  by (induction cs) (auto split: if_splits)

definition replace_child :: "('a \<Rightarrow> bool) \<Rightarrow> 'a \<Rightarrow> 'a list \<Rightarrow> 'a list" where
  "replace_child P y xs = takeWhile (\<lambda>x. \<not> P x) xs @ (case dropWhile (\<lambda>x. \<not> P x) xs of [] \<Rightarrow> [] | x # r \<Rightarrow> y # r)"

function insert_below :: "(string \<Rightarrow> string \<Rightarrow> expr option) \<Rightarrow> smatch \<Rightarrow> smatch \<Rightarrow> smatch result" where
  "insert_below rule_for m t =
     (case find (\<lambda>c. contains c m) (children t) of
        Some c \<Rightarrow> rbind (insert_below rule_for m c) (\<lambda>c'. Inr (with_children (replace_child (\<lambda>c. contains c m) c' (children t)) t))
      | None \<Rightarrow> insertWhole rule_for m t)"
  by pat_completeness auto
termination
proof (relation "measure (\<lambda>(r, m, t). size t)", simp)
  fix rule_for m t c
  assume "find (\<lambda>c. contains c m) (children t) = Some c"
  from find_size[OF this] show "((rule_for, m, c), rule_for, m, t) \<in> measure (\<lambda>(r, m, t). size t)" by (cases t) auto
qed

definition insert_match :: "(string \<Rightarrow> string \<Rightarrow> expr option) \<Rightarrow> smatch \<Rightarrow> smatch \<Rightarrow> smatch option result" where
  "insert_match rule_for m t =
     (if \<not> contains t m then Inr None else rbind (insert_below rule_for m t) (\<lambda>t'. Inr (Some t')))"

declare bisectAtOffsets.simps [simp del] insert_below.simps [simp del]

subsection \<open>The parts of a node\<close>

text \<open>Nodes that follow each other without a gap, none of them empty.\<close>

fun tiles :: "int \<Rightarrow> smatch list \<Rightarrow> int \<Rightarrow> bool" where
  "tiles a [] b = (a = b)"
| "tiles a (q # qs) b = (offset q = a \<and> a < endOffset q \<and> tiles (endOffset q) qs b)"

lemma tiles_le: "tiles a qs b \<Longrightarrow> a \<le> b"
  by (induction qs arbitrary: a) fastforce+

lemma tiles_ends: "tiles a qs b \<Longrightarrow> sorted (map endOffset qs) \<and> distinct (map endOffset qs) \<and> (\<forall>q \<in> set qs. a < endOffset q \<and> endOffset q \<le> b)"
proof (induction qs arbitrary: a)
  case (Cons q qs)
  then have IH: "sorted (map endOffset qs)" "distinct (map endOffset qs)" "\<forall>q' \<in> set qs. endOffset q < endOffset q' \<and> endOffset q' \<le> b"
    by auto
  have "endOffset q \<le> b" using Cons.prems tiles_le[of "endOffset q" qs b] by simp
  then show ?case using IH Cons.prems by fastforce
qed simp

lemma tiles_last: "tiles a qs b \<Longrightarrow> qs \<noteq> [] \<Longrightarrow> endOffset (last qs) = b"
  by (induction qs arbitrary: a) auto

definition fresh_part :: "int \<Rightarrow> string \<Rightarrow> expr \<Rightarrow> int \<Rightarrow> int \<Rightarrow> smatch" where
  "fresh_part base tx e a b = Match a b (b - a) e (slice base tx a b) [] False"

fun parts_of :: "int \<Rightarrow> string \<Rightarrow> expr \<Rightarrow> int \<Rightarrow> int list \<Rightarrow> smatch list" where
  "parts_of base tx e a [] = []"
| "parts_of base tx e a (s # ss) = fresh_part base tx e a s # parts_of base tx e s ss"

lemma parts_of_ends: "map endOffset (parts_of base tx e a ss) = ss"
  by (induction ss arbitrary: a) (auto simp: fresh_part_def)

lemma parts_of_tiles: "sorted (a # ss) \<Longrightarrow> distinct (a # ss) \<Longrightarrow> tiles a (parts_of base tx e a ss) (last (a # ss))"
  by (induction ss arbitrary: a) (auto simp: fresh_part_def order.strict_iff_order)

lemma parts_of_wf:
  "sorted (a # ss) \<Longrightarrow> base \<le> a \<Longrightarrow> last (a # ss) \<le> base + int (length tx) \<Longrightarrow> list_all (wf_tree base tx) (parts_of base tx e a ss)"
proof (induction ss arbitrary: a)
  case (Cons s ss)
  have "s \<le> last (s # ss)" using Cons.prems(1) by (cases ss) auto
  then show ?case using Cons by (auto simp: fresh_part_def)
qed simp

lemma parts_of_children: "list_all (\<lambda>q. children q = []) (parts_of base tx e a ss)"
  by (induction ss arbitrary: a) (auto simp: fresh_part_def)

lemma cut_inside:
  assumes "wf_tree base tx t" and "sorted (a # ss)" and "distinct (a # ss)" and "offset t \<le> a" and "last (a # ss) \<le> endOffset t"
  shows "cut t a (ss @ rest) = map Some (parts_of base tx (expression t) a ss) @ cut t (last (a # ss)) rest"
  using assms(2-5)
proof (induction ss arbitrary: a)
  case (Cons s ss)
  have le: "s \<le> last (s # ss)" using Cons.prems(1) by (cases ss) auto
  have "js_substr (val t) (a - offset t) (s - a) = slice base tx a s"
    unfolding wf_treeD(5)[OF assms(1)] using wf_treeD(1)[OF assms(1)] Cons.prems le by (intro substr_slice) auto
  then have "cut t a ((s # ss) @ rest) = Some (fresh_part base tx (expression t) a s) # cut t s (ss @ rest)"
    using Cons.prems le by (auto simp: new_Match_def fresh_part_def Let_def)
  then show ?case using Cons.IH[of s] Cons.prems by auto
qed simp

lemma cut_after: "\<forall>s \<in> set ss. endOffset t < s \<Longrightarrow> cut t e (replicate k e @ ss) = replicate k None" if "e = endOffset t"
  using that by (induction k) (cases ss; auto)+

lemma insort_split: "insort e S = takeWhile (\<lambda>s. s < e) S @ e # dropWhile (\<lambda>s. s < e) S" for e :: int
  by (induction S) auto

lemma sort_split:
  assumes "sorted S"
  shows "numeric_sort (S @ [e]) = takeWhile (\<lambda>s. s < e) S @ e # dropWhile (\<lambda>s. s < e) S"
proof -
  have "sort (S @ [e]) = sort (e # S)" by (rule properties_for_sort) (simp, rule sorted_sort)
  also have "\<dots> = insort e S" using assms by (simp add: sorted_sort_id)
  finally show ?thesis by (simp add: numeric_sort_def insort_split)
qed

lemma drop_below:
  "sorted S \<Longrightarrow> dropWhile (\<lambda>s. s < e) S = replicate (count_list S e) e @ filter (\<lambda>s. e < s) S" for e :: int
proof (induction S)
  case (Cons s S)
  show ?case
  proof (cases "s < e")
    case False
    then have "\<forall>x \<in> set S. e \<le> x" using Cons.prems by auto
    then have "dropWhile (\<lambda>s. s < e) S = S" by (cases S) auto
    show ?thesis
    proof (cases "s = e")
      case False
      then have "\<forall>x \<in> set S. e < x" using \<open>\<not> s < e\<close> Cons.prems by fastforce
      then have "count_list S e = 0" "filter (\<lambda>s. e < s) S = S" by (auto simp: filter_id_conv)
      then show ?thesis using \<open>\<not> s < e\<close> False by simp
    qed (use Cons \<open>dropWhile (\<lambda>s. s < e) S = S\<close> in auto)
  qed (use Cons in auto)
qed simp

lemma take_below: "sorted S \<Longrightarrow> takeWhile (\<lambda>s. s < e) S = filter (\<lambda>s. s < e) S" for e :: int
  by (induction S) (auto intro!: filter_False[symmetric])

lemma bisect_parts:
  assumes "wf_tree base tx t" and "offset t < endOffset t" and "sorted S" and "\<forall>s \<in> set S. offset t < s"
    and "distinct (filter (\<lambda>s. s < endOffset t) S)"
  defines "e \<equiv> endOffset t"
  shows "bisectAtOffsets S t =
    fill (filter (\<lambda>s. s < e) S @ e # replicate (count_list S e) e)
      (map Some (parts_of base tx (expression t) (offset t) (filter (\<lambda>s. s < e) S @ [e])) @ replicate (count_list S e) None) (children t)"
proof -
  let ?L = "filter (\<lambda>s. s < e) S" and ?k = "count_list S e" and ?G = "filter (\<lambda>s. e < s) S"
  define al where "al = numeric_sort (S @ [e])"
  have all: "al = (?L @ [e]) @ replicate ?k e @ ?G"
    using sort_split[OF assms(3), of e] drop_below[OF assms(3), of e] take_below[OF assms(3), of e] by (simp add: al_def)
  have srt: "sorted (offset t # ?L @ [e])" "distinct (offset t # ?L @ [e])"
    using assms(2-5) by (auto simp: sorted_append sorted_wrt_filter e_def)
  have "cut t (offset t) al =
      map Some (parts_of base tx (expression t) (offset t) (?L @ [e])) @ cut t e (replicate ?k e @ ?G)"
    unfolding all using cut_inside[OF assms(1) srt, of "replicate ?k e @ ?G"] by (simp add: e_def)
  also have "cut t e (replicate ?k e @ ?G) = replicate ?k None" by (rule cut_after) (auto simp: e_def)
  finally have cut: "cut t (offset t) al =
      map Some (parts_of base tx (expression t) (offset t) (?L @ [e])) @ replicate ?k None" .
  have "length (parts_of base tx (expression t) (offset t) (?L @ [e])) = length (?L @ [e])"
    using parts_of_ends[of base tx "expression t" "offset t" "?L @ [e]"] by (metis length_map)
  then have "take (length (cut t (offset t) al)) al = ?L @ e # replicate ?k e"
    unfolding cut by (simp add: all)
  then show ?thesis by (simp add: bisectAtOffsets.simps Let_def cut flip: e_def al_def)
qed

subsection \<open>Merging the parts of a child\<close>

lemma merge_nones: "merge_parts (replicate k None) ps = Inr ps"
proof (induction k arbitrary: ps)
  case (Suc k)
  then show ?case by (cases ps) auto
qed simp

lemma merge_some:
  assumes "length ds \<le> length ps"
  shows "merge_parts (map Some ds @ replicate j None) (map Some ps @ rest) =
    Inr (map Some (map2 add_child ds ps @ drop (length ds) ps) @ rest)"
  using assms
proof (induction ds arbitrary: ps)
  case Nil
  then show ?case by (simp add: merge_nones)
next
  case (Cons d ds)
  then obtain p ps' where "ps = p # ps'" by (cases ps) auto
  then show ?case using Cons by auto
qed

lemma add_child_simps [simp]:
  "offset (add_child c p) = offset p" "endOffset (add_child c p) = endOffset p" "children (add_child c p) = children p @ [c]"
  "same_span p (add_child c p)"
  by (simp_all add: add_child_def same_span_def)

lemma add_child_wf:
  assumes "wf_tree base tx p" and "wf_tree base tx d" and "chain (offset p) (children p) (offset d)" and "endOffset d \<le> endOffset p"
  shows "wf_tree base tx (add_child d p)"
  unfolding add_child_def using assms wf_treeD(7)[OF assms(1)] by (intro wf_with_children) (auto simp: chain_snoc)

text \<open>
  The parts \<open>ds\<close> of a child end where the parts of the node do, the last one possibly before; each lies
  in its part, behind the children the first part has already.
\<close>

lemma merged_wf:
  assumes "tiles a ps b" and "tiles x ds e" and "a \<le> x" and "map endOffset ds = map endOffset (take m ps) @ [e]"
    and "m < length ps" and "e \<le> endOffset (ps ! m)" and "chain a (children (hd ps)) x" and "list_all (\<lambda>p. children p = []) (tl ps)"
    and "list_all (wf_tree base tx) ps" and "list_all (wf_tree base tx) ds"
  shows "list_all (wf_tree base tx) (map2 add_child ds ps) \<and> length ds = Suc m"
  using assms
proof (induction m arbitrary: a x ps ds)
  case 0
  then obtain p ps' d where "ps = p # ps'" "ds = [d]" by (cases ps; cases ds) auto
  then show ?case using 0 by (auto intro!: add_child_wf)
next
  case (Suc m)
  then obtain p ps' d ds' where c: "ps = p # ps'" "ds = d # ds'" by (cases ps; cases ds) auto
  then obtain p2 ps2 where c2: "ps' = p2 # ps2" using Suc.prems(5) by (cases ps') auto
  have d: "endOffset d = endOffset p" "offset d = x" using Suc.prems(2,4) c by auto
  have "wf_tree base tx (add_child d p)" using Suc.prems(1,3,7,9,10) c d by (intro add_child_wf) auto
  moreover have "list_all (wf_tree base tx) (map2 add_child ds' ps') \<and> length ds' = Suc m"
  proof (rule Suc.IH)
    show "tiles (endOffset p) ps' b" "tiles (endOffset p) ds' e" "endOffset p \<le> endOffset p" using Suc.prems(1,2) c d by auto
    show "map endOffset ds' = map endOffset (take m ps') @ [e]" "m < length ps'" "e \<le> endOffset (ps' ! m)"
      using Suc.prems(4-6) c by auto
    show "chain (endOffset p) (children (hd ps')) (endOffset p)" "list_all (\<lambda>p. children p = []) (tl ps')"
      using Suc.prems(8) c c2 by auto
    show "list_all (wf_tree base tx) ps'" "list_all (wf_tree base tx) ds'" using Suc.prems(9,10) c by auto
  qed
  ultimately show ?case using c by simp
qed

subsection \<open>Bisection of well-formed trees\<close>

definition splittable :: "int list \<Rightarrow> smatch \<Rightarrow> bool" where
  "splittable S t \<longleftrightarrow>
     offset t < endOffset t \<and> sorted S \<and> (\<forall>s \<in> set S. offset t < s) \<and> distinct (filter (\<lambda>s. s < endOffset t) S)"

definition bisects :: "int \<Rightarrow> string \<Rightarrow> int list \<Rightarrow> smatch \<Rightarrow> bool" where
  "bisects base tx S t \<longleftrightarrow>
     (\<exists>ps. bisectAtOffsets S t = Inr (map Some ps @ replicate (count_list S (endOffset t)) None) \<and>
           tiles (offset t) ps (endOffset t) \<and> map endOffset ps = filter (\<lambda>s. s < endOffset t) S @ [endOffset t] \<and>
           list_all (wf_tree base tx) ps)"

lemma fill_nones: "fill S (replicate k None) cs = Inr (replicate k None)"
  by (induction k) auto

lemma chain_moved:
  assumes "chain z cs b" and "list_all (wf_tree base tx) cs" and "z \<le> e"
  shows "chain z (takeWhile (\<lambda>c. endOffset c \<le> e) cs) e"
  using assms
proof (induction cs arbitrary: z)
  case (Cons c cs)
  then show ?case by auto
qed simp

lemma chain_rest:
  assumes "chain z cs b" and "dropWhile P cs = c # rest" and "list_all (wf_tree base tx) cs"
  shows "z \<le> offset c \<and> chain (endOffset c) rest b \<and> chain z (takeWhile P cs) (offset c)"
  using assms
proof (induction cs arbitrary: z)
  case (Cons d cs)
  have d: "offset d \<le> endOffset d" using Cons.prems(3) wf_treeD(2) by auto
  show ?case
  proof (cases "P d")
    case True
    then show ?thesis using Cons.IH[of "endOffset d"] Cons.prems d by auto
  qed (use Cons.prems in auto)
qed simp

lemma chain_join: "chain a ms z \<Longrightarrow> chain z ns b \<Longrightarrow> chain a (ms @ ns) b" if "list_all (wf_tree base tx) ns"
  using that chain_append by blast

text \<open>The part \<open>q\<close> with the children that end in it.\<close>

lemma moved_wf:
  assumes "wf_tree base tx q" and "list_all (wf_tree base tx) cs" and "chain (offset q) (children q) z" and "chain z cs b" and "z \<le> endOffset q"
  defines "q' \<equiv> with_children (children q @ takeWhile (\<lambda>c. endOffset c \<le> endOffset q) cs) q"
  shows "wf_tree base tx q'" and "same_span q q'" and "offset q' = offset q" and "endOffset q' = endOffset q"
proof -
  have mv: "list_all (wf_tree base tx) (takeWhile (\<lambda>c. endOffset c \<le> endOffset q) cs)"
    using assms(2) by (auto simp: list_all_iff dest: set_takeWhileD)
  have "chain (offset q) (children q @ takeWhile (\<lambda>c. endOffset c \<le> endOffset q) cs) (endOffset q)"
    by (rule chain_join[OF mv assms(3) chain_moved[OF assms(4,2,5)]])
  then show "wf_tree base tx q'" unfolding q'_def using assms(1) mv wf_treeD(7)[OF assms(1)] by (intro wf_with_children) auto
qed (simp_all add: q'_def same_span_def)

text \<open>The invariant of the loop over the parts \<open>qs\<close>, of which the first may have children up to \<open>z\<close>.\<close>

definition fillable :: "int \<Rightarrow> string \<Rightarrow> int \<Rightarrow> smatch list \<Rightarrow> int \<Rightarrow> int \<Rightarrow> smatch list \<Rightarrow> bool" where
  "fillable base tx a qs b z cs \<longleftrightarrow>
     tiles a qs b \<and> list_all (wf_tree base tx) qs \<and> list_all (wf_tree base tx) cs \<and>
     (qs \<noteq> [] \<longrightarrow> chain a (children (hd qs)) z \<and> z \<le> endOffset (hd qs) \<and> list_all (\<lambda>q. children q = []) (tl qs) \<and> chain z cs b)"

definition filled_parts :: "int \<Rightarrow> string \<Rightarrow> int \<Rightarrow> smatch list \<Rightarrow> int \<Rightarrow> nat \<Rightarrow> smatch option list result \<Rightarrow> bool" where
  "filled_parts base tx a qs b k r \<longleftrightarrow>
     (\<exists>rs. r = Inr (map Some rs @ replicate k None) \<and> tiles a rs b \<and> map endOffset rs = map endOffset qs \<and> list_all (wf_tree base tx) rs)"

lemma filled_nil: "tiles a [] b \<Longrightarrow> filled_parts base tx a [] b k (fill S (replicate k None) cs)"
  by (simp add: filled_parts_def fill_nones)

lemma tiles_append: "tiles a (xs @ ys) b \<longleftrightarrow> (\<exists>c. tiles a xs c \<and> tiles c ys b)"
  by (induction xs arbitrary: a) auto

lemma filled_prefix:
  assumes "filled_parts base tx c ys b k r" and "tiles a xs c" and "list_all (wf_tree base tx) xs" and "map endOffset xs = map endOffset xs0"
  shows "filled_parts base tx a (xs0 @ ys) b k (rbind r (\<lambda>rs. Inr (map Some xs @ rs)))"
proof -
  obtain rs where rs: "r = Inr (map Some rs @ replicate k None)" "tiles c rs b" "map endOffset rs = map endOffset ys" "list_all (wf_tree base tx) rs"
    using assms(1) by (auto simp: filled_parts_def)
  have "tiles a (xs @ rs) b" using assms(2) rs(2) tiles_append by blast
  then show ?thesis unfolding filled_parts_def using rs assms(3,4) by (intro exI[of _ "xs @ rs"]) simp
qed

lemma filled_cons:
  assumes "filled_parts base tx (endOffset q) qs b k r" and "wf_tree base tx q" and "offset q = a" and "a < endOffset q"
    and "endOffset q = endOffset q0"
  shows "filled_parts base tx a (q0 # qs) b k (rbind r (\<lambda>rs. Inr (Some q # rs)))"
  using filled_prefix[OF assms(1), of a "[q]" "[q0]"] assms(2-5) by simp

lemma tiles_cong:
  assumes "list_all2 (\<lambda>p q. offset p = offset q \<and> endOffset p = endOffset q) ps qs"
  shows "tiles a ps b \<longleftrightarrow> tiles a qs b"
  using assms by (induction arbitrary: a rule: list_all2_induct) auto

text \<open>Where a sorted list of ends passes \<open>e\<close>.\<close>

lemma pass_end:
  assumes "tiles a qs b" and "qs \<noteq> []" and "e \<le> b"
  defines "m \<equiv> length (filter (\<lambda>s. s < e) (map endOffset qs))"
  shows "filter (\<lambda>s. s < e) (map endOffset qs) = map endOffset (take m qs)" and "m < length qs" and "e \<le> endOffset (qs ! m)"
    and "e \<in> set (map endOffset qs) \<longleftrightarrow> endOffset (qs ! m) = e"
proof -
  let ?E = "map endOffset qs"
  have srt: "sorted ?E" "distinct ?E" using tiles_ends[OF assms(1)] by auto
  have tw: "takeWhile (\<lambda>s. s < e) ?E = filter (\<lambda>s. s < e) ?E" by (rule take_below[OF srt(1)])
  then show "filter (\<lambda>s. s < e) ?E = map endOffset (take m qs)"
    unfolding m_def by (metis takeWhile_eq_take take_map)
  have "b \<in> set ?E" using tiles_last[OF assms(1,2)] assms(2) by (metis last_in_set last_map list.map_disc_iff)
  then have "takeWhile (\<lambda>s. s < e) ?E \<noteq> ?E" using assms(3) by (metis not_less set_takeWhileD)
  then show lt: "m < length qs" unfolding m_def tw[symmetric]
    by (metis length_map length_takeWhile_le order_le_imp_less_or_eq takeWhile_eq_take take_all_iff order_refl)
  have "\<not> ?E ! m < e" unfolding m_def tw[symmetric] by (rule nth_length_takeWhile) (use lt m_def tw in simp)
  then show ge: "e \<le> endOffset (qs ! m)" using lt by simp
  show "e \<in> set ?E \<longleftrightarrow> endOffset (qs ! m) = e"
  proof
    assume "e \<in> set ?E"
    then obtain i where i: "i < length qs" "endOffset (qs ! i) = e" by (auto simp: in_set_conv_nth)
    have "m \<le> i"
    proof (rule ccontr)
      assume "\<not> m \<le> i"
      then have "?E ! i \<in> set (takeWhile (\<lambda>s. s < e) ?E)" unfolding m_def tw[symmetric] by (metis not_le nth_mem takeWhile_nth)
      then show False using i by (auto dest: set_takeWhileD)
    qed
    then have "?E ! m \<le> ?E ! i" using srt(1) i(1) by (intro sorted_nth_mono) auto
    then show "endOffset (qs ! m) = e" using ge i lt by simp
  qed (use lt in auto)
qed

lemma count_distinct: "distinct xs \<Longrightarrow> count_list xs x = (if x \<in> set xs then 1 else 0)"
  by (induction xs) auto

lemma count_ends:
  assumes "tiles a qs b" and "e < b"
  shows "count_list (map endOffset qs @ replicate k b) e = (if e \<in> set (map endOffset qs) then 1 else 0)"
proof -
  have "distinct (map endOffset qs)" using tiles_ends[OF assms(1)] by blast
  then have "count_list (map endOffset qs) e = (if e \<in> set (map endOffset qs) then 1 else 0)"
    by (rule count_distinct)
  moreover have "count_list (replicate k b) e = 0" using assms(2) by (induction k) auto
  ultimately show ?thesis by simp
qed

text \<open>The parts after the first ones have been given the parts of a child: what is left to fill.\<close>

lemma rest_fillable:
  assumes "tiles a ps b" and "list_all (wf_tree base tx) ps" and "list_all (\<lambda>q. children q = []) (drop i ps)"
    and "list_all (wf_tree base tx) rest" and "chain z rest b" and "i < length ps \<Longrightarrow> offset (ps ! i) = z"
  shows "\<exists>c. tiles a (take i ps) c \<and> fillable base tx c (drop i ps) b z rest"
proof -
  have wf: "list_all (wf_tree base tx) (drop i ps)" using assms(2) by (auto simp: list_all_iff dest: in_set_dropD)
  obtain c where c: "tiles a (take i ps) c" "tiles c (drop i ps) b" using assms(1) tiles_append[of a "take i ps" "drop i ps" b] by auto
  have "fillable base tx c (drop i ps) b z rest"
  proof (cases "i < length ps")
    case True
    then have d: "drop i ps = ps ! i # drop (Suc i) ps" by (simp add: Cons_nth_drop_Suc)
    then have "c = z" "z < endOffset (ps ! i)" using c(2) assms(6) True by auto
    then show ?thesis unfolding fillable_def using c wf assms(3-5) d by simp
  qed (use c wf assms(4) in \<open>simp add: fillable_def\<close>)
  then show ?thesis using c by blast
qed

lemma tiles_nth: "tiles a ps b \<Longrightarrow> Suc i < length ps \<Longrightarrow> offset (ps ! Suc i) = endOffset (ps ! i)"
proof (induction ps arbitrary: a i)
  case (Cons p ps)
  then show ?case by (cases i; cases ps) auto
qed simp

lemma tiles_nonempty: "tiles a ps b \<Longrightarrow> i < length ps \<Longrightarrow> offset (ps ! i) < endOffset (ps ! i) \<and> endOffset (ps ! i) \<le> b"
proof (induction ps arbitrary: a i)
  case (Cons p ps)
  then show ?case using tiles_le[of "endOffset p" ps b] by (cases i) auto
qed simp

lemma count_replicate: "count_list (replicate k x) x = k"
  by (induction k) auto

lemma merged_same:
  assumes "length ds \<le> length ps"
  shows "list_all2 (\<lambda>p q. offset p = offset q \<and> endOffset p = endOffset q) ps (map2 add_child ds ps @ drop (length ds) ps)"
  using assms
proof (induction ds arbitrary: ps)
  case (Cons d ds)
  then show ?case by (cases ps) auto
qed (simp add: list_all2_refl)

text \<open>The part in which a child ends is filled on behind the child.\<close>

lemma child_fillable:
  assumes "tiles a p2 b" and "list_all (wf_tree base tx) p2" and "m < length p2" and "p2 = map2 add_child ds ps @ drop (Suc m) ps"
    and "list_all (\<lambda>p. children p = []) (drop m ps)" and "endOffset (ds ! m) = e" and "e \<le> endOffset (ps ! m)"
    and "list_all (wf_tree base tx) rest" and "chain e rest b" and "length ds = Suc m"
  shows "\<exists>x. tiles a (take m p2) x \<and> fillable base tx x (drop m p2) b e rest"
proof -
  let ?p = "add_child (ds ! m) (ps ! m)"
  have m: "m < length ps"
  proof (rule ccontr)
    assume "\<not> m < length ps"
    then have "length p2 \<le> m" using assms(4,10) by simp
    then show False using assms(3) by simp
  qed
  then have dr: "drop m p2 = ?p # drop (Suc m) ps" using assms(10) by (simp add: assms(4) drop_map drop_zip Cons_nth_drop_Suc[symmetric])
  have kids: "children (ps ! m) = []" "list_all (\<lambda>p. children p = []) (drop (Suc m) ps)"
    using assms(5) m by (auto simp: Cons_nth_drop_Suc[symmetric])
  have wf: "list_all (wf_tree base tx) (drop m p2)" using assms(2) by (auto simp: list_all_iff dest: in_set_dropD)
  obtain x where x: "tiles a (take m p2) x" "tiles x (drop m p2) b"
    using assms(1) tiles_append[of a "take m p2" "drop m p2" b] by auto
  have "wf_tree base tx ?p" using wf dr by simp
  then have "offset ?p \<le> offset (ds ! m)" using wf_treeD(6) kids(1) by fastforce
  then have "fillable base tx x (drop m p2) b e rest"
    unfolding fillable_def using x(2) wf assms(6-9) kids dr by auto
  then show ?thesis using x(1) by blast
qed

lemma go_on:
  assumes "i \<le> length p2" and "list_all (wf_tree base tx) p2" and "map endOffset p2 = map endOffset ps" and "tiles a (take i p2) c"
    and "filled_parts base tx c (drop i p2) b k (fill (map endOffset (drop i p2) @ replicate k b) (map Some (drop i p2) @ replicate k None) rest)"
  shows "filled_parts base tx a ps b k (rbind (fill (drop i (map endOffset ps @ replicate k b)) (drop i (map Some p2 @ replicate k None)) rest)
      (\<lambda>rs. Inr (take i (map Some p2 @ replicate k None) @ rs)))"
proof -
  have "length ps = length p2" using assms(3) by (metis length_map)
  then have "drop i (map endOffset ps @ replicate k b) = map endOffset (drop i p2) @ replicate k b"
    "drop i (map Some p2 @ replicate k None) = map Some (drop i p2) @ replicate k None"
    "take i (map Some p2 @ replicate k None) = map Some (take i p2)"
    using assms(1,3) by (simp_all flip: drop_map take_map)
  moreover have "filled_parts base tx a (take i p2 @ drop i p2) b k (rbind (fill (map endOffset (drop i p2) @ replicate k b)
      (map Some (drop i p2) @ replicate k None) rest) (\<lambda>rs. Inr (map Some (take i p2) @ rs)))"
    using assms by (intro filled_prefix) (auto simp: list_all_iff dest: in_set_takeD)
  ultimately show ?thesis using assms(3) by (simp add: filled_parts_def)
qed

text \<open>The part that ends where the node does is the last one, and only placeholders follow.\<close>

lemma last_part:
  assumes "tiles a ps b" and "m < length ps" and "b \<le> endOffset (ps ! m)"
  shows "length ps = Suc m" "count_list (map endOffset ps @ replicate k b) b = Suc k"
proof -
  have e: "endOffset (ps ! m) = b" using tiles_ends[OF assms(1)] assms(2,3) by (simp add: order_antisym)
  show "length ps = Suc m"
  proof (rule ccontr)
    assume "length ps \<noteq> Suc m"
    then have "offset (ps ! Suc m) = b" "offset (ps ! Suc m) < endOffset (ps ! Suc m)" "endOffset (ps ! Suc m) \<le> b"
      using tiles_nth[OF assms(1), of m] tiles_nonempty[OF assms(1), of "Suc m"] e assms(2) by auto
    then show False by simp
  qed
  have "b \<in> set (map endOffset ps)" using e assms(2) by (metis length_map nth_map nth_mem)
  then show "count_list (map endOffset ps @ replicate k b) b = Suc k"
    using tiles_ends[OF assms(1)] count_distinct[of "map endOffset ps" b] by (simp add: count_replicate)
qed

text \<open>Parts with the parts of a child merged in.\<close>

lemma merged_parts:
  assumes "tiles a ps b" and "length ds \<le> length ps" and "list_all (wf_tree base tx) (map2 add_child ds ps)" and "list_all (wf_tree base tx) ps"
  defines "p2 \<equiv> map2 add_child ds ps @ drop (length ds) ps"
  shows "tiles a p2 b" "length p2 = length ps" "list_all (wf_tree base tx) p2" "map endOffset p2 = map endOffset ps"
proof -
  have same: "list_all2 (\<lambda>p q. offset p = offset q \<and> endOffset p = endOffset q) ps p2"
    using merged_same[of ds ps] assms(2) by (simp add: p2_def)
  show "tiles a p2 b" using assms(1) tiles_cong[OF same] by blast
  show "length p2 = length ps" using same by (simp add: list_all2_lengthD)
  show "list_all (wf_tree base tx) p2" unfolding p2_def using assms(3,4) by (auto simp: list_all_iff dest: in_set_dropD)
  show "map endOffset p2 = map endOffset ps" using same by (auto simp: list_eq_iff_nth_eq list_all2_conv_all_nth)
qed

text \<open>A child \<open>c\<close> that crosses the end of the first part: its parts are merged and the loop goes on behind it.\<close>

lemma straddled:
  assumes "tiles a ps b" and "ps \<noteq> []" and "list_all (wf_tree base tx) ps" and "list_all (\<lambda>p. children p = []) (tl ps)"
    and "chain a (children (hd ps)) (offset c)" and "a \<le> offset c" and "endOffset (hd ps) < endOffset c" and "endOffset c \<le> b"
    and "bisects base tx (map endOffset ps @ replicate k b) c" and "list_all (wf_tree base tx) rest" and "chain (endOffset c) rest b"
    and "\<And>a' qs' z'. length qs' < length ps \<Longrightarrow> fillable base tx a' qs' b z' rest \<Longrightarrow>
           filled_parts base tx a' qs' b k (fill (map endOffset qs' @ replicate k b) (map Some qs' @ replicate k None) rest)"
  shows "filled_parts base tx a ps b k
    (rbind (bisectAtOffsets (map endOffset ps @ replicate k b) c) (\<lambda>cps.
       rbind (merge_parts cps (map Some ps @ replicate k None)) (\<lambda>qs.
         let n = length cps - 2
         in rbind (fill (drop (n + 1) (map endOffset ps @ replicate k b)) (drop (n + 1) qs) rest) (\<lambda>rs. Inr (take (n + 1) qs @ rs)))))"
proof -
  let ?S = "map endOffset ps @ replicate k b" and ?e = "endOffset c"
  define j where "j = count_list ?S ?e"
  define m where "m = length (filter (\<lambda>s. s < ?e) (map endOffset ps))"
  note pe = pass_end[OF assms(1,2,8), folded m_def]
  obtain ds where ds: "bisectAtOffsets ?S c = Inr (map Some ds @ replicate j None)" "tiles (offset c) ds ?e"
    "map endOffset ds = filter (\<lambda>s. s < ?e) ?S @ [?e]" "list_all (wf_tree base tx) ds"
    using assms(9) by (auto simp: bisects_def j_def)
  have ends: "map endOffset ds = map endOffset (take m ps) @ [?e]" using ds(3) pe(1) assms(8) by simp
  have mw: "list_all (wf_tree base tx) (map2 add_child ds ps)" "length ds = Suc m"
    using merged_wf[OF assms(1) ds(2) assms(6) ends pe(2,3) assms(5,4,3) ds(4)] by auto
  have m1: "1 \<le> m" using assms(2,7) by (cases ps) (auto simp: m_def)
  define p2 where "p2 = map2 add_child ds ps @ drop (Suc m) ps"
  have mg: "merge_parts (map Some ds @ replicate j None) (map Some ps @ replicate k None) = Inr (map Some p2 @ replicate k None)"
    using merge_some[of ds ps j "replicate k None"] pe(2) mw(2) by (simp add: p2_def)
  note t2 = merged_parts(1)[OF assms(1) _ mw(1) assms(3), unfolded mw(2), folded p2_def, OF Suc_leI[OF pe(2)]]
    and l2 = merged_parts(2)[OF assms(1) _ mw(1) assms(3), unfolded mw(2), folded p2_def, OF Suc_leI[OF pe(2)]]
    and wf2 = merged_parts(3)[OF assms(1) _ mw(1) assms(3), unfolded mw(2), folded p2_def, OF Suc_leI[OF pe(2)]]
    and e2 = merged_parts(4)[OF assms(1) _ mw(1) assms(3), unfolded mw(2), folded p2_def, OF Suc_leI[OF pe(2)]]
  have n: "length (map Some ds @ replicate j None :: smatch option list) - 2 + 1 = m + j" using mw(2) m1 by simp
  have goal: "filled_parts base tx a ps b k (rbind (fill (drop (m + j) ?S) (drop (m + j) (map Some p2 @ replicate k None)) rest)
      (\<lambda>rs. Inr (take (m + j) (map Some p2 @ replicate k None) @ rs)))"
  proof (cases "?e = b")
    case True
    then have "length ps = Suc m" "j = Suc k" using last_part[OF assms(1) pe(2)] pe(3) by (auto simp: j_def)
    then have "drop (m + j) ?S = []" "drop (m + j) (map Some p2 @ replicate k None) = []"
      "take (m + j) (map Some p2 @ replicate k None) = map Some p2 @ replicate k None" using l2 by auto
    then show ?thesis using t2 e2 wf2 by (simp add: filled_parts_def)
  next
    case False
    then have jj: "j = (if endOffset (ps ! m) = ?e then 1 else 0)"
      using count_ends[OF assms(1), of ?e k] assms(8) pe(4) by (simp add: j_def)
    show ?thesis
    proof (cases "endOffset (ps ! m) = ?e")
      case True
      have "offset (p2 ! Suc m) = ?e" if "Suc m < length p2" using tiles_nth[OF t2, of m] True that e2 l2 pe(2) by (metis nth_map)
      then obtain x where "tiles a (take (Suc m) p2) x" "fillable base tx x (drop (Suc m) p2) b ?e rest"
        using rest_fillable[OF t2 wf2 _ assms(10,11), of "Suc m"] assms(4) mw(2) pe(2)
        by (auto simp: p2_def list_all_iff drop_Suc dest: in_set_dropD)
      then show ?thesis using go_on[of "Suc m" p2 base tx ps a x b k rest] assms(12) True jj wf2 e2 pe(2) l2 by simp
    next
      case False
      have tl: "list_all (\<lambda>p. children p = []) (drop m ps)" using assms(4) m1 by (cases m) (auto simp: drop_Suc list_all_iff dest: in_set_dropD)
      have "endOffset (ds ! m) = ?e" using ends mw(2) pe(2)
        by (metis (no_types, lifting) length_map length_take less_imp_le_nat lessI min.absorb2 nth_append_length nth_map)
      then obtain x where "tiles a (take m p2) x" "fillable base tx x (drop m p2) b ?e rest"
        using child_fillable[OF t2 wf2 pe(2)[folded l2] _ tl _ pe(3) assms(10,11), of ds] mw(2) by (auto simp: p2_def)
      then show ?thesis using go_on[of m p2 base tx ps a x b k rest] assms(12) False jj wf2 e2 pe(2) l2 m1 by simp
    qed
  qed
  show ?thesis using goal by (simp only: ds(1) mg rbind_simps Let_def n)
qed

text \<open>The three ways to go on after a part.\<close>

lemma fill_done:
  assumes "dropWhile (\<lambda>c. endOffset c \<le> endOffset q) cs = []"
  shows "fill (e # S) (Some q # ps) cs =
    rbind (fill S ps []) (\<lambda>rs. Inr (Some (with_children (children q @ takeWhile (\<lambda>c. endOffset c \<le> endOffset q) cs) q) # rs))"
  by (simp only: fill.simps Let_def assms list.case list.sel)

lemma fill_skip:
  assumes "dropWhile (\<lambda>c. endOffset c \<le> endOffset q) cs = c # rest" and "\<not> offset c < endOffset q"
  shows "fill (e # S) (Some q # ps) cs =
    rbind (fill S ps (c # rest)) (\<lambda>rs. Inr (Some (with_children (children q @ takeWhile (\<lambda>c. endOffset c \<le> endOffset q) cs) q) # rs))"
  by (simp only: fill.simps Let_def assms list.case list.sel if_False)

lemma fill_cross:
  assumes "dropWhile (\<lambda>c. endOffset c \<le> endOffset q) cs = c # rest" and "offset c < endOffset q"
  shows "fill S (Some q # ps) cs =
    rbind (bisectAtOffsets S c) (\<lambda>cps.
      rbind (merge_parts cps (Some (with_children (children q @ takeWhile (\<lambda>c. endOffset c \<le> endOffset q) cs) q) # ps)) (\<lambda>qs.
        let n = length cps - 2
        in rbind (fill (drop (n + 1) S) (drop (n + 1) qs) rest) (\<lambda>rs. Inr (take (n + 1) qs @ rs))))"
  using assms(2) by (simp only: fill.simps assms list.case if_True) (simp only: Let_def)

lemma next_fillable:
  assumes "fillable base tx a (q # qs) b z cs" and "list_all (wf_tree base tx) ds" and "chain (endOffset q) ds b"
  shows "fillable base tx (endOffset q) qs b (endOffset q) ds"
proof -
  have q: "tiles (endOffset q) qs b" "list_all (wf_tree base tx) qs" "list_all (\<lambda>q. children q = []) qs"
    using assms(1) by (auto simp: fillable_def)
  show ?thesis
  proof (cases qs)
    case (Cons r rs)
    then show ?thesis using q assms(2,3) by (auto simp: fillable_def)
  qed (use q assms(2) in \<open>simp add: fillable_def\<close>)
qed

lemma splittable_child:
  assumes "tiles a qs b" and "qs \<noteq> []" and "offset c < endOffset (hd qs)" and "endOffset (hd qs) < endOffset c" and "endOffset c \<le> b"
  shows "splittable (map endOffset qs @ replicate k b) c"
proof -
  note t = tiles_ends[OF assms(1)]
  have "endOffset (hd qs) \<le> x" if "x \<in> set (map endOffset qs)" for x
    using t that assms(2) by (cases qs) auto
  moreover have "endOffset (hd qs) \<le> b" using assms(4,5) by simp
  ultimately have "\<forall>s \<in> set (map endOffset qs @ replicate k b). offset c < s" using assms(3) by fastforce
  moreover have "sorted (map endOffset qs @ replicate k b)" using t by (auto simp: sorted_append sorted_replicate)
  moreover have "distinct (filter (\<lambda>s. s < endOffset c) (map endOffset qs @ replicate k b))" using t assms(5) by simp
  ultimately show ?thesis using assms(3,4) by (simp add: splittable_def)
qed

lemma fill_ok:
  assumes "\<And>c S. c \<in> set cs \<Longrightarrow> wf_tree base tx c \<Longrightarrow> splittable S c \<Longrightarrow> bisects base tx S c"
    and "fillable base tx a qs b z cs"
  shows "filled_parts base tx a qs b k (fill (map endOffset qs @ replicate k b) (map Some qs @ replicate k None) cs)"
  using assms
proof (induction "length qs" arbitrary: a qs z cs rule: less_induct)
  case less
  show ?case
  proof (cases qs)
    case Nil
    then show ?thesis using less.prems(2) filled_nil by (auto simp: fillable_def)
  next
    case (Cons q qs')
    let ?P = "\<lambda>c. endOffset c \<le> endOffset q"
    let ?q = "with_children (children q @ takeWhile ?P cs) q"
    note f = less.prems(2)[unfolded Cons fillable_def, simplified]
    have mw: "wf_tree base tx ?q" using f moved_wf(1)[of base tx q cs z b] by auto
    have wfr: "list_all (wf_tree base tx) ds" if "set ds \<subseteq> set cs" for ds using f that by (auto simp: list_all_iff)
    have on: "filled_parts base tx a (q # qs') b k (rbind (fill (map endOffset qs' @ replicate k b) (map Some qs' @ replicate k None) ds) (\<lambda>rs. Inr (Some ?q # rs)))"
      if "chain (endOffset q) ds b" "set ds \<subseteq> set cs" for ds
    proof (rule filled_cons)
      show "filled_parts base tx (endOffset ?q) qs' b k (fill (map endOffset qs' @ replicate k b) (map Some qs' @ replicate k None) ds)"
        using less.hyps[of qs' ds "endOffset q" "endOffset q"] less.prems(1) next_fillable[OF less.prems(2)[unfolded Cons] wfr[OF that(2)] that(1)] that(2) Cons
        by auto
    qed (use f mw in auto)
    show ?thesis
    proof (cases "dropWhile ?P cs")
      case Nil
      have "endOffset q \<le> b" using f tiles_le[of "endOffset q" qs' b] by blast
      then show ?thesis using on[of "[]"] by (simp add: Cons fill_done[OF Nil] del: fill.simps)
    next
      case dr: (Cons c rest)
      have c: "c \<in> set cs" "set rest \<subseteq> set cs" "\<not> ?P c" using dr by (metis set_dropWhileD list.set_intros(1), metis set_dropWhileD list.set_intros(2) subsetI, metis hd_dropWhile list.sel(1) list.distinct(1))
      have cr: "z \<le> offset c" "chain (endOffset c) rest b" "chain z (takeWhile ?P cs) (offset c)" using chain_rest[of z cs b ?P c rest base tx] f dr by auto
      show ?thesis
      proof (cases "offset c < endOffset q")
        case False
        have "chain (endOffset q) (c # rest) b" using False cr by simp
        then show ?thesis using on[of "c # rest"] c by (simp add: Cons fill_skip[OF dr False] del: fill.simps)
      next
        case True
        have wfc: "wf_tree base tx c" using wfr[of "[c]"] c by simp
        have cb: "endOffset c \<le> b" by (rule chain_le[OF cr(2) wfr[OF c(2)]])
        have sp: "splittable (map endOffset (?q # qs') @ replicate k b) c"
          using f True c(3) cb by (intro splittable_child[of a "?q # qs'" b]) auto
        have wft: "list_all (wf_tree base tx) (takeWhile ?P cs)" by (rule wfr) (auto dest: set_takeWhileD)
        have cq: "chain a (children q) z" "list_all (wf_tree base tx) (children q)" using f wf_treeD(7) by auto
        have ch: "chain a (children q @ takeWhile ?P cs) (offset c)" "a \<le> offset c"
          using chain_join[OF wft cq(1) cr(3)] chain_le[OF cq] cr(1) by auto
        have go: "filled_parts base tx a' ds b k (fill (map endOffset ds @ replicate k b) (map Some ds @ replicate k None) rest)"
          if "length ds < length (?q # qs')" "fillable base tx a' ds b z' rest" for a' ds z'
          by (rule less.hyps[of ds rest a' z']) (use that c(2) less.prems(1) Cons in auto)
        note st = straddled[of a "?q # qs'" b base tx c k rest, OF _ _ _ _ _ ch(2) _ cb less.prems(1)[OF c(1) wfc sp] wfr[OF c(2)] cr(2) go]
        have "filled_parts base tx a (?q # qs') b k (fill (map endOffset (?q # qs') @ replicate k b) (Some q # map Some qs' @ replicate k None) cs)"
          unfolding fill_cross[OF dr True] using st f mw c(3) ch(1) by (simp del: fill.simps)
        then show ?thesis by (simp add: Cons filled_parts_def del: fill.simps)
      qed
    qed
  qed
qed

text \<open>A well-formed tree is cut into well-formed parts that follow each other from its start to its end.\<close>

lemma bisect_ok: "wf_tree base tx t \<Longrightarrow> splittable S t \<Longrightarrow> bisects base tx S t"
proof (induction t arbitrary: S)
  case (Match a b n e v cs c)
  let ?t = "Match a b n e v cs c" and ?L = "filter (\<lambda>s. s < b) S" and ?k = "count_list S b"
  let ?qs = "parts_of base tx e a (?L @ [b])"
  have srt: "sorted (a # ?L @ [b])" "distinct (a # ?L @ [b])"
    using Match.prems(2) by (auto simp: splittable_def sorted_append sorted_wrt_filter)
  have "tiles a ?qs b" using parts_of_tiles[OF srt] by simp
  moreover have "list_all (wf_tree base tx) ?qs" using parts_of_wf[OF srt(1)] Match.prems(1) by simp
  moreover have "chain a (children (hd ?qs)) a" "a \<le> endOffset (hd ?qs)" "list_all (\<lambda>q. children q = []) (tl ?qs)"
    using parts_of_children[of base tx e a "?L @ [b]"] srt(1) \<open>tiles a ?qs b\<close> by (cases ?qs; auto)+
  ultimately have "fillable base tx a ?qs b a cs" using Match.prems(1) by (auto simp: fillable_def)
  then have "filled_parts base tx a ?qs b ?k (fill (map endOffset ?qs @ replicate ?k b) (map Some ?qs @ replicate ?k None) cs)"
    using Match.IH by (intro fill_ok) auto
  then have "filled_parts base tx a ?qs b ?k (bisectAtOffsets S ?t)"
    using bisect_parts[OF Match.prems(1), of S] Match.prems(2) by (simp add: splittable_def parts_of_ends)
  then show ?case by (simp add: filled_parts_def bisects_def parts_of_ends)
qed

lemma present_parts: "present (map Some ps @ replicate k None) = ps"
  by (simp add: present_def filter_map comp_def)

lemma tiles_text:
  assumes "tiles a ps b" and "list_all (wf_tree base tx) ps" and "base \<le> a"
  shows "concat (map val ps) = slice base tx a b"
  using assms
proof (induction ps arbitrary: a)
  case (Cons p ps)
  have le: "a \<le> endOffset p" "endOffset p \<le> b" using Cons.prems(1) tiles_le by auto
  then have "concat (map val ps) = slice base tx (endOffset p) b" using Cons.IH[of "endOffset p"] Cons.prems by auto
  then show ?case using le Cons.prems wf_treeD(5)[of base tx p] slice_append[of base a "endOffset p" b tx] by simp
qed (simp add: slice_def)

lemma newline_ends_bounds: "s \<in> set (newline_ends i v) \<Longrightarrow> i < s \<and> s \<le> i + int (length v)"
proof (induction v arbitrary: i)
  case (Cons c v)
  then have "s = i + 1 \<or> s \<in> set (newline_ends (i + 1) v)" by (auto split: if_splits)
  then show ?case using Cons.IH[of "i + 1"] by auto
qed simp

lemma newline_ends_sorted: "sorted (newline_ends i v) \<and> distinct (newline_ends i v)"
proof (induction v arbitrary: i)
  case (Cons c v)
  then show ?case using newline_ends_bounds[of _ "i + 1" v] by (fastforce simp: less_imp_le)
qed simp

lemma newline_ends_all: "j < length v \<Longrightarrow> v ! j = CHR 0x0A \<Longrightarrow> i + int j + 1 \<in> set (newline_ends i v)"
proof (induction v arbitrary: i j)
  case (Cons c v)
  show ?case
  proof (cases j)
    case (Suc k)
    then have "(i + 1) + int k + 1 \<in> set (newline_ends (i + 1) v)" using Cons.IH[of k "i + 1"] Cons.prems by simp
    then show ?thesis using Suc by (simp add: algebra_simps)
  qed (use Cons in simp)
qed simp

lemma newlines_splittable: "offset t = 0 \<Longrightarrow> 0 < endOffset t \<Longrightarrow> splittable (newline_ends 0 (val t)) t"
  using newline_ends_bounds[of _ 0 "val t"] newline_ends_sorted[of 0 "val t"] by (simp add: splittable_def)

lemma tiles_start: "tiles a ps b \<Longrightarrow> p \<in> set ps \<Longrightarrow> a \<le> offset p"
  by (induction ps arbitrary: a) fastforce+

lemma tiles_apart: "tiles a ps b \<Longrightarrow> p \<in> set ps \<Longrightarrow> q \<in> set ps \<Longrightarrow> offset p < endOffset q \<Longrightarrow> endOffset p \<le> endOffset q"
proof (induction ps arbitrary: a)
  case (Cons r ps)
  then show ?case using tiles_ends[of "endOffset r" ps b] tiles_start[of "endOffset r" ps b p] by fastforce
qed simp

definition one_line :: "string \<Rightarrow> bool" where
  "one_line s \<longleftrightarrow> CHR 0x0A \<notin> set (butlast s)"

lemma parts_one_line:
  assumes "tiles 0 ps b" and "list_all (wf_tree 0 tx) ps" and "p \<in> set ps" and "b \<le> int (length tx)"
    and "map endOffset ps = filter (\<lambda>s. s < b) (newline_ends 0 (slice 0 tx 0 b)) @ [b]"
  shows "one_line (val p)"
proof (rule ccontr)
  have p: "val p = slice 0 tx (offset p) (endOffset p)" "0 \<le> offset p" "endOffset p \<le> b" "offset p < endOffset p"
    using assms(1-3) wf_treeD(5) tiles_start[OF assms(1,3)] tiles_ends[OF assms(1)] tiles_nonempty[OF assms(1)]
    by (auto simp: list_all_iff in_set_conv_nth)
  assume "\<not> one_line (val p)"
  then obtain j where j: "Suc j < length (val p)" "val p ! j = CHR 0x0A"
    by (auto simp: one_line_def in_set_conv_nth nth_butlast less_diff_conv)
  let ?x = "offset p + int j + 1"
  have x: "?x < endOffset p" "tx ! (nat (offset p) + j) = CHR 0x0A" using j p by (auto simp: slice_def)
  then have "slice 0 tx 0 b ! (nat (offset p) + j) = CHR 0x0A" "nat (offset p) + j < length (slice 0 tx 0 b)"
    using p assms(4) by (auto simp: slice_def)
  then have "?x \<in> set (newline_ends 0 (slice 0 tx 0 b))" using newline_ends_all[of "nat (offset p) + j" _ 0] p(2) by (auto simp: algebra_simps)
  then have "?x \<in> set (map endOffset ps)" unfolding assms(5) using x(1) p(3) by simp
  then obtain q where "q \<in> set ps" "endOffset q = ?x" by auto
  then show False using tiles_apart[OF assms(1,3)] x(1) by fastforce
qed

text \<open>
  C36: bisection. A well-formed tree that is not empty, cut at increasing offsets behind its start, gives a
  part for every offset inside it and one for its end, followed by placeholders for the offsets at its end:
  the parts are well-formed trees, none of them empty, and follow each other without a gap.
\<close>

theorem bisect_into_parts:
  assumes "wf_tree base tx t" and "splittable S t"
  shows "\<exists>ps. bisectAtOffsets S t = Inr (map Some ps @ replicate (count_list S (endOffset t)) None) \<and>
    tiles (offset t) ps (endOffset t) \<and> map endOffset ps = filter (\<lambda>s. s < endOffset t) S @ [endOffset t] \<and>
    list_all (wf_tree base tx) ps \<and> concat (map val ps) = val t"
proof -
  obtain ps where ps: "bisectAtOffsets S t = Inr (map Some ps @ replicate (count_list S (endOffset t)) None)" "tiles (offset t) ps (endOffset t)"
    "map endOffset ps = filter (\<lambda>s. s < endOffset t) S @ [endOffset t]" "list_all (wf_tree base tx) ps"
    using bisect_ok[OF assms] unfolding bisects_def by blast
  moreover have "concat (map val ps) = val t" using tiles_text[OF ps(2,4)] wf_treeD(1,5)[OF assms(1)] by simp
  ultimately show ?thesis by blast
qed

theorem bisect_into_parts_witness:
  "\<exists>ps. bisectAtOffsets [2, 4] (Match 0 4 4 any_expr ''abcd'' [new_Match 1 2 any_expr ''bc''] False) = Inr (map Some ps @ [None]) \<and>
     tiles 0 ps 4 \<and> map endOffset ps = [2, 4] \<and> list_all (wf_tree 0 ''abcd'') ps \<and> concat (map val ps) = ''abcd''"
proof -
  let ?t = "Match 0 4 4 any_expr ''abcd'' [new_Match 1 2 any_expr ''bc''] False"
  have "wf_tree 0 ''abcd'' ?t" "splittable [2, 4] ?t" by code_simp+
  from bisect_into_parts[OF this] show ?thesis by simp
qed

text \<open>
  A cut at the start of a node gives a placeholder, which is passed over without dropping its offset: the
  parts of a child that crosses a later cut are then merged one place too far, and the last of them has no
  part to go to.
\<close>

lemma bisect_at_start_fails:
  "bisectAtOffsets [0, 5] (Match 0 10 10 any_expr ''abcdefghij'' [new_Match 3 5 any_expr ''defgh''] False) = Inl TypeError"
  by code_simp

text \<open>So a range of the page at the very start of a text cannot be inserted where a match crosses its end.\<close>

lemma insert_at_start_fails:
  "insert_match (\<lambda>b k. None) (new_Match 0 5 any_expr ''abcde'')
     (Match 0 10 10 any_expr ''abcdefghij'' [new_Match 3 5 any_expr ''defgh''] False) = Inl TypeError"
  by code_simp

end
