(* ===== verification/Syntax_Brush.thy ===== *)
theory Syntax_Brush
  imports Syntax_Bisect
begin

text \<open>
  The brushes of \<open>jquery.syntax.core.js\<close>: rules and how they are added, the extraction of matches, the
  tree built from them and its reduction to lines of HTML. The regular expression engine is an argument
  \<open>ex\<close>: \<open>ex p s i\<close> is the match \<open>p.exec(s)\<close> finds with \<open>lastIndex\<close> at \<open>i\<close>. A computation has no value
  (\<open>None\<close>) if it does not end; the number argument of \<open>getMatches\<close> bounds the nesting of brushes.
\<close>

subsection \<open>Patterns and rules\<close>

datatype regexp = RegExp (source: string) (flags: string)

definition global :: "regexp \<Rightarrow> bool" where
  "global p \<longleftrightarrow> CHR ''g'' \<in> set (flags p)"

record rmatch =
  m_index :: nat
  m_text :: string                     \<comment> \<open>\<open>match[0]\<close>\<close>
  m_groups :: "string option list"     \<comment> \<open>\<open>match[1]\<close>, ...\<close>

type_synonym engine = "regexp \<Rightarrow> string \<Rightarrow> nat \<Rightarrow> rmatch option"

definition group :: "rmatch \<Rightarrow> nat \<Rightarrow> string option" where
  "group m i =
     (if i = 0 then Some (m_text m) else if i - 1 < length (m_groups m) then m_groups m ! (i - 1) else None)"

text \<open>\<open>RegExp.indexOf\<close> and \<open>RegExp.escape\<close>.\<close>

definition RegExp_indexOf :: "rmatch \<Rightarrow> string \<Rightarrow> int" where
  "RegExp_indexOf m u = index_of (m_text m) u + int (m_index m)"

definition RegExp_escape :: "string \<Rightarrow> string" where
  "RegExp_escape s =
     concat (map (\<lambda>c. if c \<in> set (''-[]{}()*+?.'' @ [CHR 0x5C] @ ''^$|,#'' @ space_chars) then [CHR 0x5C, c] else [c]) s)"

definition is_word :: "char \<Rightarrow> bool" where
  "is_word c \<longleftrightarrow> c \<in> set (letters @ ''0123456789_'')"

definition convertStringToTokenPattern :: "string \<Rightarrow> bool \<Rightarrow> string" where
  "convertStringToTokenPattern p escape =
     (let b = [CHR 0x5C, CHR ''b'']; nb = [CHR 0x5C, CHR ''B''];
          first = (p \<noteq> [] \<and> is_word (hd p)); final = (p \<noteq> [] \<and> is_word (last p));
          (prefix, postfix) =
            (if \<not> first then (if \<not> final then ([], []) else (nb, b)) else (if \<not> final then (b, nb) else (b, b)))
      in prefix @ (if escape then RegExp_escape p else p) @ postfix)"

text \<open>A rule of \<open>extractMatches\<close>.\<close>

record sub_rule =
  s_index :: "nat option"
  s_brush :: "string option"
  s_expr :: expr

text \<open>
  A rule of a brush: the expression its matches get, and how they are found. A class that is not given
  is the empty text. \<open>Derives\<close> is the rule \<open>derives\<close> adds, which applies another brush.
\<close>

record rule =
  r_expr :: expr
  r_pattern :: "regexp option"
  r_subs :: "sub_rule option list option"    \<comment> \<open>\<open>matches: Syntax.extractMatches(...)\<close>\<close>
  r_brush :: "string option"
  incremental :: bool

datatype brush_entry = Rule rule | Derives string

record brush =
  b_klass :: string
  b_rules :: "brush_entry list"
  b_parents :: "string list"

type_synonym brushes = "string \<Rightarrow> brush option"

definition new_Brush :: "string \<Rightarrow> brush" where
  "new_Brush name = \<lparr>b_klass = name, b_rules = [], b_parents = []\<rparr>"

definition derives :: "string \<Rightarrow> brush \<Rightarrow> brush" where
  "derives name b = b\<lparr>b_parents := b_parents b @ [name], b_rules := b_rules b @ [Derives name]\<rparr>"

definition register :: "brushes \<Rightarrow> string \<Rightarrow> (brush \<Rightarrow> brush) \<Rightarrow> brushes" where
  "register B name callback = B(name \<mapsto> callback (new_Brush name))"

text \<open>The argument of \<open>push\<close>: a pattern may be given as text, and flags as \<open>options\<close>.\<close>

datatype pat = PRe regexp | PStr string

record pushed =
  p_rule :: rule                       \<comment> \<open>its \<open>r_pattern\<close> is not used\<close>
  p_pattern :: "pat option"
  p_options :: "string option"

definition options_or_g :: "pushed \<Rightarrow> string" where
  "options_or_g r = (case p_options r of Some f \<Rightarrow> if f = [] then ''g'' else f | None \<Rightarrow> ''g'')"

definition extend_owner :: "string \<Rightarrow> expr \<Rightarrow> expr" where
  "extend_owner k e = (case owner e of None \<Rightarrow> e\<lparr>owner := Some k\<rparr> | Some _ \<Rightarrow> e)"

definition push_rule :: "pushed \<Rightarrow> brush \<Rightarrow> brush" where
  "push_rule r b =
     (let p = (case p_pattern r of
                 None \<Rightarrow> None
               | Some (PRe x) \<Rightarrow> Some x
               | Some (PStr s) \<Rightarrow> Some (RegExp (convertStringToTokenPattern s True) (options_or_g r)))
      in if (case p of None \<Rightarrow> True | Some x \<Rightarrow> global x)
         then b\<lparr>b_rules := b_rules b @ [Rule ((p_rule r)\<lparr>r_pattern := p, r_expr := extend_owner (b_klass b) (r_expr (p_rule r))\<rparr>)]\<rparr>
         else b)"

definition alternatives :: "pat list \<Rightarrow> string" where
  "alternatives ps =
     ''('' @ join_with ''|'' (map (\<lambda>p. case p of PRe x \<Rightarrow> source x | PStr s \<Rightarrow> convertStringToTokenPattern s True) ps) @ '')''"

definition push_rules :: "pat list \<Rightarrow> pushed \<Rightarrow> brush \<Rightarrow> brush" where
  "push_rules ps r b =
     push_rule (r\<lparr>p_pattern := (case p_pattern r of
                                  Some p \<Rightarrow> Some p
                                | None \<Rightarrow> Some (PRe (RegExp (alternatives ps) (options_or_g r))))\<rparr>) b"

subsection \<open>Extraction of matches\<close>

text \<open>
  What extraction gives: the matches, and whether the loop of \<open>MatchPattern\<close>, whose variable \<open>match\<close> is
  global, has run to its end and left that variable at \<open>null\<close>.
\<close>

type_synonym 'a run_of = "('a \<times> bool) result option"

abbreviation obind :: "'a result option \<Rightarrow> ('a \<Rightarrow> 'b result option) \<Rightarrow> 'b result option" where
  "obind r f \<equiv> Option.bind r (\<lambda>x. case x of Inl e \<Rightarrow> Some (Inl e) | Inr a \<Rightarrow> f a)"

text \<open>\<open>jQuery.extend(match.expression, rule)\<close>: what the rule gives replaces what the expression has.\<close>

definition extend_expr :: "expr \<Rightarrow> expr \<Rightarrow> expr" where
  "extend_expr e r =
     \<lparr>klass = (if klass r = [] then klass e else klass r),
      force = (force r \<or> force e),
      only = (if only r = None then only e else only r),
      allowed = (if allowed r = NoAllow then allowed e else allowed r),
      disallow = (if disallow r = None then disallow e else disallow r),
      owner = (if owner r = None then owner e else owner r)\<rparr>"

text \<open>\<open>Syntax.Brush.buildTree\<close>; \<open>build\<close> is \<open>buildTree\<close> of a brush given by name.\<close>

definition embed :: "(string \<Rightarrow> string \<Rightarrow> int \<Rightarrow> smatch run_of) \<Rightarrow> expr \<Rightarrow> string \<Rightarrow> string \<Rightarrow> int \<Rightarrow> smatch run_of" where
  "embed build r name tx off =
     obind (build name tx off) (\<lambda>(t, c). Some (Inr (with_expression (extend_expr (expression t) r) t, c)))"

fun extractMatches ::
  "(string \<Rightarrow> string \<Rightarrow> int \<Rightarrow> smatch run_of) \<Rightarrow> expr \<Rightarrow> nat \<Rightarrow> sub_rule option list \<Rightarrow> rmatch \<Rightarrow> smatch list run_of" where
  "extractMatches build e i [] m = Some (Inr ([], False))"
| "extractMatches build e i (None # rs) m = extractMatches build e (i + 1) rs m"
| "extractMatches build e i (Some r # rs) m =
     (case group m (case s_index r of Some k \<Rightarrow> k | None \<Rightarrow> i + 1) of
        None \<Rightarrow> Some (Inl TypeError)
      | Some u \<Rightarrow>
          obind
            (if u = [] then Some (Inr ([], False))
             else case s_brush r of
                    Some name \<Rightarrow> obind (embed build (s_expr r) name u (RegExp_indexOf m u)) (\<lambda>(t, c). Some (Inr ([t], c)))
                  | None \<Rightarrow>
                      Some (Inr ([new_Match (RegExp_indexOf m u) (int (length u))
                                    (case owner (s_expr r) of None \<Rightarrow> (s_expr r)\<lparr>owner := owner e\<rparr> | Some _ \<Rightarrow> s_expr r) u], False)))
            (\<lambda>(ms, c). obind (extractMatches build e (i + 1) rs m) (\<lambda>(ms', c'). Some (Inr (ms @ ms', c \<or> c')))))"

text \<open>
  The loop of \<open>MatchPattern\<close>, with what it does for a match. An incremental rule goes on from
  \<open>match.index + 1\<close>, reading the variable after the matches of an embedded brush may have set it to \<open>null\<close>.
\<close>

partial_function (option) match_loop ::
  "engine \<Rightarrow> (rmatch \<Rightarrow> smatch list run_of) \<Rightarrow> bool \<Rightarrow> regexp \<Rightarrow> string \<Rightarrow> nat \<Rightarrow> smatch list run_of" where
  "match_loop ex act inc p tx i =
     (case ex p tx i of
        None \<Rightarrow> Some (Inr ([], True))
      | Some m \<Rightarrow>
          obind (act m) (\<lambda>(ms, c).
            if inc \<and> c then Some (Inl TypeError)
            else obind (match_loop ex act inc p tx (if inc then m_index m + 1 else m_index m + length (m_text m)))
                   (\<lambda>(ms', c'). Some (Inr (ms @ ms', c')))))"

declare match_loop.simps [code]

definition found :: "(string \<Rightarrow> string \<Rightarrow> int \<Rightarrow> smatch run_of) \<Rightarrow> rule \<Rightarrow> rmatch \<Rightarrow> smatch list run_of" where
  "found build r m =
     (case r_subs r of
        Some subs \<Rightarrow> extractMatches build (r_expr r) 0 subs m
      | None \<Rightarrow>
          (case r_brush r of
             Some name \<Rightarrow> obind (embed build (r_expr r) name (m_text m) (int (m_index m))) (\<lambda>(t, c). Some (Inr ([t], c)))
           | None \<Rightarrow> Some (Inr ([new_Match (int (m_index m)) (int (length (m_text m))) (r_expr r) (m_text m)], False))))"

definition MatchPattern :: "engine \<Rightarrow> (string \<Rightarrow> string \<Rightarrow> int \<Rightarrow> smatch run_of) \<Rightarrow> string \<Rightarrow> rule \<Rightarrow> smatch list run_of" where
  "MatchPattern ex build tx r =
     (case r_pattern r of
        None \<Rightarrow> Some (Inr ([], False))
      | Some p \<Rightarrow> match_loop ex (found build r) (incremental r) p tx 0)"

text \<open>\<open>getRuleForKlass\<close>, and \<open>allKlasses\<close> with a bound on the depth of the parents.\<close>

fun rule_of_klass :: "brush_entry list \<Rightarrow> string \<Rightarrow> expr option" where
  "rule_of_klass [] k = None"
| "rule_of_klass (Rule r # rs) k =
     (if klass (r_expr r) \<noteq> [] \<and> klass (r_expr r) = k then Some (r_expr r) else rule_of_klass rs k)"
| "rule_of_klass (Derives name # rs) k = rule_of_klass rs k"

definition getRuleForKlass :: "brush \<Rightarrow> string \<Rightarrow> expr option" where
  "getRuleForKlass b k = rule_of_klass (b_rules b) k"

definition rule_for :: "brushes \<Rightarrow> string \<Rightarrow> string \<Rightarrow> expr option" where
  "rule_for B name k = (case B name of Some b \<Rightarrow> getRuleForKlass b k | None \<Rightarrow> None)"

primrec collect :: "('a \<Rightarrow> 'b list result option) \<Rightarrow> 'a list \<Rightarrow> 'b list result option" where
  "collect f [] = Some (Inr [])"
| "collect f (x # xs) = obind (f x) (\<lambda>a. obind (collect f xs) (\<lambda>b. Some (Inr (a @ b))))"

primrec allKlasses :: "brushes \<Rightarrow> nat \<Rightarrow> brush \<Rightarrow> string list result option" where
  "allKlasses B 0 b = None"
| "allKlasses B (Suc n) b =
     obind (collect (\<lambda>name. case B name of None \<Rightarrow> Some (Inl TypeError) | Some p \<Rightarrow> allKlasses B n p) (b_parents b))
       (\<lambda>ks. Some (Inr (b_klass b # ks)))"

subsection \<open>Trees\<close>

text \<open>\<open>matches.sort(Syntax.Match.sort)\<close>, a stable sort.\<close>

fun place :: "smatch \<Rightarrow> smatch list \<Rightarrow> smatch list" where
  "place m [] = [m]"
| "place m (x # xs) = (if match_sort m x \<le> 0 then m # x # xs else x # place m xs)"

definition sort_matches :: "smatch list \<Rightarrow> smatch list" where
  "sort_matches ms = foldr place ms []"

definition insert_sorted :: "smatch list \<Rightarrow> smatch \<Rightarrow> smatch" where
  "insert_sorted ms t = fold (\<lambda>m t. case insertAtEnd [] m t of Some t' \<Rightarrow> t' | None \<Rightarrow> t) ms t"

fun insert_additional :: "(string \<Rightarrow> string \<Rightarrow> expr option) \<Rightarrow> smatch list \<Rightarrow> smatch \<Rightarrow> smatch result" where
  "insert_additional rf [] t = Inr t"
| "insert_additional rf (m # ms) t =
     rbind (insert_match rf m t) (\<lambda>r. insert_additional rf ms (case r of Some t' \<Rightarrow> t' | None \<Rightarrow> t))"

definition no_cr :: "string \<Rightarrow> string" where
  "no_cr s = filter (\<lambda>c. c \<noteq> CHR 0x0D) s"

definition top_expr :: "brush \<Rightarrow> string list \<Rightarrow> expr" where
  "top_expr b ks =
     \<lparr>klass = join_with '' '' ks, force = False, only = None, allowed = AllowAll, disallow = None, owner = Some (b_klass b)\<rparr>"

definition completed :: "smatch \<Rightarrow> smatch" where
  "completed t = Match (offset t) (endOffset t) (len t) (expression t) (val t) (children t) True"

text \<open>\<open>buildTree\<close> of a brush, with \<open>getMatches\<close> and \<open>allKlasses\<close> of the brush.\<close>

definition build_with ::
  "brushes \<Rightarrow> (string \<Rightarrow> smatch list run_of) \<Rightarrow> string list result option \<Rightarrow> brush \<Rightarrow> string \<Rightarrow> int \<Rightarrow> smatch list \<Rightarrow> smatch run_of" where
  "build_with B get klasses b tx0 off extra =
     (let tx = no_cr tx0
      in obind (get tx) (\<lambda>(ms0, c).
           let ms = (if 0 < off then map (shift off []) ms0 else ms0)
           in obind klasses (\<lambda>ks.
                let top = insert_sorted (sort_matches ms) (new_Match off (int (length tx)) (top_expr b ks) tx)
                in case insert_additional (rule_for B) extra top of
                     Inl e \<Rightarrow> Some (Inl e)
                   | Inr t \<Rightarrow> Some (Inr (completed t, c)))))"

primrec rules_matches :: "(brush_entry \<Rightarrow> smatch list run_of) \<Rightarrow> brush_entry list \<Rightarrow> smatch list run_of" where
  "rules_matches f [] = Some (Inr ([], False))"
| "rules_matches f (r # rs) =
     obind (f r) (\<lambda>(ms, c). obind (rules_matches f rs) (\<lambda>(ms', c'). Some (Inr (ms @ ms', c \<or> c'))))"

text \<open>\<open>getMatches\<close>, with \<open>getMatchesForRule\<close> for each rule.\<close>

primrec getMatches :: "engine \<Rightarrow> brushes \<Rightarrow> nat \<Rightarrow> brush \<Rightarrow> string \<Rightarrow> smatch list run_of" where
  "getMatches ex B 0 b tx = None"
| "getMatches ex B (Suc n) b tx =
     rules_matches (\<lambda>x. case x of
         Rule r \<Rightarrow>
           MatchPattern ex
             (\<lambda>name s off. case B name of
                None \<Rightarrow> Some (Inl TypeError)
              | Some b' \<Rightarrow> build_with B (getMatches ex B n b') (allKlasses B n b') b' s off [])
             tx r
       | Derives name \<Rightarrow>
           (case B name of None \<Rightarrow> Some (Inl TypeError) | Some b' \<Rightarrow> getMatches ex B n b' tx))
       (b_rules b)"

definition buildTree :: "engine \<Rightarrow> brushes \<Rightarrow> nat \<Rightarrow> brush \<Rightarrow> string \<Rightarrow> int \<Rightarrow> smatch list \<Rightarrow> smatch run_of" where
  "buildTree ex B n b tx0 off extra = build_with B (getMatches ex B n b) (allKlasses B n b) b tx0 off extra"

text \<open>\<open>process\<close>: the lines of the \<open>pre\<close> element; \<open>procs\<close> are the processing functions of the expressions.\<close>

definition process :: "engine \<Rightarrow> brushes \<Rightarrow> nat \<Rightarrow> (smatch \<Rightarrow> html \<Rightarrow> html) \<Rightarrow> brush \<Rightarrow> string \<Rightarrow> smatch list \<Rightarrow> html list result option" where
  "process ex B n procs b tx0 extra =
     obind (buildTree ex B n b tx0 0 extra) (\<lambda>(t, c).
       Some (rbind (split_match (newline_ends 0) t) (\<lambda>ls. Inr (map (reduce procs) ls))))"

subsection \<open>Trees in a larger text\<close>

lemma slice_piece:
  assumes "base \<le> off" and "off \<le> a" and "a \<le> b" and "b \<le> off + int (length s)" and "s = slice base tx off (off + int (length s))"
  shows "slice off s a b = slice base tx a b"
  using substr_slice[of base off a b "off + int (length s)" tx] assms by (simp add: js_substr_def slice_def)

lemma wf_within:
  assumes "wf_tree off s t" and "base \<le> off" and "s = slice base tx off (off + int (length s))"
    and "off + int (length s) \<le> base + int (length tx)"
  shows "wf_tree base tx t"
  using assms(1)
proof (induction t)
  case (Match a b n e v cs c)
  then have "slice off s a b = slice base tx a b" using assms(2-4) by (intro slice_piece) auto
  then show ?case using Match assms(2,4) by (auto simp: list_all_iff)
qed

lemma shift_ends [simp]: "offset (shift off [] t) = offset t + off" "endOffset (shift off [] t) = endOffset t + off"
  by (cases t; simp add: adjust_def Let_def)+

lemma chain_shift: "chain a ms b \<Longrightarrow> chain (a + off) (map (shift off []) ms) (b + off)"
  by (induction ms arbitrary: a) auto

lemma shift_wf: "wf_tree base tx t \<Longrightarrow> wf_tree (base + off) tx (shift off [] t)"
proof (induction t)
  case (Match a b n e v cs c)
  have "slice (base + off) tx (a + off) (b + off) = slice base tx a b" by (simp add: slice_def)
  then show ?case using Match chain_shift[of a cs b off] by (auto simp: adjust_def Let_def list_all_iff)
qed

lemma place_set: "set (place m ms) = insert m (set ms)"
  by (induction m ms rule: place.induct) auto

lemma sort_set: "set (sort_matches ms) = set ms"
  by (induction ms) (auto simp: sort_matches_def place_set)

lemma insert_sorted_wf:
  "list_all (wf_tree base tx) ms \<Longrightarrow> wf_tree base tx t \<Longrightarrow> wf_tree base tx (insert_sorted ms t) \<and> same_span t (insert_sorted ms t)"
proof (induction ms arbitrary: t)
  case (Cons m ms)
  let ?t = "case insertAtEnd [] m t of Some t' \<Rightarrow> t' | None \<Rightarrow> t"
  have t: "wf_tree base tx ?t \<and> same_span t ?t"
    using Cons.prems insertAtEnd_wf[of base tx t m "[]"] by (auto simp: same_span_def split: option.splits)
  have "wf_tree base tx (insert_sorted ms ?t) \<and> same_span ?t (insert_sorted ms ?t)" using Cons.IH Cons.prems t by simp
  moreover have "insert_sorted (m # ms) t = insert_sorted ms ?t" by (simp add: insert_sorted_def)
  ultimately show ?case using t by (simp add: same_span_def)
qed (simp add: insert_sorted_def same_span_def)

lemma completed_simps [simp]:
  "wf_tree base tx (completed t) = wf_tree base tx t" "offset (completed t) = offset t" "endOffset (completed t) = endOffset t"
  "val (completed t) = val t"
  by (cases t; simp add: completed_def)+

lemma with_expression_simps [simp]:
  "wf_tree base tx (with_expression e t) = wf_tree base tx t" "offset (with_expression e t) = offset t"
  by (cases t; simp add: with_expression_def)+

lemma new_Match_wf:
  assumes "base \<le> off" and "off + int (length v) \<le> base + int (length tx)" and "v = slice base tx off (off + int (length v))"
  shows "wf_tree base tx (new_Match off (int (length v)) e v)"
  using assms by (simp add: new_Match_def)

text \<open>The tree of a text whose matches are well-formed covers the text.\<close>

lemma build_with_ok:
  assumes "get (no_cr s) = Some (Inr (ms, c))" and "list_all (wf_tree 0 (no_cr s)) ms" and "kl = Some (Inr ks)" and "0 \<le> off"
  shows "\<exists>t. build_with B get kl b s off [] = Some (Inr (t, c)) \<and> wf_tree off (no_cr s) t \<and>
    offset t = off \<and> endOffset t = off + int (length (no_cr s))"
proof -
  let ?tx = "no_cr s" and ?ms = "if 0 < off then map (shift off []) ms else ms"
  let ?top = "new_Match off (int (length ?tx)) (top_expr b ks) ?tx"
  have "list_all (wf_tree off ?tx) (sort_matches ?ms)"
    using assms(2,4) shift_wf[of 0 ?tx _ off] by (auto simp: list_all_iff sort_set)
  moreover have "wf_tree off ?tx ?top" by (rule new_Match_wf) (auto simp: slice_def)
  ultimately have "wf_tree off ?tx (insert_sorted (sort_matches ?ms) ?top)" "same_span ?top (insert_sorted (sort_matches ?ms) ?top)"
    using insert_sorted_wf by blast+
  then show ?thesis using assms(1,3) by (simp add: build_with_def Let_def same_span_def new_Match_def)
qed

subsection \<open>What the engine promises\<close>

text \<open>A match of a global pattern is found at or after \<open>lastIndex\<close>, and its text is the text at its index.\<close>

locale regexp_engine =
  fixes ex :: engine
  assumes found_after: "global p \<Longrightarrow> ex p tx i = Some m \<Longrightarrow> i \<le> m_index m"
    and found_text: "global p \<Longrightarrow> ex p tx i = Some m \<Longrightarrow>
      m_index m + length (m_text m) \<le> length tx \<and> m_text m = take (length (m_text m)) (drop (m_index m) tx)"

text \<open>
  What a rule has to be like: its pattern is global, and does not match the empty text unless the rule is
  incremental; the groups \<open>extractMatches\<close> reads took part in the match and lie in it; an incremental
  rule does not embed a brush.
\<close>

fun subs_ok :: "nat \<Rightarrow> sub_rule option list \<Rightarrow> rmatch \<Rightarrow> bool" where
  "subs_ok i [] m = True"
| "subs_ok i (None # rs) m = subs_ok (i + 1) rs m"
| "subs_ok i (Some r # rs) m =
     ((case group m (case s_index r of Some k \<Rightarrow> k | None \<Rightarrow> i + 1) of None \<Rightarrow> False | Some u \<Rightarrow> sublist u (m_text m)) \<and>
      subs_ok (i + 1) rs m)"

definition sub_brushes :: "sub_rule option list \<Rightarrow> string list" where
  "sub_brushes rs = List.map_filter (\<lambda>r. case r of Some s \<Rightarrow> s_brush s | None \<Rightarrow> None) rs"

definition rule_uses :: "rule \<Rightarrow> string list" where
  "rule_uses r =
     (case r_subs r of Some rs \<Rightarrow> sub_brushes rs | None \<Rightarrow> (case r_brush r of Some name \<Rightarrow> [name] | None \<Rightarrow> []))"

definition rule_ok :: "engine \<Rightarrow> rule \<Rightarrow> bool" where
  "rule_ok ex r \<longleftrightarrow>
     (case r_pattern r of
        None \<Rightarrow> True
      | Some p \<Rightarrow>
          global p \<and> (incremental r \<longrightarrow> rule_uses r = []) \<and>
          (\<forall>tx i m. ex p tx i = Some m \<longrightarrow>
             (incremental r \<or> m_text m \<noteq> []) \<and> (case r_subs r of None \<Rightarrow> True | Some rs \<Rightarrow> subs_ok 0 rs m)))"

definition brush_ok :: "engine \<Rightarrow> brush \<Rightarrow> bool" where
  "brush_ok ex b \<longleftrightarrow> (\<forall>r. Rule r \<in> set (b_rules b) \<longrightarrow> rule_ok ex r)"

definition brushes_ok :: "engine \<Rightarrow> brushes \<Rightarrow> bool" where
  "brushes_ok ex B \<longleftrightarrow> (\<forall>name b. B name = Some b \<longrightarrow> brush_ok ex b)"

definition brush_uses :: "brush \<Rightarrow> string list" where
  "brush_uses b = b_parents b @ concat (map (\<lambda>x. case x of Rule r \<Rightarrow> rule_uses r | Derives name \<Rightarrow> [name]) (b_rules b))"

text \<open>The brushes a brush refers to are registered, to a depth below \<open>n\<close>.\<close>

primrec nested :: "brushes \<Rightarrow> nat \<Rightarrow> brush \<Rightarrow> bool" where
  "nested B 0 b = False"
| "nested B (Suc n) b = list_all (\<lambda>name. case B name of None \<Rightarrow> False | Some b' \<Rightarrow> nested B n b') (brush_uses b)"

lemma index_of_from_bounds:
  "sublist u w \<Longrightarrow> \<exists>k. index_of_from i u w = int (i + k) \<and> k + length u \<le> length w \<and> take (length u) (drop k w) = u"
proof (induction w arbitrary: i)
  case Nil
  then show ?case by (simp add: index_of_from.simps)
next
  case (Cons c w)
  show ?case
  proof (cases "prefix u (c # w)")
    case True
    then show ?thesis using prefix_length_le[OF True] by (intro exI[of _ 0]) (auto simp: index_of_from.simps prefix_def)
  next
    case False
    then have "sublist u w" using Cons.prems by (simp add: sublist_Cons_right)
    then obtain k where "index_of_from (Suc i) u w = int (Suc i + k)" "k + length u \<le> length w" "take (length u) (drop k w) = u"
      using Cons.IH by blast
    then show ?thesis using False by (intro exI[of _ "Suc k"]) (simp add: index_of_from.simps[of i])
  qed
qed

lemma index_of_inside:
  assumes "sublist u (m_text m)" and "m_index m + length (m_text m) \<le> length tx"
    and "m_text m = take (length (m_text m)) (drop (m_index m) tx)"
  shows "0 \<le> RegExp_indexOf m u" "RegExp_indexOf m u + int (length u) \<le> int (length tx)"
    "u = slice 0 tx (RegExp_indexOf m u) (RegExp_indexOf m u + int (length u))"
proof -
  obtain k where k: "index_of (m_text m) u = int k" "k + length u \<le> length (m_text m)" "take (length u) (drop k (m_text m)) = u"
    using index_of_from_bounds[OF assms(1), of 0] by (auto simp: index_of_def)
  have "take (length u) (drop (k + m_index m) tx) = take (length u) (drop k (take (length (m_text m)) (drop (m_index m) tx)))"
    using k(2) by (simp add: drop_take)
  also have "\<dots> = u" using k(3) assms(3) by simp
  finally show "u = slice 0 tx (RegExp_indexOf m u) (RegExp_indexOf m u + int (length u))"
    using k(1) by (simp add: slice_def RegExp_indexOf_def nat_add_distrib)
  show "0 \<le> RegExp_indexOf m u" "RegExp_indexOf m u + int (length u) \<le> int (length tx)"
    using k assms(2) by (simp_all add: RegExp_indexOf_def)
qed

text \<open>What the trees of the embedded brushes are like.\<close>

definition builds :: "(string \<Rightarrow> string \<Rightarrow> int \<Rightarrow> smatch run_of) \<Rightarrow> string list \<Rightarrow> bool" where
  "builds build names \<longleftrightarrow>
     (\<forall>name s off. name \<in> set names \<longrightarrow> no_cr s = s \<longrightarrow> 0 \<le> off \<longrightarrow> (\<exists>t c. build name s off = Some (Inr (t, c)) \<and> wf_tree off s t))"

lemma embed_ok:
  assumes "builds build names" and "name \<in> set names" and "0 \<le> off" and "no_cr tx = tx"
    and "s = slice 0 tx off (off + int (length s))" and "off + int (length s) \<le> int (length tx)"
  shows "\<exists>t c. embed build e name s off = Some (Inr (t, c)) \<and> wf_tree 0 tx t"
proof -
  have "set s \<subseteq> set tx" using assms(5) by (metis slice_def set_drop_subset set_take_subset subset_trans)
  then have "no_cr s = s" using assms(4) by (auto simp: no_cr_def filter_id_conv)
  then obtain t c where "build name s off = Some (Inr (t, c))" "wf_tree off s t" using assms(1-3) unfolding builds_def by blast
  then show ?thesis using wf_within[of off s t 0 tx] assms(3,5,6) by (simp add: embed_def)
qed

lemma extract_ok:
  assumes "subs_ok i rs m" and "builds build (sub_brushes rs)" and "no_cr tx = tx"
    and "m_index m + length (m_text m) \<le> length tx" and "m_text m = take (length (m_text m)) (drop (m_index m) tx)"
  shows "\<exists>ms c. extractMatches build e i rs m = Some (Inr (ms, c)) \<and> list_all (wf_tree 0 tx) ms \<and> (sub_brushes rs = [] \<longrightarrow> \<not> c)"
  using assms(1,2)
proof (induction rs arbitrary: i)
  case (Cons r0 rs)
  show ?case
  proof (cases r0)
    case None
    then show ?thesis using Cons by (simp add: sub_brushes_def map_filter_simps)
  next
    case (Some r)
    obtain u where u: "group m (case s_index r of Some k \<Rightarrow> k | None \<Rightarrow> i + 1) = Some u" "sublist u (m_text m)" "subs_ok (i + 1) rs m"
      using Cons.prems(1) Some by (auto split: option.splits)
    note ind = index_of_inside[OF u(2) assms(4,5)]
    have "builds build (sub_brushes rs)" using Cons.prems(2) Some by (auto simp: builds_def sub_brushes_def map_filter_simps split: option.splits)
    then obtain ms c where IH: "extractMatches build e (i + 1) rs m = Some (Inr (ms, c))" "list_all (wf_tree 0 tx) ms" "sub_brushes rs = [] \<longrightarrow> \<not> c"
      using Cons.IH u(3) by blast
    show ?thesis
    proof (cases "u = [] \<or> s_brush r = None")
      case True
      then show ?thesis using u(1) IH Some new_Match_wf[OF ind(1), of u tx] ind(2,3)
        by (cases "s_brush r") (auto simp: sub_brushes_def map_filter_simps)
    next
      case False
      then obtain name where n: "s_brush r = Some name" "u \<noteq> []" by blast
      then have "name \<in> set (sub_brushes (r0 # rs))" using Some by (simp add: sub_brushes_def map_filter_simps)
      from embed_ok[OF Cons.prems(2) this ind(1) assms(3) ind(3,2)]
      obtain t c' where "embed build (s_expr r) name u (RegExp_indexOf m u) = Some (Inr (t, c'))" "wf_tree 0 tx t"
        by blast
      then show ?thesis using u(1) IH Some n by (auto simp: sub_brushes_def map_filter_simps)
    qed
  qed
qed (simp add: ex_bool_eq)

text \<open>The matches of one step of the loop.\<close>

lemma found_ok:
  assumes "case r_subs r of None \<Rightarrow> True | Some rs \<Rightarrow> subs_ok 0 rs m" and "builds build (rule_uses r)" and "no_cr tx = tx"
    and "m_index m + length (m_text m) \<le> length tx" and "m_text m = take (length (m_text m)) (drop (m_index m) tx)"
  shows "\<exists>ms c. found build r m = Some (Inr (ms, c)) \<and> list_all (wf_tree 0 tx) ms \<and> (rule_uses r = [] \<longrightarrow> \<not> c)"
proof (cases "r_subs r")
  case (Some rs)
  then show ?thesis using extract_ok[of 0 rs m build tx "r_expr r"] assms by (simp add: found_def rule_uses_def)
next
  case None
  have m: "m_text m = slice 0 tx (int (m_index m)) (int (m_index m) + int (length (m_text m)))" using assms(5) by (simp add: slice_def)
  show ?thesis
  proof (cases "r_brush r")
    case (Some name)
    then obtain t c where "embed build (r_expr r) name (m_text m) (int (m_index m)) = Some (Inr (t, c))" "wf_tree 0 tx t"
      using embed_ok[OF assms(2) _ _ assms(3) m, of name "r_expr r"] assms(4) None by (auto simp: rule_uses_def)
    then show ?thesis using None Some by (simp add: found_def rule_uses_def)
  qed (use None assms(4) m new_Match_wf[of 0 "int (m_index m)" "m_text m" tx] in \<open>simp add: found_def rule_uses_def ex_bool_eq\<close>)
qed

context regexp_engine
begin

lemma loop_ok:
  assumes "global p" and "\<And>i m. ex p tx i = Some m \<Longrightarrow> inc \<or> m_text m \<noteq> []"
    and "\<And>i m. ex p tx i = Some m \<Longrightarrow> \<exists>ms c. act m = Some (Inr (ms, c)) \<and> list_all P ms \<and> (inc \<longrightarrow> \<not> c)"
  shows "\<exists>ms. match_loop ex act inc p tx i = Some (Inr (ms, True)) \<and> list_all P ms"
proof (induction "Suc (length tx) - i" arbitrary: i rule: less_induct)
  case less
  show ?case
  proof (cases "ex p tx i")
    case None
    then show ?thesis by (subst match_loop.simps) simp
  next
    case (Some m)
    let ?j = "if inc then m_index m + 1 else m_index m + length (m_text m)"
    have j: "i < ?j" "?j \<le> Suc (length tx)"
      using found_after[OF assms(1) Some] found_text[OF assms(1) Some] assms(2)[OF Some] by (auto simp: neq_Nil_conv)
    then have "Suc (length tx) - ?j < Suc (length tx) - i" by linarith
    from less[OF this] obtain ms' where IH: "match_loop ex act inc p tx ?j = Some (Inr (ms', True))" "list_all P ms'"
      by blast
    obtain ms c where "act m = Some (Inr (ms, c))" "list_all P ms" "inc \<longrightarrow> \<not> c" using assms(3)[OF Some] by blast
    then show ?thesis using Some IH by (subst match_loop.simps) auto
  qed
qed

lemma MatchPattern_ok:
  assumes "rule_ok ex r" and "builds build (rule_uses r)" and "no_cr tx = tx"
  shows "\<exists>ms c. MatchPattern ex build tx r = Some (Inr (ms, c)) \<and> list_all (wf_tree 0 tx) ms"
proof (cases "r_pattern r")
  case (Some p)
  note ok = assms(1)[unfolded rule_ok_def Some option.case]
  have "\<exists>ms. match_loop ex (found build r) (incremental r) p tx 0 = Some (Inr (ms, True)) \<and> list_all (wf_tree 0 tx) ms"
  proof (rule loop_ok)
    fix i m assume m: "ex p tx i = Some m"
    show "\<exists>ms c. found build r m = Some (Inr (ms, c)) \<and> list_all (wf_tree 0 tx) ms \<and> (incremental r \<longrightarrow> \<not> c)"
      using found_ok[OF _ assms(2,3), of m] found_text[OF _ m] ok m by (metis (no_types, lifting))
  qed (use ok in auto)
  then show ?thesis using Some by (auto simp: MatchPattern_def)
qed (simp add: MatchPattern_def ex_bool_eq)

end

lemma rules_matches_ok:
  assumes "\<And>x. x \<in> set rs \<Longrightarrow> \<exists>ms c. f x = Some (Inr (ms, c)) \<and> list_all P ms"
  shows "\<exists>ms c. rules_matches f rs = Some (Inr (ms, c)) \<and> list_all P ms"
  using assms
proof (induction rs)
  case (Cons r rs)
  obtain ms c where 1: "f r = Some (Inr (ms, c))" "list_all P ms" using Cons.prems[of r] by auto
  obtain ms' c' where 2: "rules_matches f rs = Some (Inr (ms', c'))" "list_all P ms'" using Cons by auto
  show ?case using 1 2 by simp
qed (simp add: ex_bool_eq)

lemma collect_ok: "(\<And>x. x \<in> set xs \<Longrightarrow> \<exists>ys. f x = Some (Inr ys)) \<Longrightarrow> \<exists>ys. collect f xs = Some (Inr ys)"
proof (induction xs)
  case (Cons x xs)
  obtain y ys where "f x = Some (Inr y)" "collect f xs = Some (Inr ys)" using Cons by fastforce
  then show ?case by simp
qed simp

lemma allKlasses_ok: "nested B n b \<Longrightarrow> \<exists>ks. allKlasses B n b = Some (Inr ks)"
proof (induction n arbitrary: b)
  case (Suc n)
  have "\<exists>ys. (case B name of None \<Rightarrow> Some (Inl TypeError) | Some p \<Rightarrow> allKlasses B n p) = Some (Inr ys)" if "name \<in> set (b_parents b)" for name
    using Suc that by (auto simp: brush_uses_def list_all_iff split: option.splits)
  then have "\<exists>ys. collect (\<lambda>name. case B name of None \<Rightarrow> Some (Inl TypeError) | Some p \<Rightarrow> allKlasses B n p) (b_parents b) = Some (Inr ys)"
    by (rule collect_ok)
  then show ?case by auto
qed simp

context regexp_engine
begin

text \<open>Extraction ends, and every match is a well-formed tree over the text.\<close>

lemma getMatches_ok:
  assumes "brushes_ok ex B"
  shows "nested B n b \<Longrightarrow> brush_ok ex b \<Longrightarrow> no_cr tx = tx \<Longrightarrow>
    \<exists>ms c. getMatches ex B n b tx = Some (Inr (ms, c)) \<and> list_all (wf_tree 0 tx) ms"
proof (induction n arbitrary: b tx)
  case (Suc n)
  let ?build = "\<lambda>name s off. case B name of None \<Rightarrow> Some (Inl TypeError)
      | Some b' \<Rightarrow> build_with B (getMatches ex B n b') (allKlasses B n b') b' s off []"
  have use: "\<exists>b'. B name = Some b' \<and> nested B n b' \<and> brush_ok ex b'" if "name \<in> set (brush_uses b)" for name
    using Suc.prems(1) that assms by (auto simp: list_all_iff brushes_ok_def split: option.splits)
  have "\<exists>t c. ?build name s off = Some (Inr (t, c)) \<and> wf_tree off s t" if u: "name \<in> set (brush_uses b)" "no_cr s = s" "0 \<le> off" for name s off
  proof -
    obtain b' where b': "B name = Some b'" "nested B n b'" "brush_ok ex b'" using use[OF u(1)] by blast
    obtain ms c where "getMatches ex B n b' s = Some (Inr (ms, c))" "list_all (wf_tree 0 s) ms" using Suc.IH[OF b'(2,3) u(2)] by blast
    moreover obtain ks where "allKlasses B n b' = Some (Inr ks)" using allKlasses_ok[OF b'(2)] by blast
    ultimately obtain t where "build_with B (getMatches ex B n b') (allKlasses B n b') b' s off [] = Some (Inr (t, c))" "wf_tree off s t"
      using build_with_ok[of "getMatches ex B n b'" s ms c "allKlasses B n b'" ks off B b'] u(2,3) by auto
    then show ?thesis using b'(1) by simp
  qed
  then have bl: "builds ?build (brush_uses b)" unfolding builds_def by blast
  show ?case unfolding getMatches.simps
  proof (rule rules_matches_ok)
    fix x assume x: "x \<in> set (b_rules b)"
    show "\<exists>ms c. (case x of Rule r \<Rightarrow> MatchPattern ex ?build tx r
        | Derives name \<Rightarrow> (case B name of None \<Rightarrow> Some (Inl TypeError) | Some b' \<Rightarrow> getMatches ex B n b' tx)) = Some (Inr (ms, c)) \<and>
        list_all (wf_tree 0 tx) ms"
    proof (cases x)
      case (Rule r)
      then have "set (rule_uses r) \<subseteq> set (brush_uses b)" using x by (fastforce simp: brush_uses_def)
      then have "builds ?build (rule_uses r)" using bl unfolding builds_def by blast
      moreover have "rule_ok ex r" using Suc.prems(2) x Rule by (simp add: brush_ok_def)
      ultimately show ?thesis using MatchPattern_ok[of r ?build tx] Suc.prems(3) Rule by simp
    next
      case (Derives name)
      then have "name \<in> set (brush_uses b)" using x by (force simp: brush_uses_def)
      then show ?thesis using use Suc.IH Suc.prems(3) Derives by fastforce
    qed
  qed
qed simp

end

subsection \<open>The matcher as the engine\<close>

text \<open>
  The backtracking matcher of the prelude is such an engine, given the expression each source text stands
  for. The groups after the last one of the expression are \<open>undefined\<close>.
\<close>

fun group_count :: "re \<Rightarrow> nat" where
  "group_count (RGroup n r) = max n (group_count r)"
| "group_count (RSeq r q) = max (group_count r) (group_count q)"
| "group_count (RAlt r q) = max (group_count r) (group_count q)"
| "group_count (RStar r) = group_count r"
| "group_count (ROpt r) = group_count r"
| "group_count (RNot r) = group_count r"
| "group_count _ = 0"

definition re_engine :: "(string \<Rightarrow> re) \<Rightarrow> engine" where
  "re_engine rs p tx i0 =
     (let i = (if global p then i0 else 0); r = rs (source p)
      in if length tx < i then None
         else case exec_from tx r (drop i tx) of
                None \<Rightarrow> None
              | Some (here, s', m) \<Rightarrow>
                  Some \<lparr>m_index = length tx - length here, m_text = take (length here - length s') here,
                        m_groups = map (\<lambda>n. cap m (Suc n)) [0..<group_count r]\<rparr>)"

text \<open>An expression that matches no empty text, and the groups that take part in every match of it.\<close>

fun consumes :: "re \<Rightarrow> bool" where
  "consumes (RClass neg cs) = True"
| "consumes (RSeq r q) = (consumes r \<or> consumes q)"
| "consumes (RAlt r q) = (consumes r \<and> consumes q)"
| "consumes (RGroup n r) = consumes r"
| "consumes _ = False"

fun always :: "re \<Rightarrow> nat set" where
  "always (RGroup n r) = insert n (always r)"
| "always (RSeq r q) = always r \<union> always q"
| "always (RAlt r q) = always r \<inter> always q"
| "always _ = {}"

definition read :: "re \<Rightarrow> string \<Rightarrow> caps \<Rightarrow> string \<Rightarrow> caps \<Rightarrow> bool" where
  "read r s m s' m' \<longleftrightarrow>
     suffix s' s \<and> (consumes r \<longrightarrow> length s' < length s) \<and>
     (\<exists>d. m' = d @ m \<and> always r \<subseteq> fst ` set d \<and> (\<forall>(n, u) \<in> set d. sublist u (take (length s - length s') s)))"

lemma taken_within:
  assumes "suffix s2 s1" and "suffix s1 s"
  shows "sublist (take (length s - length s1) s) (take (length s - length s2) s)"
    "sublist (take (length s1 - length s2) s1) (take (length s - length s2) s)"
proof -
  obtain a b where "s = a @ s1" "s1 = b @ s2" using assms by (auto simp: suffix_def)
  then show "sublist (take (length s - length s1) s) (take (length s - length s2) s)"
    "sublist (take (length s1 - length s2) s1) (take (length s - length s2) s)" by auto
qed

lemma read_seq: "read r s m s1 m1 \<Longrightarrow> read q s1 m1 s2 m2 \<Longrightarrow> read (RSeq r q) s m s2 m2"
proof -
  assume a: "read r s m s1 m1" "read q s1 m1 s2 m2"
  obtain d d' where d: "m1 = d @ m" "always r \<subseteq> fst ` set d" "\<forall>(n, u) \<in> set d. sublist u (take (length s - length s1) s)"
    "m2 = d' @ m1" "always q \<subseteq> fst ` set d'" "\<forall>(n, u) \<in> set d'. sublist u (take (length s1 - length s2) s1)"
    using a unfolding read_def by blast
  have suf: "suffix s2 s1" "suffix s1 s" using a by (auto simp: read_def)
  have "\<forall>(n, u) \<in> set (d' @ d). sublist u (take (length s - length s2) s)"
    using d(3,6) taken_within[OF suf] by (auto intro: sublist_order.order.trans)
  moreover have "suffix s2 s" "consumes (RSeq r q) \<longrightarrow> length s2 < length s"
    using a suf suffix_length_le[OF suf(1)] suffix_length_le[OF suf(2)] by (auto simp: read_def intro: suffix_order.trans)
  moreover have "always (RSeq r q) \<subseteq> fst ` set (d' @ d)" using d by auto
  ultimately show ?thesis unfolding read_def using d(1,4) by (metis append.assoc)
qed

lemma read_weaken: "read r s m s' m' \<Longrightarrow> (consumes q \<Longrightarrow> consumes r) \<Longrightarrow> always q \<subseteq> always r \<Longrightarrow> read q s m s' m'"
  unfolding read_def by blast

lemma read_nothing: "read r s m s m" if "\<not> consumes r" "always r = {}"
  using that by (simp add: read_def)

lemma read_char: "read (RClass neg cs) (c # s) m s m"
  by (simp add: read_def suffix_ConsI)

lemma read_group:
  assumes "read r s m s' m'" shows "read (RGroup n r) s m s' ((n, take (length s - length s') s) # m')"
proof -
  obtain d where "m' = d @ m" "always r \<subseteq> fst ` set d" "\<forall>(n, u) \<in> set d. sublist u (take (length s - length s') s)"
    using assms unfolding read_def by blast
  then show ?thesis using assms unfolding read_def by (intro conjI exI[of _ "(n, take (length s - length s') s) # d"]) auto
qed

lemma mt_read: "mt start r s m k = Some v \<Longrightarrow> \<exists>s' m'. read r s m s' m' \<and> k s' m' = Some v"
proof (induction start r s m k arbitrary: v rule: mt.induct)
  case (1 start neg cs s m k)
  then obtain c s' where "s = c # s'" "k s' m = Some v" by (auto split: list.splits if_splits)
  then show ?case using read_char by blast
next
  case (3 start r q s m k)
  obtain s1 m1 where 1: "read r s m s1 m1" "mt start q s1 m1 k = Some v" using 3(2)[of v] 3(3) by auto
  then show ?case using 3(1)[of s1 m1 v] read_seq by blast
next
  case (4 start r q s m k)
  show ?case
  proof (cases "mt start r s m k")
    case None
    then obtain s' m' where "read q s m s' m'" "k s' m' = Some v" using 4(2)[OF None, of v] 4(3) by auto
    then show ?thesis using read_weaken[of q s m s' m' "RAlt r q"] by auto
  next
    case (Some w)
    then obtain s' m' where "read r s m s' m'" "k s' m' = Some v" using 4(1)[OF Some] 4(3) by auto
    then show ?thesis using read_weaken[of r s m s' m' "RAlt r q"] by auto
  qed
next
  case (5 start r s m k)
  show ?case
  proof (cases "mt start r s m (\<lambda>s' m'. if length s' < length s then mt start (RStar r) s' m' k else None)")
    case None
    then show ?thesis using 5(3) read_nothing[of "RStar r" s m] by (auto simp: mt.simps(5))
  next
    case (Some w)
    obtain s1 m1 where s1: "read r s m s1 m1" "length s1 < length s" "mt start (RStar r) s1 m1 k = Some w"
      using 5(2)[OF Some] by (auto split: if_splits)
    obtain s2 m2 where "read (RStar r) s1 m1 s2 m2" "k s2 m2 = Some w" using 5(1)[OF s1(2,3)] by blast
    then show ?thesis
      using read_weaken[OF read_seq[OF s1(1)], of "RStar r" s2 m2 "RStar r"] Some 5(3) by (auto simp: mt.simps(5))
  qed
next
  case (6 start r s m k)
  show ?case
  proof (cases "mt start r s m (\<lambda>s' m'. if length s' < length s then k s' m' else None)")
    case None
    then show ?thesis using 6(2) read_nothing[of "ROpt r" s m] by auto
  next
    case (Some w)
    then obtain s' m' where "read r s m s' m'" "k s' m' = Some v" using 6(1)[OF Some] 6(2) by (auto split: if_splits)
    then show ?thesis using read_weaken[of r s m s' m' "ROpt r"] by auto
  qed
next
  case (7 start n r s m k)
  then show ?case using 7(1)[of v] read_group by fastforce
next
  case (8 start r s m k)
  then have "k s m = Some v" by (auto split: option.splits)
  then show ?case using read_nothing[of "RNot r" s m] by auto
qed (auto split: if_splits intro!: exI read_nothing)

lemma exec_from_read:
  "exec_from start r s = Some (here, s', m) \<Longrightarrow>
    suffix here s \<and> suffix s' here \<and> (consumes r \<longrightarrow> length s' < length here) \<and>
    (\<exists>d. m = (0, take (length here - length s') here) # d \<and> always r \<subseteq> fst ` set d \<and>
         (\<forall>(n, u) \<in> set d. sublist u (take (length here - length s') here)))"
proof (induction start r s rule: exec_from.induct)
  case (1 start r s)
  show ?case
  proof (cases "match_here start r s")
    case None
    then obtain c cs where "s = c # cs" "exec_from start r cs = Some (here, s', m)" using 1(2) by (auto split: list.splits)
    then show ?thesis using 1(1)[OF None] by (auto intro: suffix_ConsI)
  next
    case (Some v)
    obtain s1 m1 where v: "v = (s1, m1)" by (cases v)
    then have "read r s [] s1 m1" using Some mt_read[of start r s "[]" "\<lambda>s' m'. Some (s', m')" v] by (auto simp: match_here_def)
    then show ?thesis using 1(2) Some v by (auto simp: read_def)
  qed
qed

lemma re_engine_Some:
  assumes "re_engine rs p tx i = Some m" and "global p"
  obtains a b here s' d where "tx = a @ here" "i \<le> length a" "here = b @ s'" "m_index m = length a" "m_text m = b"
    "consumes (rs (source p)) \<longrightarrow> b \<noteq> []" "always (rs (source p)) \<subseteq> fst ` set d" "\<forall>(n, u) \<in> set d. sublist u b"
    "m_groups m = map (\<lambda>n. map_of ((0, b) # d) (Suc n)) [0..<group_count (rs (source p))]"
proof -
  obtain here s' c where e: "exec_from tx (rs (source p)) (drop i tx) = Some (here, s', c)" "i \<le> length tx"
    "m = \<lparr>m_index = length tx - length here, m_text = take (length here - length s') here,
          m_groups = map (\<lambda>n. cap c (Suc n)) [0..<group_count (rs (source p))]\<rparr>"
    using assms by (auto simp: re_engine_def Let_def split: if_splits option.splits)
  from exec_from_read[OF e(1)] obtain d a0 b where r: "drop i tx = a0 @ here" "here = b @ s'"
    "consumes (rs (source p)) \<longrightarrow> b \<noteq> []" "c = (0, b) # d" "always (rs (source p)) \<subseteq> fst ` set d" "\<forall>(n, u) \<in> set d. sublist u b"
    by (auto simp: suffix_def)
  have "tx = (take i tx @ a0) @ here" using r(1) by (metis append.assoc append_take_drop_id)
  moreover have "length tx - length here = i + length a0" using arg_cong[OF r(1), of length] e(2) by simp
  ultimately show ?thesis using e r(2-) by (intro that[of "take i tx @ a0" here b s' d]) (auto simp: cap_def simp del: exec_from.simps)
qed

interpretation matcher: regexp_engine "re_engine rs" for rs
proof
  fix p tx i m assume a: "global p" "re_engine rs p tx i = Some m"
  from re_engine_Some[OF a(2,1)] obtain a b s' where "tx = a @ b @ s'" "i \<le> length a" "m_index m = length a" "m_text m = b" by metis
  then show "i \<le> m_index m" "m_index m + length (m_text m) \<le> length tx \<and> m_text m = take (length (m_text m)) (drop (m_index m) tx)"
    by auto
qed

text \<open>A check of rules that suffices for this engine.\<close>

definition takes_part :: "re \<Rightarrow> nat \<Rightarrow> bool" where
  "takes_part r n \<longleftrightarrow> n = 0 \<or> n \<le> group_count r \<and> n \<in> always r"

fun re_subs_ok :: "re \<Rightarrow> nat \<Rightarrow> sub_rule option list \<Rightarrow> bool" where
  "re_subs_ok r i [] = True"
| "re_subs_ok r i (None # rs) = re_subs_ok r (i + 1) rs"
| "re_subs_ok r i (Some s # rs) = (takes_part r (case s_index s of Some k \<Rightarrow> k | None \<Rightarrow> i + 1) \<and> re_subs_ok r (i + 1) rs)"

definition re_rule_ok :: "(string \<Rightarrow> re) \<Rightarrow> rule \<Rightarrow> bool" where
  "re_rule_ok rs r \<longleftrightarrow>
     (case r_pattern r of
        None \<Rightarrow> True
      | Some p \<Rightarrow>
          global p \<and> (incremental r \<longrightarrow> rule_uses r = []) \<and> (incremental r \<or> consumes (rs (source p))) \<and>
          (case r_subs r of None \<Rightarrow> True | Some ss \<Rightarrow> re_subs_ok (rs (source p)) 0 ss))"

lemma re_group:
  assumes "re_engine rs p tx i = Some m" and "global p" and "takes_part (rs (source p)) n"
  shows "case group m n of None \<Rightarrow> False | Some u \<Rightarrow> sublist u (m_text m)"
proof -
  from re_engine_Some[OF assms(1,2)] obtain b d where r: "m_text m = b" "always (rs (source p)) \<subseteq> fst ` set d" "\<forall>(n, u) \<in> set d. sublist u b"
    "m_groups m = map (\<lambda>n. map_of ((0, b) # d) (Suc n)) [0..<group_count (rs (source p))]" by metis
  show ?thesis
  proof (cases n)
    case (Suc k)
    then have "n \<in> fst ` set d" using assms(3) r(2) by (auto simp: takes_part_def)
    then obtain u where "map_of d n = Some u" by (metis map_of_eq_None_iff not_None_eq)
    moreover from this have "sublist u b" using r(3) by (auto dest: map_of_SomeD)
    ultimately show ?thesis using Suc assms(3) r(1,4) by (auto simp: group_def takes_part_def)
  qed (simp add: group_def)
qed

lemma re_subs:
  assumes "re_engine rs p tx i = Some m" and "global p"
  shows "re_subs_ok (rs (source p)) j ss \<Longrightarrow> subs_ok j ss m"
  using re_group[OF assms] by (induction "rs (source p)" j ss rule: re_subs_ok.induct) auto

lemma re_rule: "rule_ok (re_engine rs) r" if ok: "re_rule_ok rs r"
proof (cases "r_pattern r")
  case (Some p)
  note ok = ok[unfolded re_rule_ok_def Some option.case]
  have "(incremental r \<or> m_text m \<noteq> []) \<and> (case r_subs r of None \<Rightarrow> True | Some rs \<Rightarrow> subs_ok 0 rs m)"
    if m: "re_engine rs p tx i = Some m" for tx i m
  proof
    from re_engine_Some[OF m] ok show "incremental r \<or> m_text m \<noteq> []" by metis
    show "case r_subs r of None \<Rightarrow> True | Some rs \<Rightarrow> subs_ok 0 rs m"
      using ok re_subs[OF m] by (auto split: option.splits)
  qed
  then show ?thesis using ok Some by (auto simp: rule_ok_def)
qed (simp add: rule_ok_def)

subsection \<open>Highlighting keeps the text\<close>

lemma split_ok:
  assumes "wf_tree 0 tx t" and "offset t = 0" and "endOffset t = int (length tx)"
  shows "\<exists>ps. split_match (newline_ends 0) t = Inr ps \<and> list_all (wf_tree 0 tx) ps \<and> concat (map val ps) = tx \<and>
    list_all (\<lambda>p. one_line (val p)) ps"
proof (cases "tx = []")
  case True
  then have "val t = []" "endOffset t = 0" using wf_treeD(5)[OF assms(1)] assms by (auto simp: slice_def)
  then show ?thesis using True assms(2)
    by (simp add: split_match_def bisectAtOffsets.simps numeric_sort_def Let_def present_def)
next
  case False
  have v: "val t = slice 0 tx 0 (int (length tx))" "0 < endOffset t" using wf_treeD(5)[OF assms(1)] assms(2,3) False by auto
  from bisect_ok[OF assms(1) newlines_splittable[OF assms(2) v(2)]] obtain ps k where ps:
    "bisectAtOffsets (newline_ends 0 (val t)) t = Inr (map Some ps @ replicate k None)" "tiles 0 ps (int (length tx))"
    "map endOffset ps = filter (\<lambda>s. s < int (length tx)) (newline_ends 0 (val t)) @ [int (length tx)]" "list_all (wf_tree 0 tx) ps"
    unfolding bisects_def using assms(2,3) by auto
  have "one_line (val p)" if "p \<in> set ps" for p using parts_one_line[OF ps(2,4) that] ps(3) v(1) by simp
  moreover have "concat (map val ps) = tx" using tiles_text[OF ps(2,4)] by (simp add: slice_def)
  ultimately show ?thesis using ps(1,4) by (simp add: split_match_def present_parts list_all_iff)
qed

context regexp_engine
begin

lemma buildTree_ok:
  assumes "brushes_ok ex B" and "nested B n b" and "brush_ok ex b" and "0 \<le> off"
  shows "\<exists>t c. buildTree ex B n b tx0 off [] = Some (Inr (t, c)) \<and> wf_tree off (no_cr tx0) t \<and>
    offset t = off \<and> endOffset t = off + int (length (no_cr tx0))"
proof -
  obtain ms c where "getMatches ex B n b (no_cr tx0) = Some (Inr (ms, c))" "list_all (wf_tree 0 (no_cr tx0)) ms"
    using getMatches_ok[OF assms(1-3), where tx = "no_cr tx0"] by (auto simp: no_cr_def)
  moreover obtain ks where "allKlasses B n b = Some (Inr ks)" using allKlasses_ok[OF assms(2)] by blast
  ultimately show ?thesis unfolding buildTree_def using build_with_ok[of "getMatches ex B n b" tx0 ms c] assms(4) by blast
qed

lemma process_ok:
  assumes "brushes_ok ex B" and "nested B n b" and "brush_ok ex b"
    and "\<And>m h. text_of (procs m h) = text_of h"
  shows "\<exists>ls. process ex B n procs b tx0 [] = Some (Inr ls) \<and> concat (map text_of ls) = no_cr tx0 \<and>
    list_all (\<lambda>l. one_line (text_of l)) ls"
proof -
  obtain t c where t: "buildTree ex B n b tx0 0 [] = Some (Inr (t, c))" "wf_tree 0 (no_cr tx0) t" "offset t = 0" "endOffset t = int (length (no_cr tx0))"
    using buildTree_ok[OF assms(1-3), where off = 0 and ?tx0.0 = tx0] by auto
  obtain ps where ps: "split_match (newline_ends 0) t = Inr ps" "list_all (wf_tree 0 (no_cr tx0)) ps" "concat (map val ps) = no_cr tx0"
    "list_all (\<lambda>p. one_line (val p)) ps" using split_ok[OF t(2,3,4)] by blast
  have "text_of (reduce procs p) = val p" if "p \<in> set ps" for p using reduce_text[of 0 "no_cr tx0" p procs] ps(2) that assms(4) by (auto simp: list_all_iff)
  then show ?thesis using t(1) ps by (simp add: process_def list_all_iff comp_def cong: map_cong)
qed

end

text \<open>
  C34: highlighting loses no text. With brushes whose rules have patterns that match no empty text, the
  processing of a text ends and gives lines of HTML; their texts, put together, are the text without
  carriage returns, and no line has a line feed before its last character.
\<close>

theorem process_keeps_text:
  assumes "regexp_engine ex" and "brushes_ok ex B" and "nested B n b" and "brush_ok ex b"
    and "\<And>m h. text_of (procs m h) = text_of h"
  shows "\<exists>ls. process ex B n procs b tx0 [] = Some (Inr ls) \<and> concat (map text_of ls) = no_cr tx0 \<and>
    list_all (\<lambda>l. one_line (text_of l)) ls"
  by (rule regexp_engine.process_ok[OF assms])

text \<open>Two brushes, one of which derives from the other and reads a group.\<close>

definition plain_expr :: "string \<Rightarrow> expr" where
  "plain_expr k = \<lparr>klass = k, force = False, only = None, allowed = NoAllow, disallow = None, owner = None\<rparr>"

definition simple_rule :: "string \<Rightarrow> sub_rule option list option \<Rightarrow> pushed" where
  "simple_rule k subs =
     \<lparr>p_rule = \<lparr>r_expr = plain_expr k, r_pattern = None, r_subs = subs, r_brush = None, incremental = False\<rparr>,
      p_pattern = None, p_options = None\<rparr>"

definition sample_base :: brush where
  "sample_base = push_rule ((simple_rule ''constant'' None)\<lparr>p_pattern := Some (PRe (RegExp ''[0-9]+'' ''g''))\<rparr>) (new_Brush ''base'')"

definition sample_brush :: brush where
  "sample_brush =
     push_rule ((simple_rule [] (Some [Some \<lparr>s_index = None, s_brush = None, s_expr = plain_expr ''type''\<rparr>]))
                  \<lparr>p_pattern := Some (PRe (RegExp ''=([a-z]+)'' ''g''))\<rparr>) (derives ''base'' (new_Brush ''sample''))"

definition sample_brushes :: brushes where
  "sample_brushes = [''base'' \<mapsto> sample_base, ''sample'' \<mapsto> sample_brush]"

definition sample_re :: "string \<Rightarrow> re" where
  "sample_re s = (if s = ''[0-9]+'' then RPlus RDigit else RSeq (RChr (CHR ''='')) (RGroup 1 (RPlus (RClass False letters))))"

lemma sample_ok: "brush_ok (re_engine sample_re) sample_base" "brush_ok (re_engine sample_re) sample_brush"
  by (auto simp: brush_ok_def sample_base_def sample_brush_def push_rule_def new_Brush_def derives_def simple_rule_def global_def
      re_rule_ok_def sample_re_def RPlus_def RDigit_def RChr_def takes_part_def rule_uses_def intro!: re_rule)

lemma sample_brushes_ok: "brushes_ok (re_engine sample_re) sample_brushes"
  using sample_ok by (auto simp: brushes_ok_def sample_brushes_def split: if_splits)

theorem process_keeps_text_witness:
  "\<exists>ls. process (re_engine sample_re) sample_brushes 2 (\<lambda>m h. h) sample_brush [CHR ''a'', CHR ''='', CHR ''b'', CHR 0x0D, CHR 0x0A, CHR ''1''] [] = Some (Inr ls) \<and>
     concat (map text_of ls) = [CHR ''a'', CHR ''='', CHR ''b'', CHR 0x0A, CHR ''1''] \<and> list_all (\<lambda>l. one_line (text_of l)) ls"
proof -
  have "nested sample_brushes 2 sample_brush" by code_simp
  then show ?thesis
    using process_keeps_text[OF matcher.regexp_engine_axioms[of sample_re], of sample_brushes 2 sample_brush "\<lambda>m h. h"
        "[CHR ''a'', CHR ''='', CHR ''b'', CHR 0x0D, CHR 0x0A, CHR ''1'']"] sample_ok(2) sample_brushes_ok
    by (simp add: no_cr_def)
qed

end
