(* ===== verification/Syntax_Tabs.thy ===== *)
theory Syntax_Tabs
  imports Syntax_Brush
begin

text \<open>
  Tabs in \<open>jquery.syntax.core.js\<close>: \<open>convertTabsToSpaces\<close>, the table of offsets it leads to, and the matches
  of the page moved by that table.
\<close>

subsection \<open>convertTabsToSpaces\<close>

abbreviation (input) TAB :: char where "TAB \<equiv> CHR 0x09"

text \<open>The remainder of the language, with the sign of the dividend.\<close>

definition js_rem :: "int \<Rightarrow> int \<Rightarrow> int" where
  "js_rem a n = sgn a * (\<bar>a\<bar> mod \<bar>n\<bar>)"

text \<open>\<open>space[width]\<close>: the table has the runs of up to \<open>tabSize\<close> spaces; an entry it lacks is written as \<open>undefined\<close>.\<close>

definition spaces :: "int \<Rightarrow> int \<Rightarrow> string" where
  "spaces tabSize width = (if 0 \<le> width \<and> width \<le> tabSize then replicate (nat width) (CHR '' '') else ''undefined'')"

type_synonym offset_entry = "int \<times> int \<times> int"

text \<open>The calls of the replacement function, at position \<open>i\<close> with \<open>tabOffset\<close> and \<open>totalOffset\<close>.\<close>

fun tab_loop :: "int \<Rightarrow> int \<Rightarrow> int \<Rightarrow> int \<Rightarrow> string \<Rightarrow> string \<times> offset_entry list" where
  "tab_loop tabSize i tabOffset totalOffset [] = ([], [])"
| "tab_loop tabSize i tabOffset totalOffset (c # s) =
     (if c = CHR 0x0D \<or> c = CHR 0x0A
      then let (s', os) = tab_loop tabSize (i + 1) (- (i + 1)) totalOffset s in (c # s', os)
      else if c = TAB
      then let width = tabSize - js_rem (tabOffset + i) tabSize;
               tot = totalOffset + (width - 1);
               (s', os) = tab_loop tabSize (i + 1) (tabOffset + (width - 1)) tot s
           in (spaces tabSize width @ s', (i, width, tot) # os)
      else let (s', os) = tab_loop tabSize (i + 1) tabOffset totalOffset s in (c # s', os))"

definition convertTabsToSpaces :: "string \<Rightarrow> int \<Rightarrow> string \<times> offset_entry list" where
  "convertTabsToSpaces tx tabSize0 = tab_loop (if tabSize0 = 0 then 4 else tabSize0) 0 0 0 tx"

subsection \<open>convertToLinearOffsets\<close>

definition last_or_zero :: "int list \<Rightarrow> int" where
  "last_or_zero changes = (if changes = [] then 0 else last changes)"

function linear_loop :: "offset_entry list \<Rightarrow> nat \<Rightarrow> nat \<Rightarrow> nat \<Rightarrow> int list \<Rightarrow> int list" where
  "linear_loop offsets n i current changes =
     (if i < n
      then if current < length offsets \<and> fst (offsets ! current) < int i
           then if current + 1 < length offsets
                then if int i \<le> fst (offsets ! (current + 1))
                     then linear_loop offsets n (i + 1) current (changes @ [snd (snd (offsets ! current))])
                     else linear_loop offsets n i (current + 1) changes
                else linear_loop offsets n (i + 1) current (changes @ [snd (snd (offsets ! current))])
           else linear_loop offsets n (i + 1) current (changes @ [last_or_zero changes])
      else changes)"
  by pat_completeness auto
termination
  by (relation "measure (\<lambda>(offsets, n, i, current, changes). (n - i) + (length offsets - current))") auto

declare linear_loop.simps [simp del]

definition convertToLinearOffsets :: "offset_entry list \<Rightarrow> nat \<Rightarrow> int list" where
  "convertToLinearOffsets offsets n = linear_loop offsets n 0 0 []"

subsection \<open>updateMatchesWithOffsets\<close>

definition entry_at :: "int list \<Rightarrow> int \<Rightarrow> int option" where
  "entry_at xs i = (if 0 \<le> i \<and> i < int (length xs) then Some (xs ! nat i) else None)"

text \<open>
  \<open>undefined\<close>, read outside the table, makes a sum \<open>NaN\<close>. If the new length is \<open>NaN\<close> the length stays as it
  is; a match whose offset would be \<open>NaN\<close> is \<open>None\<close>: no tree contains it, so that \<open>insert\<close> drops it.
\<close>

fun update_match :: "int list \<Rightarrow> string \<Rightarrow> smatch \<Rightarrow> smatch option" where
  "update_match lin tx (Match a b n e v cs c) =
     (case entry_at lin a of
        None \<Rightarrow> None
      | Some d \<Rightarrow>
          let m = adjust d (map_option (\<lambda>d'. (a + n + d') - (a + d)) (entry_at lin (a + n))) tx (Match a b n e v cs c)
          in Some (with_children (present (map (update_match lin tx) cs)) m))"

definition updateMatchesWithOffsets :: "smatch list \<Rightarrow> int list \<Rightarrow> string \<Rightarrow> smatch list" where
  "updateMatchesWithOffsets ms lin tx = present (map (update_match lin tx) ms)"

subsection \<open>Expansion by columns\<close>

text \<open>What expanding tabs means: a tab leads to the next column that is a multiple of the width.\<close>

definition to_stop :: "int \<Rightarrow> int \<Rightarrow> int" where
  "to_stop w col = w - col mod w"

fun column :: "int \<Rightarrow> int \<Rightarrow> string \<Rightarrow> int" where
  "column w col [] = col"
| "column w col (c # s) =
     (if c = CHR 0x0D \<or> c = CHR 0x0A then column w 0 s
      else if c = TAB then column w (col + to_stop w col) s
      else column w (col + 1) s)"

fun expand :: "int \<Rightarrow> int \<Rightarrow> string \<Rightarrow> string" where
  "expand w col [] = []"
| "expand w col (c # s) =
     (if c = CHR 0x0D \<or> c = CHR 0x0A then c # expand w 0 s
      else if c = TAB then replicate (nat (to_stop w col)) (CHR '' '') @ expand w (col + to_stop w col) s
      else c # expand w (col + 1) s)"

lemma to_stop_rem: "0 \<le> col \<Longrightarrow> 0 < w \<Longrightarrow> js_rem col w = w - to_stop w col"
  by (auto simp: js_rem_def sgn_if to_stop_def)

lemma to_stop_bounds: "0 < w \<Longrightarrow> 1 \<le> to_stop w col \<and> to_stop w col \<le> w"
  using pos_mod_bound[of w col] pos_mod_sign[of w col] unfolding to_stop_def by linarith

text \<open>The entries: where the tabs are, their widths, and the sums of what they add.\<close>

fun tabs_from :: "int \<Rightarrow> int \<Rightarrow> int \<Rightarrow> int \<Rightarrow> string \<Rightarrow> offset_entry list" where
  "tabs_from w i col tot [] = []"
| "tabs_from w i col tot (c # s) =
     (if c = CHR 0x0D \<or> c = CHR 0x0A then tabs_from w (i + 1) 0 tot s
      else if c = TAB
      then (i, to_stop w col, tot + (to_stop w col - 1)) # tabs_from w (i + 1) (col + to_stop w col) (tot + (to_stop w col - 1)) s
      else tabs_from w (i + 1) (col + 1) tot s)"

text \<open>The column of a position is \<open>tabOffset\<close> plus the position.\<close>

lemma tab_loop_eq:
  "0 < w \<Longrightarrow> 0 \<le> t + i \<Longrightarrow> tab_loop w i t tot s = (expand w (t + i) s, tabs_from w i (t + i) tot s)"
proof (induction s arbitrary: i t tot)
  case (Cons c s)
  let ?d = "to_stop w (t + i)"
  have d: "w - js_rem (t + i) w = ?d" "1 \<le> ?d" "?d \<le> w" using to_stop_rem[of "t + i" w] to_stop_bounds[of w "t + i"] Cons.prems by auto
  have c: "t + (?d - 1) + (i + 1) = t + i + ?d" "0 \<le> t + i + ?d" using Cons.prems d by auto
  have "tab_loop w (i + 1) (t + (?d - 1)) (tot + (?d - 1)) s =
      (expand w (t + i + ?d) s, tabs_from w (i + 1) (t + i + ?d) (tot + (?d - 1)) s)"
    using Cons.IH[of "t + (?d - 1)" "i + 1"] Cons.prems(1) c(2) unfolding c(1) by blast
  then have tab: "tab_loop w i t tot (TAB # s) = (expand w (t + i) (TAB # s), tabs_from w i (t + i) tot (TAB # s))"
    using d by (simp add: Let_def spaces_def)
  have "tab_loop w (i + 1) (- (i + 1)) tot s = (expand w 0 s, tabs_from w (i + 1) 0 tot s)"
    "tab_loop w (i + 1) t tot s = (expand w (t + i + 1) s, tabs_from w (i + 1) (t + i + 1) tot s)"
    using Cons.IH[of "- (i + 1)" "i + 1"] Cons.IH[of t "i + 1"] Cons.prems by (simp_all add: algebra_simps)
  then show ?case using tab by auto
qed simp

lemma expand_append: "expand w col (s @ u) = expand w col s @ expand w (column w col s) u"
  by (induction w col s rule: expand.induct) auto

lemma column_nonneg: "0 < w \<Longrightarrow> 0 \<le> col \<Longrightarrow> 0 \<le> column w col s"
proof (induction w col s rule: column.induct)
  case (2 w col c s)
  then show ?case using to_stop_bounds[of w col] by auto
qed simp

lemma tabs_from_append:
  "tabs_from w i col tot (s @ u) =
     tabs_from w i col tot s @
     tabs_from w (i + int (length s)) (column w col s) (tot + int (length (expand w col s)) - int (length s)) u"
  if "0 < w" "0 \<le> col"
  using that
proof (induction w i col tot s rule: tabs_from.induct)
  case (2 w i col tot c s)
  then show ?case using to_stop_bounds[of w col] by (auto simp: algebra_simps)
qed simp

lemma tabs_from_range: "x \<in> set (tabs_from w i col tot s) \<Longrightarrow> i \<le> fst x \<and> fst x < i + int (length s)"
  by (induction w i col tot s rule: tabs_from.induct) (fastforce split: if_splits)+

lemma tabs_from_increasing: "sorted_wrt (<) (map fst (tabs_from w i col tot s))"
  by (induction w i col tot s rule: tabs_from.induct) (auto dest: tabs_from_range)

lemma tabs_from_widths: "0 < w \<Longrightarrow> 0 \<le> col \<Longrightarrow> x \<in> set (tabs_from w i col tot s) \<Longrightarrow> 1 \<le> fst (snd x) \<and> fst (snd x) \<le> w"
proof (induction w i col tot s rule: tabs_from.induct)
  case (2 w i col tot c s)
  then show ?case using to_stop_bounds[of w col] by (auto split: if_splits)
qed simp

text \<open>What is added before a position: the sum of the last tab before it.\<close>

definition added_before :: "offset_entry list \<Rightarrow> int \<Rightarrow> int" where
  "added_before os i = last_or_zero (map (\<lambda>x. snd (snd x)) (filter (\<lambda>x. fst x < i) os))"

lemma tabs_from_last: "0 < w \<Longrightarrow> 0 \<le> col \<Longrightarrow>
   (if tabs_from w i col tot s = [] then tot else snd (snd (last (tabs_from w i col tot s)))) = tot + int (length (expand w col s)) - int (length s)"
proof (induction w i col tot s rule: tabs_from.induct)
  case (2 w i col tot c s)
  then show ?case using to_stop_bounds[of w col] by (auto simp: algebra_simps split: if_splits)
qed simp

lemma added_before_expand:
  assumes "0 < w" and "k \<le> length s"
  shows "added_before (tabs_from w 0 0 0 s) (int k) = int (length (expand w 0 (take k s))) - int k"
proof -
  let ?p = "tabs_from w 0 0 0 (take k s)"
  have s: "tabs_from w 0 0 0 s = ?p @ tabs_from w (int k) (column w 0 (take k s)) (int (length (expand w 0 (take k s))) - int k) (drop k s)"
    using tabs_from_append[of w 0 0 0 "take k s" "drop k s"] assms by simp
  have "filter (\<lambda>x. fst x < int k) ?p = ?p" using tabs_from_range[of _ w 0 0 0 "take k s"] assms(2) by (fastforce simp: filter_id_conv)
  moreover have "filter (\<lambda>x. fst x < int k) (tabs_from w (int k) a b (drop k s)) = []" for a b
    using tabs_from_range[of _ w "int k" a b "drop k s"] by (fastforce simp: filter_empty_conv)
  ultimately have "added_before (tabs_from w 0 0 0 s) (int k) = last_or_zero (map (\<lambda>x. snd (snd x)) ?p)" by (simp add: s added_before_def)
  also have "\<dots> = int (length (expand w 0 (take k s))) - int k"
    using tabs_from_last[of w 0 0 0 "take k s"] assms by (auto simp: last_or_zero_def last_map split: if_splits)
  finally show ?thesis .
qed

subsection \<open>The table of offsets\<close>

lemma added_before_step:
  assumes "sorted_wrt (<) (map fst os)" and "k < length os" and "fst (os ! k) < i" and "k + 1 < length os \<longrightarrow> i \<le> fst (os ! (k + 1))"
  shows "added_before os i = snd (snd (os ! k))"
proof -
  have later: "i \<le> fst (os ! j)" if "k < j" "j < length os" for j
  proof (cases "j = k + 1")
    case False
    then have "fst (os ! (k + 1)) < fst (os ! j)" using assms(1) that by (auto simp: sorted_wrt_iff_nth_less)
    then show ?thesis using assms(4) that by auto
  qed (use assms(4) that in auto)
  have earlier: "fst (os ! j) < i" if "j \<le> k" for j
  proof (cases "j = k")
    case False
    then have "fst (os ! j) < fst (os ! k)" using assms(1,2) that by (auto simp: sorted_wrt_iff_nth_less)
    then show ?thesis using assms(3) by simp
  qed (use assms(3) in simp)
  have "fst x < i" if x: "x \<in> set (take (k + 1) os)" for x
  proof -
    obtain j where "j < k + 1" "x = os ! j" using x by (auto simp: in_set_conv_nth)
    then show ?thesis using earlier by simp
  qed
  moreover have "\<not> fst x < i" if x: "x \<in> set (drop (k + 1) os)" for x
  proof -
    obtain j where j: "j < length os - (k + 1)" "x = os ! (k + 1 + j)" using x by (auto simp: in_set_conv_nth)
    then have "k + 1 + j < length os" by simp
    then show ?thesis using later[of "k + 1 + j"] j(2) by auto
  qed
  ultimately have "filter (\<lambda>x. fst x < i) (take (k + 1) os @ drop (k + 1) os) = take (k + 1) os"
    unfolding filter_append by (simp add: filter_id_conv filter_empty_conv)
  then have "filter (\<lambda>x. fst x < i) os = take (k + 1) os" by simp
  then show ?thesis using assms(2) by (simp add: added_before_def last_or_zero_def last_map last_conv_nth take_Suc_conv_app_nth)
qed

lemma added_before_none: "\<forall>x \<in> set os. i \<le> fst x \<Longrightarrow> added_before os i = 0"
  by (simp add: added_before_def last_or_zero_def filter_empty_conv not_less)

text \<open>
  The loop: the table holds what is added before each position so far, and the current tab is before the
  position, unless it is still the first one.
\<close>

lemma linear_loop_eq:
  assumes "sorted_wrt (<) (map fst os)" and "changes = map (\<lambda>j. added_before os (int j)) [0..<i]" and "i \<le> n"
    and "cur = 0 \<or> cur < length os \<and> fst (os ! cur) < int i"
  shows "linear_loop os n i cur changes = map (\<lambda>j. added_before os (int j)) [0..<n]"
  using assms
proof (induction os n i cur changes rule: linear_loop.induct)
  case (1 os n i cur changes)
  note srt = "1.prems"(1) and ch = "1.prems"(2) and inv = "1.prems"(4)
  show ?case
  proof (cases "i < n")
    case False
    then show ?thesis using "1.prems"(2,3) by (subst linear_loop.simps) simp
  next
    case i: True
    show ?thesis
    proof (cases "cur < length os \<and> fst (os ! cur) < int i")
      case True
      note step = added_before_step[OF srt, of cur "int i"]
      show ?thesis
      proof (cases "cur + 1 < length os \<and> \<not> int i \<le> fst (os ! (cur + 1))")
        case move: True
        then have "linear_loop os n i (cur + 1) changes = map (\<lambda>j. added_before os (int j)) [0..<n]"
          using "1.IH"(2)[OF i True _ _ srt ch] i by auto
        then show ?thesis using i True move by (simp add: linear_loop.simps[of os n i cur])
      next
        case False
        then have "changes @ [snd (snd (os ! cur))] = map (\<lambda>j. added_before os (int j)) [0..<i + 1]" using step True ch by auto
        then have "linear_loop os n (i + 1) cur (changes @ [snd (snd (os ! cur))]) = map (\<lambda>j. added_before os (int j)) [0..<n]"
          using "1.IH"(1)[OF i True _ _ srt] "1.IH"(3)[OF i True _ srt] i True False by (cases "cur + 1 < length os") auto
        then show ?thesis using i True False by (simp add: linear_loop.simps[of os n i cur])
      qed
    next
      case False
      have "int i \<le> fst x" if x: "x \<in> set os" for x
      proof -
        obtain j where "x = os ! j" "j < length os" using x by (metis in_set_conv_nth)
        then show ?thesis using srt inv False by (cases j) (force simp: sorted_wrt_iff_nth_less)+
      qed
      then have z: "added_before os (int j) = 0" if "j \<le> i" for j using that by (intro added_before_none) force
      then have "last_or_zero changes = 0" using ch by (cases i) (auto simp: last_or_zero_def)
      then have "changes @ [last_or_zero changes] = map (\<lambda>j. added_before os (int j)) [0..<i + 1]" using ch z by simp
      then have "linear_loop os n (i + 1) cur (changes @ [last_or_zero changes]) = map (\<lambda>j. added_before os (int j)) [0..<n]"
        using "1.IH"(4)[OF i False srt] i inv False by auto
      then show ?thesis unfolding linear_loop.simps[of os n i cur] if_P[OF i] if_not_P[OF False] .
    qed
  qed
qed

theorem linear_offsets:
  assumes "0 < w" and "i < length tx"
  shows "convertToLinearOffsets (snd (convertTabsToSpaces tx w)) (length tx) ! i = int (length (expand w 0 (take i tx))) - int i"
proof -
  have "snd (convertTabsToSpaces tx w) = tabs_from w 0 0 0 tx" using assms(1) tab_loop_eq[of w 0 0 0 tx] by (simp add: convertTabsToSpaces_def)
  then show ?thesis
    using linear_loop_eq[OF tabs_from_increasing[of w 0 0 0 tx], of "[]" 0 "length tx" 0] added_before_expand[OF assms(1), of i tx] assms(2)
    by (simp add: convertToLinearOffsets_def)
qed

lemma linear_length: "0 < w \<Longrightarrow> length (convertToLinearOffsets (snd (convertTabsToSpaces tx w)) (length tx)) = length tx"
  using linear_loop_eq[OF tabs_from_increasing[of w 0 0 0 tx], of "[]" 0 "length tx" 0] tab_loop_eq[of w 0 0 0 tx]
  by (simp add: convertToLinearOffsets_def convertTabsToSpaces_def)

text \<open>
  C38: tab expansion and the table of offsets agree. For a tab width above zero, the character at a position
  that is no tab is found in the converted text at the position plus the entry of the table.
\<close>

theorem tabs_move_characters:
  assumes "0 < w" and "i < length tx" and "tx ! i \<noteq> TAB"
  shows "fst (convertTabsToSpaces tx w) !
    nat (int i + convertToLinearOffsets (snd (convertTabsToSpaces tx w)) (length tx) ! i) = tx ! i"
proof -
  have e: "fst (convertTabsToSpaces tx w) = expand w 0 tx" using assms(1) tab_loop_eq[of w 0 0 0 tx] by (simp add: convertTabsToSpaces_def)
  have "tx = take i tx @ tx ! i # drop (Suc i) tx" using assms(2) by (simp add: id_take_nth_drop)
  then have "expand w 0 tx = expand w 0 (take i tx) @ expand w (column w 0 (take i tx)) (tx ! i # drop (Suc i) tx)"
    by (metis expand_append)
  moreover have "expand w col (tx ! i # u) = tx ! i # tl (expand w col (tx ! i # u))" for col u using assms(3) by simp
  ultimately have "expand w 0 tx ! length (expand w 0 (take i tx)) = tx ! i" by (metis nth_append_length)
  then show ?thesis using linear_offsets[OF assms(1,2)] e by simp
qed

theorem tabs_move_characters_witness:
  "fst (convertTabsToSpaces [CHR ''a'', TAB, CHR ''b''] 4) !
    nat (int 2 + convertToLinearOffsets (snd (convertTabsToSpaces [CHR ''a'', TAB, CHR ''b''] 4)) (length [CHR ''a'', TAB, CHR ''b'']) ! 2) = CHR ''b''"
  using tabs_move_characters[of 4 2 "[CHR ''a'', TAB, CHR ''b'']"] by simp

text \<open>
  C39: the widths recorded for tabs are between one and the tab width, so that the run of spaces looked up
  for a tab is always in the table.
\<close>

theorem tab_widths_in_range:
  assumes "0 < w" and "(i, width, t) \<in> set (snd (convertTabsToSpaces tx w))"
  shows "1 \<le> width \<and> width \<le> w \<and> 0 \<le> i \<and> i < int (length tx)"
proof -
  have "(i, width, t) \<in> set (tabs_from w 0 0 0 tx)" using assms tab_loop_eq[of w 0 0 0 tx] by (simp add: convertTabsToSpaces_def)
  then show ?thesis using tabs_from_widths[of w 0 _ 0 0 tx] tabs_from_range[of _ w 0 0 0 tx] assms(1) by fastforce
qed

theorem tab_widths_in_range_witness:
  "(1, 3, 2) \<in> set (snd (convertTabsToSpaces [CHR ''a'', TAB] 4)) \<and>
   (1::int) \<le> 3 \<and> (3::int) \<le> 4 \<and> (0::int) \<le> 1 \<and> (1::int) < int (length [CHR ''a'', TAB])"
proof -
  have "(1, 3, 2) \<in> set (snd (convertTabsToSpaces [CHR ''a'', TAB] 4))" by code_simp
  then show ?thesis using tab_widths_in_range[of 4 1 3 2 "[CHR ''a'', TAB]"] by simp
qed

lemma expand_nonempty: "0 < w \<Longrightarrow> s \<noteq> [] \<Longrightarrow> expand w col s \<noteq> []"
  using to_stop_bounds[of w col] by (cases s) auto

text \<open>A match that ends before the end of the text is moved to where its characters are.\<close>

theorem update_match_moves:
  assumes "0 < w" and "0 \<le> a" and "a < b" and "b < int (length tx)" and "n = b - a"
  defines "r \<equiv> convertTabsToSpaces tx w"
  shows "\<exists>m. update_match (convertToLinearOffsets (snd r) (length tx)) (fst r) (Match a b n e v [] c) = Some m \<and>
    offset m = int (length (expand w 0 (take (nat a) tx))) \<and> endOffset m = int (length (expand w 0 (take (nat b) tx))) \<and>
    val m = expand w (column w 0 (take (nat a) tx)) (take (nat n) (drop (nat a) tx))"
proof -
  let ?lin = "convertToLinearOffsets (snd r) (length tx)" and ?A = "expand w 0 (take (nat a) tx)" and ?B = "expand w 0 (take (nat b) tx)"
  let ?P = "expand w (column w 0 (take (nat a) tx)) (take (nat n) (drop (nat a) tx))"
  have e: "fst r = expand w 0 tx" using assms(1) tab_loop_eq[of w 0 0 0 tx] by (simp add: r_def convertTabsToSpaces_def)
  have "take (nat b) tx = take (nat a) tx @ take (nat n) (drop (nat a) tx)" using assms(2-5) by (simp flip: take_add nat_add_distrib)
  then have B: "?B = ?A @ ?P" by (metis expand_append)
  have tx: "expand w 0 tx = ?B @ expand w (column w 0 (take (nat b) tx)) (drop (nat b) tx)" by (metis append_take_drop_id expand_append)
  have "take (nat n) (drop (nat a) tx) \<noteq> []" using assms(2-5) by simp
  then have P: "?P \<noteq> []" using expand_nonempty[OF assms(1)] by simp
  have la: "entry_at ?lin a = Some (int (length ?A) - a)" and lb: "entry_at ?lin (a + n) = Some (int (length ?B) - b)"
    using linear_offsets[OF assms(1), of "nat a" tx] linear_offsets[OF assms(1), of "nat b" tx] linear_length[OF assms(1), of tx] assms(2-5)
    by (auto simp: entry_at_def r_def)
  have "js_substr (fst r) (int (length ?A)) (int (length ?P)) = ?P" by (simp add: e tx B js_substr_def)
  then show ?thesis using la lb P assms(5) e tx by (auto simp: adjust_def Let_def B present_def)
qed

text \<open>
  At the end of the text the table has no entry: a match that reaches it keeps its old length, and a tab in
  it makes it too short.
\<close>

lemma update_match_at_end:
  "let r = convertTabsToSpaces [CHR ''a'', TAB, CHR ''b''] 4
   in map_option val (update_match (convertToLinearOffsets (snd r) 3) (fst r) (Match 0 3 3 e [CHR ''a'', TAB, CHR ''b''] [] False)) =
        Some ''a  ''"
  by code_simp

end
