(* ===== verification/Syntax_Highlight.thy ===== *)
theory Syntax_Highlight
  imports Syntax_Tabs
begin

text \<open>
  \<open>highlightText\<close> of \<open>jquery.syntax.core.js\<close> and what it needs: the links it makes of spans of class
  \<open>href\<close>, and the matches taken from the elements of the page.
\<close>

subsection \<open>Elements of the page\<close>

datatype page_node = TextNode string | Comment | BR string | Elem string "page_node list"

fun textContent :: "page_node \<Rightarrow> string" where
  "textContent (TextNode s) = s"
| "textContent Comment = []"
| "textContent (BR k) = []"
| "textContent (Elem k ns) = concat (map textContent ns)"

text \<open>\<open>replace(/\r\n?/g, '\n')\<close>.\<close>

fun newlines_after :: "bool \<Rightarrow> string \<Rightarrow> string" where
  "newlines_after cr [] = []"
| "newlines_after cr (c # s) =
     (if c = CHR 0x0D then CHR 0x0A # newlines_after True s
      else if c = CHR 0x0A \<and> cr then newlines_after False s
      else c # newlines_after False s)"

definition newlines :: "string \<Rightarrow> string" where
  "newlines s = newlines_after False s"

text \<open>\<open>Syntax.innerText\<close>; \<open>rendered\<close> is the property \<open>innerText\<close>, which is read if the text content is empty.\<close>

definition innerText :: "(page_node \<Rightarrow> string) \<Rightarrow> page_node \<Rightarrow> string" where
  "innerText rendered e =
     (case e of
        BR k \<Rightarrow> [CHR 0x0A]
      | _ \<Rightarrow> newlines (if textContent e \<noteq> [] then textContent e else rendered e))"

definition range_expr :: "string \<Rightarrow> expr" where
  "range_expr k = \<lparr>klass = k, force = True, only = None, allowed = AllowAll, disallow = None, owner = None\<rparr>"

text \<open>The traversal: the matches so far, and the offset, which the nested calls share.\<close>

fun walk :: "(page_node \<Rightarrow> string) \<Rightarrow> page_node \<Rightarrow> smatch list \<times> int \<Rightarrow> smatch list \<times> int" where
  "walk rendered (TextNode s) (ms, off) = (ms, off + int (length s))"
| "walk rendered Comment (ms, off) = (ms, off)"
| "walk rendered (BR k) (ms, off) = (ms @ [new_Match off 1 (range_expr k) [CHR 0x0A]], off)"
| "walk rendered (Elem k ns) (ms, off) =
     (let tx = innerText rendered (Elem k ns)
      in fold (walk rendered) ns (ms @ [new_Match off (int (length tx)) (range_expr k) tx], off))"

definition extractElementMatches :: "(page_node \<Rightarrow> string) \<Rightarrow> page_node list \<Rightarrow> smatch list" where
  "extractElementMatches rendered elems = tl (fst (fold (walk rendered) elems ([], 0)))"

subsection \<open>Links\<close>

text \<open>\<open>innerHTML\<close>.\<close>

definition escape_char :: "char \<Rightarrow> string" where
  "escape_char c = (if c = CHR ''&'' then ''&amp;'' else if c = CHR ''<'' then ''&lt;'' else if c = CHR ''>'' then ''&gt;'' else [c])"

definition escape_attr :: "string \<Rightarrow> string" where
  "escape_attr s = concat (map (\<lambda>c. if c = CHR ''&'' then ''&amp;'' else if c = CHR 0x22 then ''&quot;'' else [c]) s)"

fun outer_html :: "html \<Rightarrow> string" where
  "outer_html (HText s) = concat (map escape_char s)"
| "outer_html (HSpan k hs) =
     ''<span'' @ (if k = [] then [] else '' class='' @ [CHR 0x22] @ escape_attr k @ [CHR 0x22]) @ ''>'' @
     concat (map outer_html hs) @ ''</span>''"
| "outer_html (HLink href s) =
     ''<a href='' @ [CHR 0x22] @ escape_attr href @ [CHR 0x22] @ ''>'' @ concat (map escape_char s) @ ''</a>''"

definition inner_html :: "html list \<Rightarrow> string" where
  "inner_html hs = concat (map outer_html hs)"

text \<open>
  Each \<open>span.href\<close> is replaced by a link whose address and text are its \<open>innerHTML\<close>. A span inside another
  one is replaced after its surroundings have been taken out of the page.
\<close>

fun linkify :: "html \<Rightarrow> html" where
  "linkify (HSpan k hs) =
     (if ''href'' \<in> set (split_on (CHR '' '') k) then HLink (inner_html hs) (inner_html hs) else HSpan k (map linkify hs))"
| "linkify h = h"

subsection \<open>highlightText\<close>

record hl_options =
  o_brush :: "string option"
  o_tabWidth :: int                \<comment> \<open>0 if there is none\<close>
  o_matches :: "smatch list"
  o_linkify :: bool

definition brush_name :: "(string \<Rightarrow> string option) \<Rightarrow> string option \<Rightarrow> string" where
  "brush_name aliases b =
     (let name = to_lower (case b of Some s \<Rightarrow> if s = [] then ''plain'' else s | None \<Rightarrow> ''plain'')
      in case aliases name of Some a \<Rightarrow> if a = [] then name else a | None \<Rightarrow> name)"

text \<open>
  What the callback is given: the lines, and the text after tabs are expanded. \<open>Inr None\<close>: the brush could
  not be loaded, and the callback is not called.
\<close>

definition highlightText ::
  "engine \<Rightarrow> brushes \<Rightarrow> nat \<Rightarrow> (smatch \<Rightarrow> html \<Rightarrow> html) \<Rightarrow> (string \<Rightarrow> string option) \<Rightarrow> hl_options \<Rightarrow> string \<Rightarrow>
   (html list \<times> string) option result option" where
  "highlightText ex B n procs aliases opts tx0 =
     (case B (brush_name aliases (o_brush opts)) of
        None \<Rightarrow> Some (Inr None)
      | Some b \<Rightarrow>
          let (ms, tx) =
                (if o_tabWidth opts \<noteq> 0
                 then let r = convertTabsToSpaces tx0 (o_tabWidth opts)
                      in (if o_matches opts \<noteq> []
                          then updateMatchesWithOffsets (o_matches opts) (convertToLinearOffsets (snd r) (length tx0)) (fst r)
                          else [], fst r)
                 else (o_matches opts, tx0))
          in obind (process ex B n procs b tx ms) (\<lambda>ls.
               Some (Inr (Some (if o_linkify opts then map linkify ls else ls, tx)))))"

subsection \<open>The text of links\<close>

text \<open>The spans that become links hold plain text without the characters that are escaped.\<close>

fun plain_text :: "html \<Rightarrow> bool" where
  "plain_text (HText s) = list_all (\<lambda>c. c \<notin> set ''&<>'') s"
| "plain_text _ = False"

fun plain_links :: "html \<Rightarrow> bool" where
  "plain_links (HSpan k hs) =
     (if ''href'' \<in> set (split_on (CHR '' '') k)
      then list_all plain_text hs
      else list_all plain_links hs)"
| "plain_links h = True"

lemma escape_plain: "list_all (\<lambda>c. c \<notin> set ''&<>'') s \<Longrightarrow> concat (map escape_char s) = s"
  by (induction s) (auto simp: escape_char_def)

lemma inner_plain:
  "list_all plain_text hs \<Longrightarrow> inner_html hs = concat (map text_of hs)"
proof (induction hs)
  case (Cons h hs)
  then show ?case by (cases h) (auto simp: inner_html_def escape_plain)
qed (simp add: inner_html_def)

lemma linkify_text: "plain_links h \<Longrightarrow> text_of (linkify h) = text_of h"
proof (induction h rule: linkify.induct)
  case (1 k hs)
  then show ?case using inner_plain[of hs] by (auto simp: list_all_iff comp_def cong: map_cong split: if_splits)
qed auto

text \<open>A link with a query of two parameters shows its address escaped.\<close>

lemma linkify_escapes: "text_of (linkify (HSpan ''href'' [HText ''http://h/?a&b''])) = ''http://h/?a&amp;b''"
  by code_simp



end
