(* ===== verification/Syntax_Clang.thy ===== *)
theory Syntax_Clang
  imports Syntax_Highlight
begin

text \<open>
  The library of patterns of \<open>jquery.syntax.core.js\<close> and the brush of \<open>jquery.syntax.brush.clang.js\<close>. In the
  source texts of patterns below a grave accent stands for a backslash.
\<close>

definition re_src :: "string \<Rightarrow> string" where
  "re_src s = map (\<lambda>c. if c = CHR ''`'' then CHR 0x5C else c) s"

definition dquote :: string where "dquote = [CHR 0x22]"

definition squote :: string where "squote = [CHR 0x27]"

definition lib_rule :: "string \<Rightarrow> string \<Rightarrow> string \<Rightarrow> allow \<Rightarrow> string list option \<Rightarrow> pushed" where
  "lib_rule src fl k al onl =
     \<lparr>p_rule = \<lparr>r_expr = (plain_expr k)\<lparr>allowed := al, only := onl\<rparr>, r_pattern = None, r_subs = None, r_brush = None, incremental = False\<rparr>,
      p_pattern = Some (PRe (RegExp (re_src src) fl)), p_options = None\<rparr>"

definition with_subs :: "nat option \<Rightarrow> string \<Rightarrow> pushed \<Rightarrow> pushed" where
  "with_subs i k r = r\<lparr>p_rule := (p_rule r)\<lparr>r_subs := Some [Some \<lparr>s_index = i, s_brush = None, s_expr = plain_expr k\<rparr>]\<rparr>\<rparr>"

subsection \<open>Syntax.lib\<close>

definition cStyleComment :: pushed where
  "cStyleComment = lib_rule ''`/`*[`s`S]*?`*`/'' ''gm'' ''comment'' (AllowOnly [''href'']) None"

definition cppStyleComment :: pushed where
  "cppStyleComment = lib_rule ''`/`/.*$'' ''gm'' ''comment'' (AllowOnly [''href'']) None"

definition cStyleFunction :: pushed where
  "cStyleFunction = with_subs None ''function'' (lib_rule ''([a-z_][a-z0-9_]*)`s*`('' ''gi'' [] NoAllow None)"

definition camelCaseType :: pushed where
  "camelCaseType = lib_rule ''`b_*[A-Z][`w]*`b'' ''g'' ''type'' NoAllow None"

definition cStyleType :: pushed where
  "cStyleType = lib_rule ''`b[_a-z][_`w]*_t`b'' ''gi'' ''type'' NoAllow None"

definition webLink :: pushed where
  "webLink = lib_rule ''`w+:`/`/[`w`-.`/?%&=@:;#]*'' ''g'' ''href'' NoAllow None"

definition hexNumber :: pushed where
  "hexNumber = lib_rule ''`b0x[0-9a-fA-F]+'' ''g'' ''constant'' NoAllow None"

definition decimalNumber :: pushed where
  "decimalNumber = lib_rule ''`b[-+]?[0-9]*`.?[0-9]+([eE][-+]?[0-9]+)?'' ''g'' ''constant'' NoAllow None"

definition doubleQuotedString :: pushed where
  "doubleQuotedString = lib_rule (dquote @ ''([^``'' @ dquote @ ''`n]|``.)*'' @ dquote) ''g'' ''string'' NoAllow None"

definition singleQuotedString :: pushed where
  "singleQuotedString = lib_rule (squote @ ''([^``'' @ squote @ ''`n]|``.)*'' @ squote) ''g'' ''string'' NoAllow None"

definition stringEscape :: pushed where
  "stringEscape = lib_rule ''``.'' ''g'' ''escape'' NoAllow (Some [''string''])"

subsection \<open>The brush\<close>

definition keywords_of_clang :: "string list" where
  "keywords_of_clang =
     [''@interface'', ''@implementation'', ''@protocol'', ''@end'', ''@try'', ''@throw'', ''@catch'', ''@finally'', ''@class'',
      ''@selector'', ''@encode'', ''@synchronized'', ''@property'', ''@synthesize'', ''@dynamic'', ''struct'', ''break'', ''continue'',
      ''else'', ''for'', ''switch'', ''case'', ''default'', ''enum'', ''goto'', ''register'', ''sizeof'', ''typedef'', ''volatile'', ''do'',
      ''extern'', ''if'', ''return'', ''static'', ''union'', ''while'', ''asm'', ''dynamic_cast'', ''namespace'', ''reinterpret_cast'',
      ''try'', ''explicit'', ''static_cast'', ''typeid'', ''catch'', ''operator'', ''template'', ''class'', ''const_cast'', ''inline'',
      ''throw'', ''virtual'', ''IBOutlet'']"

definition words_rule :: "string list \<Rightarrow> string \<Rightarrow> string list option \<Rightarrow> brush \<Rightarrow> brush" where
  "words_rule ws k onl b =
     push_rules (map PStr ws) ((simple_rule k None)\<lparr>p_rule := (p_rule (simple_rule k None))\<lparr>r_expr := (plain_expr k)\<lparr>only := onl\<rparr>\<rparr>\<rparr>) b"

definition clang_setup :: "brush \<Rightarrow> brush" where
  "clang_setup b =
     fold (\<lambda>f b. f b)
       [words_rule [''this'', ''true'', ''false'', ''NULL'', ''YES'', ''NO'', ''nil''] ''constant'' None,
        words_rule [''mutable'', ''auto'', ''const'', ''register'', ''typename'', ''abstract''] ''keyword'' None,
        words_rule [''double'', ''float'', ''int'', ''short'', ''char'', ''long'', ''signed'', ''unsigned'', ''bool'', ''void'', ''id''] ''type'' None,
        words_rule keywords_of_clang ''keyword'' None,
        words_rule [''+'', ''*'', ''/'', ''-'', ''&'', ''|'', ''~'', ''!'', ''%'', ''<'', ''='', ''>'', ''['', '']'', ''new'', ''delete'', ''in''] ''operator'' None,
        words_rule [''@private'', ''@protected'', ''@public'', ''@required'', ''@optional'', ''private'', ''protected'', ''public'', ''friend'', ''using''] ''access'' None,
        push_rule (lib_rule ''@property`((.*)`)[^;]+;'' ''gmi'' ''objective-c-property'' AllowAll None),
        words_rule [''getter'', ''setter'', ''readwrite'', ''readonly'', ''assign'', ''retain'', ''copy'', ''nonatomic''] ''keyword'' (Some [''objective-c-property'']),
        push_rule (lib_rule (''@(?='' @ dquote @ '')'') ''g'' ''string'' NoAllow None),
        push_rule camelCaseType,
        push_rule cStyleType,
        push_rule (with_subs None ''type'' (lib_rule ''(?:class|struct|enum|namespace)`s+([^{;`s]+)'' ''gmi'' [] NoAllow None)),
        push_rule (lib_rule ''#.*$'' ''gmi'' ''preprocessor'' (AllowOnly [''string'']) None),
        push_rule cStyleComment,
        push_rule cppStyleComment,
        push_rule webLink,
        push_rule (lib_rule ''`w+:(?=.*(`]|;|`{))(?!:)'' ''g'' ''function'' NoAllow None),
        push_rule (with_subs None ''function'' (lib_rule ''[^:`[]`s+(`w+)(?=`])'' ''g'' [] NoAllow None)),
        push_rule (with_subs (Some 2) ''function'' (lib_rule ''-`s*(`([^`)]+?`))?`s*(`w+)`s*`{'' ''g'' [] NoAllow None)),
        push_rule singleQuotedString,
        push_rule doubleQuotedString,
        push_rule stringEscape,
        push_rule decimalNumber,
        push_rule hexNumber,
        push_rule cStyleFunction] b"

definition clang :: brush where
  "clang = clang_setup (new_Brush ''clang'')"

subsection \<open>What the brush is\<close>

fun entry_global :: "string \<Rightarrow> brush_entry \<Rightarrow> bool" where
  "entry_global k (Rule r) = ((case r_pattern r of Some p \<Rightarrow> global p | None \<Rightarrow> False) \<and> owner (r_expr r) = Some k \<and> r_brush r = None \<and> \<not> incremental r)"
| "entry_global k (Derives name) = False"

text \<open>No rule is refused, and every rule has a global pattern and belongs to the brush.\<close>

lemma clang_rules: "length (b_rules clang) = 25 \<and> list_all (entry_global ''clang'') (b_rules clang)"
  by code_simp

lemma clang_nested: "nested B (Suc n) clang"
proof -
  have "brush_uses clang = []" by code_simp
  then show ?thesis by simp
qed

text \<open>
  The group of the name of a structure is looked for as text in the match: for \<open>struct s\<close> it is found in
  the word \<open>struct\<close>.
\<close>

lemma struct_name_misplaced:
  "extractMatches (\<lambda>name s off. None) (plain_expr []) 0 [Some \<lparr>s_index = None, s_brush = None, s_expr = plain_expr ''type''\<rparr>]
     \<lparr>m_index = 0, m_text = ''struct s'', m_groups = [Some ''s'']\<rparr> =
   Some (Inr ([new_Match 0 1 (plain_expr ''type'') ''s''], False))"
  by code_simp

end
