(* ===== verification/Syntax_Loader.thy ===== *)
theory Syntax_Loader
  imports Js_Strings "HOL-Library.AList" "HOL-Library.Multiset"
begin

text \<open>
  The loader of \<open>jquery.syntax.js\<close>: brushes, layouts and the core are scripts loaded on demand, each once,
  with the callbacks that wait for it; and the names and aliases of brushes.
\<close>

subsection \<open>ResourceLoader\<close>

text \<open>
  A callback: one of a user, or one made with \<open>bind\<close>, which calls \<open>get\<close> with a name and a callback, or
  \<open>_loaded\<close> with a name.
\<close>

datatype callback = User nat | GetThen string callback | LoadedOf string

record loader =
  resources :: "string list"                          \<comment> \<open>the names registered with the loader\<close>
  loading :: "(string \<times> callback list) list"
  dependencies :: "(string \<times> string list) list"
  requested :: "string list"                          \<comment> \<open>the calls of the \<open>loader\<close> function\<close>
  called :: "(nat \<times> string) list"                     \<comment> \<open>the users' callbacks called, with the resource\<close>
  alerts :: "string list"

definition new_ResourceLoader :: loader where
  "new_ResourceLoader = \<lparr>resources = [], loading = [], dependencies = [], requested = [], called = [], alerts = []\<rparr>"

fun weight :: "callback \<Rightarrow> nat" where
  "weight (User k) = 1"
| "weight (GetThen n c) = Suc (weight c)"
| "weight (LoadedOf n) = 1"

definition waiting_cbs :: "loader \<Rightarrow> callback list" where
  "waiting_cbs w = concat (map snd (loading w))"

lemma waiting_update:
  "map_of l n = Some cs \<Longrightarrow> sum_list (map f (concat (map snd (AList.update n (cs @ [c]) l)))) = sum_list (map f (concat (map snd l))) + f c"
  for f :: "callback \<Rightarrow> nat"
  by (induction l) (auto split: if_splits)

lemma waiting_take:
  "map_of l n = Some cs \<Longrightarrow> sum_list (map f cs) + sum_list (map f (concat (map snd (filter (\<lambda>x. fst x \<noteq> n) l)))) \<le> sum_list (map f (concat (map snd l)))"
  for f :: "callback \<Rightarrow> nat"
proof (induction l)
  case (Cons x l)
  have "sum_list (map f (concat (map snd (filter (\<lambda>x. fst x \<noteq> n) l)))) \<le> sum_list (map f (concat (map snd l)))"
    by (induction l) auto
  then show ?case using Cons by (cases x) (auto split: if_splits)
qed simp

lemma waiting_drop: "sum_list (map f (concat (map snd (filter P l)))) \<le> sum_list (map f (concat (map snd l)))" for f :: "callback \<Rightarrow> nat"
  by (induction l) auto

text \<open>
  Calls of callbacks, each with the resource it is given, one after the other: \<open>get\<close> and \<open>_loaded\<close>. Each
  call takes one link of a chain of callbacks away.
\<close>

function run_callbacks :: "loader \<Rightarrow> (callback \<times> string) list \<Rightarrow> loader result" where
  "run_callbacks w [] = Inr w"
| "run_callbacks w ((User k, r) # ts) = run_callbacks (w\<lparr>called := called w @ [(k, r)]\<rparr>) ts"
| "run_callbacks w ((GetThen n c, r) # ts) =
     (case map_of (loading w) n of
        Some cs \<Rightarrow> run_callbacks (w\<lparr>loading := AList.update n (cs @ [c]) (loading w)\<rparr>) ts
      | None \<Rightarrow>
          if n \<in> set (resources w) then run_callbacks w ((c, n) # ts)
          else run_callbacks (w\<lparr>loading := (n, [c]) # loading w, requested := requested w @ [n]\<rparr>) ts)"
| "run_callbacks w ((LoadedOf n, r) # ts) =
     (let w1 = w\<lparr>loading := filter (\<lambda>x. fst x \<noteq> n) (loading w)\<rparr>
      in if n \<notin> set (resources w) then run_callbacks (w1\<lparr>alerts := alerts w @ [n]\<rparr>) ts
         else case map_of (loading w) n of
                None \<Rightarrow> Inl TypeError
              | Some cs \<Rightarrow> run_callbacks w1 (map (\<lambda>c. (c, n)) cs @ ts))"
  by pat_completeness auto
termination
proof (relation "measure (\<lambda>(w, ts). sum_list (map (weight \<circ> fst) ts) + sum_list (map weight (waiting_cbs w)))", goal_cases)
  case (5 w n c r ts cs)
  then show ?case using waiting_update[of "loading w" n cs weight c] by (simp add: waiting_cbs_def)
next
  case (6 w n r ts w1)
  then show ?case using waiting_drop[of weight "\<lambda>x. fst x \<noteq> n" "loading w"] by (simp add: waiting_cbs_def)
next
  case (7 w n r ts w1 cs)
  then show ?case using waiting_take[of "loading w" n cs weight] by (simp add: waiting_cbs_def comp_def)
qed (auto simp: waiting_cbs_def)

definition get_resource :: "string \<Rightarrow> callback \<Rightarrow> loader \<Rightarrow> loader result" where
  "get_resource n c w = run_callbacks w [(GetThen n c, [])]"

text \<open>\<open>_finish\<close>, called when the script has been run: \<open>_loaded\<close> after the dependencies.\<close>

definition finish_resource :: "string \<Rightarrow> loader \<Rightarrow> loader result" where
  "finish_resource n w =
     (case map_of (dependencies w) n of
        Some deps \<Rightarrow> run_callbacks w [(fold GetThen deps (LoadedOf n), [])]
      | None \<Rightarrow> run_callbacks w [(LoadedOf n, [])])"

text \<open>\<open>dependency\<close>; the variable \<open>name\<close> it reads is the name of the window.\<close>

definition dependency :: "string \<Rightarrow> string \<Rightarrow> string \<Rightarrow> loader \<Rightarrow> loader" where
  "dependency window_name current nxt w =
     (if nxt \<in> set (resources w) \<and> map_of (loading w) window_name = None then w
      else case map_of (dependencies w) current of
             Some ds \<Rightarrow> w\<lparr>dependencies := AList.update current (ds @ [nxt]) (dependencies w)\<rparr>
           | None \<Rightarrow> w\<lparr>dependencies := (current, [nxt]) # dependencies w\<rparr>)"

text \<open>
  What happens to a loader: a user asks for a resource; a script runs, registers names and states
  dependencies; the browser reports that a script is loaded.
\<close>

datatype load_event = Get string nat | Registers string | DependsOn string string | Loads string

fun handle_load :: "string \<Rightarrow> loader \<Rightarrow> load_event \<Rightarrow> loader result" where
  "handle_load wn w (Get n k) = get_resource n (User k) w"
| "handle_load wn w (Registers n) = Inr (w\<lparr>resources := resources w @ [n]\<rparr>)"
| "handle_load wn w (DependsOn a b) = Inr (dependency wn a b w)"
| "handle_load wn w (Loads n) = finish_resource n w"

fun handle_all :: "string \<Rightarrow> loader \<Rightarrow> load_event list \<Rightarrow> loader result" where
  "handle_all wn w [] = Inr w"
| "handle_all wn w (e # es) = rbind (handle_load wn w e) (\<lambda>w'. handle_all wn w' es)"

subsection \<open>Callbacks are neither lost nor called twice\<close>

fun users :: "callback \<Rightarrow> nat multiset" where
  "users (User k) = {#k#}"
| "users (GetThen n c) = users c"
| "users (LoadedOf n) = {#}"

definition all_users :: "callback list \<Rightarrow> nat multiset" where
  "all_users cs = sum_list (map users cs)"

text \<open>The callbacks that have been called, that wait, and that are about to be called.\<close>

definition accounted :: "loader \<Rightarrow> (callback \<times> string) list \<Rightarrow> nat multiset" where
  "accounted w ts = mset (map fst (called w)) + all_users (waiting_cbs w) + all_users (map fst ts)"

definition keys_once :: "loader \<Rightarrow> bool" where
  "keys_once w \<longleftrightarrow> distinct (map fst (loading w))"

lemma users_update:
  "map_of l n = Some cs \<Longrightarrow> all_users (concat (map snd (AList.update n (cs @ [c]) l))) = all_users (concat (map snd l)) + users c"
  by (induction l) (auto simp: all_users_def split: if_splits)

lemma users_take:
  "distinct (map fst l) \<Longrightarrow> map_of l n = Some cs \<Longrightarrow>
   all_users (concat (map snd l)) = all_users cs + all_users (concat (map snd (filter (\<lambda>x. fst x \<noteq> n) l)))"
proof (induction l)
  case (Cons x l)
  show ?case
  proof (cases "fst x = n")
    case True
    then have "n \<notin> fst ` set l" using Cons.prems(1) by auto
    then have "filter (\<lambda>x. fst x \<noteq> n) l = l" by (intro filter_True ballI) (metis image_eqI)
    then show ?thesis using Cons.prems True by (cases x) (auto simp: all_users_def)
  qed (use Cons in \<open>cases x; auto simp: all_users_def\<close>)
qed simp

lemma alerts_grow: "run_callbacks w ts = Inr w' \<Longrightarrow> \<exists>as. alerts w' = alerts w @ as"
proof (induction w ts rule: run_callbacks.induct)
  case (3 w n c r ts)
  then show ?case by (auto split: option.splits if_splits)
next
  case (4 w n r ts)
  then show ?case by (auto simp: Let_def split: option.splits if_splits)
qed auto

lemma run_accounted:
  assumes "run_callbacks w ts = Inr w'" and "keys_once w" and "alerts w' = alerts w"
  shows "accounted w' [] = accounted w ts \<and> keys_once w'"
  using assms
proof (induction w ts rule: run_callbacks.induct)
  case (2 w k r ts)
  then show ?case by (simp add: accounted_def keys_once_def waiting_cbs_def all_users_def)
next
  case (3 w n c r ts)
  show ?case
  proof (cases "map_of (loading w) n")
    case (Some cs)
    then show ?thesis using 3(3)[OF Some] 3(4-) users_update[OF Some, of c]
      by (auto simp: accounted_def keys_once_def waiting_cbs_def all_users_def distinct_update)
  next
    case None
    show ?thesis
    proof (cases "n \<in> set (resources w)")
      case True
      then have "run_callbacks w ((c, n) # ts) = Inr w'" using 3(4) None by simp
      from 3(1)[OF None True this 3(5,6)] show ?thesis by (simp add: accounted_def all_users_def)
    next
      case False
      let ?w = "w\<lparr>loading := (n, [c]) # loading w, requested := requested w @ [n]\<rparr>"
      have "run_callbacks ?w ts = Inr w'" "keys_once ?w" "alerts w' = alerts ?w"
        using 3(4-6) None False by (auto simp: keys_once_def map_of_eq_None_iff)
      from 3(2)[OF None False this] show ?thesis by (simp add: accounted_def waiting_cbs_def all_users_def)
    qed
  qed
next
  case (4 w n r ts)
  let ?w = "w\<lparr>loading := filter (\<lambda>x. fst x \<noteq> n) (loading w)\<rparr>"
  show ?case
  proof (cases "n \<in> set (resources w)")
    case False
    then show ?thesis using 4(3,5) alerts_grow[of "?w\<lparr>alerts := alerts w @ [n]\<rparr>" ts w'] by (auto simp: Let_def)
  next
    case True
    then obtain cs where cs: "map_of (loading w) n = Some cs" "run_callbacks ?w (map (\<lambda>c. (c, n)) cs @ ts) = Inr w'"
      using 4(3) by (auto simp: Let_def split: option.splits)
    then have "accounted w' [] = accounted ?w (map (\<lambda>c. (c, n)) cs @ ts) \<and> keys_once w'"
      using 4(2)[OF refl _ cs(1)] True 4(4,5) by (auto simp: keys_once_def distinct_map_filter)
    then show ?thesis using users_take[OF _ cs(1)] 4(4) by (simp add: accounted_def keys_once_def waiting_cbs_def all_users_def comp_def)
  qed
qed (simp add: accounted_def)

lemma chain_users: "users (fold GetThen ds c) = users c"
  by (induction ds arbitrary: c) auto

lemma dependency_keeps [simp]:
  "loading (dependency wn a b w) = loading w" "called (dependency wn a b w) = called w" "alerts (dependency wn a b w) = alerts w"
  by (auto simp: dependency_def split: option.splits)

fun asked :: "load_event \<Rightarrow> nat multiset" where
  "asked (Get n k) = {#k#}"
| "asked _ = {#}"

lemma handle_accounted:
  assumes "handle_load wn w e = Inr w'" and "keys_once w" and "alerts w' = alerts w"
  shows "accounted w' [] = accounted w [] + asked e \<and> keys_once w'"
proof (cases e)
  case (Get n k)
  then show ?thesis using run_accounted[of w "[(GetThen n (User k), [])]" w'] assms
    by (simp add: get_resource_def accounted_def all_users_def)
next
  case (Loads n)
  have "accounted w' [] = accounted w [] \<and> keys_once w'" if "run_callbacks w [(fold GetThen ds (LoadedOf n), [])] = Inr w'" for ds
    using run_accounted[OF that assms(2,3)] by (simp add: accounted_def all_users_def chain_users)
  from this[of "[]"] this show ?thesis using assms(1) Loads by (auto simp: finish_resource_def split: option.splits)
qed (use assms in \<open>auto simp: accounted_def waiting_cbs_def keys_once_def\<close>)

lemma handle_alerts: "handle_load wn w e = Inr w' \<Longrightarrow> \<exists>as. alerts w' = alerts w @ as"
  by (cases e) (auto simp: get_resource_def finish_resource_def simp del: run_callbacks.simps dest!: alerts_grow split: option.splits)

lemma handle_all_alerts: "handle_all wn w es = Inr w' \<Longrightarrow> \<exists>as. alerts w' = alerts w @ as"
proof (induction es arbitrary: w)
  case (Cons e es)
  then obtain w1 where "handle_load wn w e = Inr w1" "handle_all wn w1 es = Inr w'" by (auto simp: rbind_Inr_iff)
  then show ?case using Cons.IH[of w1] handle_alerts[of wn w e w1] by auto
qed simp

lemma handle_all_accounted:
  assumes "handle_all wn w es = Inr w'" and "keys_once w" and "alerts w' = alerts w"
  shows "accounted w' [] = accounted w [] + sum_list (map asked es) \<and> keys_once w'"
  using assms
proof (induction es arbitrary: w)
  case (Cons e es)
  then obtain w1 where w1: "handle_load wn w e = Inr w1" "handle_all wn w1 es = Inr w'" by (auto simp: rbind_Inr_iff)
  obtain as bs where "alerts w1 = alerts w @ as" "alerts w' = alerts w1 @ bs"
    using handle_alerts[OF w1(1)] handle_all_alerts[OF w1(2)] by blast
  then have al: "alerts w1 = alerts w" "alerts w' = alerts w1" using Cons.prems(3) by simp_all
  have 1: "accounted w1 [] = accounted w [] + asked e" "keys_once w1" using handle_accounted[OF w1(1) Cons.prems(2) al(1)] by auto
  then have "accounted w' [] = accounted w1 [] + sum_list (map asked es)" "keys_once w'" using Cons.IH[OF w1(2) _ al(2)] by auto
  then show ?case using 1(1) by (simp add: add.assoc)
qed simp

text \<open>
  C40: the loader neither loses nor repeats a callback. As long as no load fails, the callbacks given to
  \<open>get\<close> are those that have been called and those that wait for a resource, each as often as it was given.
\<close>

theorem loader_keeps_callbacks:
  assumes "handle_all wn new_ResourceLoader es = Inr w" and "alerts w = []"
  shows "mset (map fst (called w)) + all_users (waiting_cbs w) = sum_list (map asked es)"
  using handle_all_accounted[OF assms(1)] assms(2)
  by (simp add: accounted_def new_ResourceLoader_def keys_once_def waiting_cbs_def all_users_def)

theorem loader_keeps_callbacks_witness:
  "let es = [Get ''a'' 1, Get ''a'' 2, DependsOn ''a'' ''b'', Registers ''a'', Loads ''a'', Registers ''b'', Loads ''b'']
   in \<exists>w. handle_all [] new_ResourceLoader es = Inr w \<and> called w = [(1, ''a''), (2, ''a'')] \<and> requested w = [''a'', ''b''] \<and>
        mset (map fst (called w)) + all_users (waiting_cbs w) = sum_list (map asked es)"
proof -
  let ?es = "[Get ''a'' 1, Get ''a'' 2, DependsOn ''a'' ''b'', Registers ''a'', Loads ''a'', Registers ''b'', Loads ''b'']"
  let ?w = "\<lparr>resources = [''a'', ''b''], loading = [], dependencies = [(''a'', [''b''])], requested = [''a'', ''b''],
      called = [(1, ''a''), (2, ''a'')], alerts = []\<rparr>"
  have "handle_all [] new_ResourceLoader ?es = Inr ?w" by code_simp
  then show ?thesis using loader_keeps_callbacks[of "[]" ?es ?w] by (simp add: Let_def)
qed

text \<open>A script is asked for again only after a load of it has failed.\<close>

definition known :: "loader \<Rightarrow> string set" where
  "known w = set (resources w) \<union> fst ` set (loading w)"

definition asked_once :: "loader \<Rightarrow> bool" where
  "asked_once w \<longleftrightarrow> (\<forall>n. count_list (requested w) n \<le> count_list (alerts w) n + (if n \<in> known w then 1 else 0))"

lemma asked_once_same:
  assumes "asked_once w" and "requested w' = requested w" and "alerts w' = alerts w" and "known w \<subseteq> known w'"
  shows "asked_once w'"
  unfolding asked_once_def
proof
  fix n
  show "count_list (requested w') n \<le> count_list (alerts w') n + (if n \<in> known w' then 1 else 0)"
    using assms(1)[unfolded asked_once_def, rule_format, of n] assms(2-) by (auto split: if_splits)
qed

lemma asked_once_request:
  assumes "asked_once w" and "n \<notin> known w"
  shows "asked_once (w\<lparr>loading := (n, cs) # loading w, requested := requested w @ [n]\<rparr>)" (is "asked_once ?w")
  unfolding asked_once_def
proof
  fix k
  have "known ?w = insert n (known w)" by (auto simp: known_def)
  then show "count_list (requested ?w) k \<le> count_list (alerts ?w) k + (if k \<in> known ?w then 1 else 0)"
    using assms(1)[unfolded asked_once_def, rule_format, of k] assms(2) by (auto split: if_splits)
qed

lemma asked_once_failed:
  assumes "asked_once w" and "n \<notin> set (resources w)"
  shows "asked_once (w\<lparr>loading := filter (\<lambda>x. fst x \<noteq> n) (loading w), alerts := alerts w @ [n]\<rparr>)" (is "asked_once ?w")
  unfolding asked_once_def
proof
  fix k
  have "known ?w = known w - {n}" using assms(2) by (auto simp: known_def)
  then show "count_list (requested ?w) k \<le> count_list (alerts ?w) k + (if k \<in> known ?w then 1 else 0)"
    using assms(1)[unfolded asked_once_def, rule_format, of k] by (auto split: if_splits)
qed

lemma run_asked_once: "run_callbacks w ts = Inr w' \<Longrightarrow> asked_once w \<Longrightarrow> asked_once w'"
proof (induction w ts rule: run_callbacks.induct)
  case (2 w k r ts)
  have "asked_once (w\<lparr>called := called w @ [(k, r)]\<rparr>)" by (rule asked_once_same[OF 2(3)]) (auto simp: known_def)
  then show ?case using 2(1,2) by simp
next
  case (3 w n c r ts)
  show ?case
  proof (cases "map_of (loading w) n")
    case (Some cs)
    have "asked_once (w\<lparr>loading := AList.update n (cs @ [c]) (loading w)\<rparr>)"
      by (rule asked_once_same[OF 3(5)]) (auto simp: known_def dom_update)
    then show ?thesis using 3(3)[OF Some] 3(4) Some by simp
  next
    case None
    then have "n \<notin> set (resources w) \<Longrightarrow> n \<notin> known w" by (simp add: known_def map_of_eq_None_iff)
    then show ?thesis using 3(1,2)[OF None] 3(4,5) asked_once_request[OF 3(5), of n "[c]"]
      unfolding run_callbacks.simps(3) None option.case by (metis (no_types, lifting))
  qed
next
  case (4 w n r ts)
  show ?case
  proof (cases "n \<in> set (resources w)")
    case True
    have "asked_once (w\<lparr>loading := filter (\<lambda>x. fst x \<noteq> n) (loading w)\<rparr>)"
      by (rule asked_once_same[OF 4(4)]) (use True in \<open>auto simp: known_def\<close>)
    then show ?thesis using 4(2)[OF refl] 4(3) True by (auto simp: Let_def split: option.splits)
  next
    case False
    then show ?thesis using 4(1)[OF refl False] 4(3) asked_once_failed[OF 4(4) False] by (simp add: Let_def)
  qed
qed simp

lemma handle_asked_once: "handle_load wn w e = Inr w' \<Longrightarrow> asked_once w \<Longrightarrow> asked_once w'"
proof (cases e)
  case (Registers n)
  assume "handle_load wn w e = Inr w'" "asked_once w"
  then show ?thesis using asked_once_same[of w "w\<lparr>resources := resources w @ [n]\<rparr>"] Registers by (fastforce simp: known_def)
next
  case (DependsOn a b)
  assume "handle_load wn w e = Inr w'" "asked_once w"
  moreover have "requested (dependency wn a b w) = requested w" "known (dependency wn a b w) = known w"
    by (auto simp: dependency_def known_def split: option.splits)
  ultimately show ?thesis using asked_once_same[of w w'] DependsOn by auto
qed (auto simp: get_resource_def finish_resource_def simp del: run_callbacks.simps dest: run_asked_once split: option.splits)

theorem loader_asks_once:
  "handle_all wn new_ResourceLoader es = Inr w \<Longrightarrow> count_list (requested w) n \<le> Suc (count_list (alerts w) n)"
proof -
  have run: "handle_all wn v es = Inr w \<Longrightarrow> asked_once v \<Longrightarrow> asked_once w" for v
  proof (induction es arbitrary: v)
    case (Cons e es)
    then show ?case using handle_asked_once[of wn v e] by (auto simp: rbind_Inr_iff)
  qed simp
  assume "handle_all wn new_ResourceLoader es = Inr w"
  moreover have "asked_once new_ResourceLoader" by (simp add: asked_once_def new_ResourceLoader_def)
  ultimately have "asked_once w" by (rule run)
  from this[unfolded asked_once_def, rule_format, of n] show ?thesis by (auto split: if_splits)
qed

subsection \<open>Names of brushes\<close>

text \<open>\<open>Syntax.aliases\<close>: an object, without the names every object inherits.\<close>

type_synonym alias_table = "(string \<times> string) list"

definition add_alias :: "string \<Rightarrow> string list \<Rightarrow> alias_table \<Rightarrow> alias_table" where
  "add_alias name as t = fold (\<lambda>a. put_prop a name) as (put_prop name name t)"

definition brushAliases :: "string \<Rightarrow> alias_table \<Rightarrow> string list" where
  "brushAliases brush t = map fst (filter (\<lambda>x. snd x = brush) t)"

definition brushNames :: "alias_table \<Rightarrow> string list" where
  "brushNames t = map fst (filter (\<lambda>x. fst x = snd x) t)"

fun first_alias :: "alias_table \<Rightarrow> string list \<Rightarrow> string option" where
  "first_alias t [] = None"
| "first_alias t (c # cs) =
     (case lookup_prop t c of Some n \<Rightarrow> if n \<noteq> [] then Some n else first_alias t cs | None \<Rightarrow> first_alias t cs)"

definition brush_re :: re where
  "brush_re = RSeq (RText ''brush-'') (RGroup 1 (RPlus (RClass True space_chars)))"

definition extractBrushName :: "alias_table \<Rightarrow> string \<Rightarrow> string option" where
  "extractBrushName t className0 =
     (let className = to_lower className0
      in case exec brush_re className of
           Some m \<Rightarrow> Some (group_text 1 m)
         | None \<Rightarrow>
             (let classes = split_on (CHR '' '') className
              in if ''syntax'' \<in> set classes then first_alias t classes else None))"

lemma lookup_alias: "lookup_prop (add_alias name as t) = (\<lambda>k. if k \<in> set (name # as) then Some name else lookup_prop t k)"
proof -
  have "lookup_prop (fold (\<lambda>a. put_prop a name) as u) = (\<lambda>k. if k \<in> set as then Some name else lookup_prop u k)" for u
    by (induction as arbitrary: u) (auto simp: lookup_put_prop)
  then show ?thesis by (auto simp: add_alias_def lookup_put_prop)
qed

text \<open>An alias given for a brush is listed under it.\<close>

lemma brushAliases_alias: "a \<in> set (name # as) \<Longrightarrow> a \<in> set (brushAliases name (add_alias name as t))"
  using lookup_prop_Some_in[of "add_alias name as t" a name] lookup_alias[of name as t] by (force simp: brushAliases_def)

lemma brushNames_alias: "name \<in> set (brushNames (add_alias name as t))"
  using lookup_prop_Some_in[of "add_alias name as t" name name] lookup_alias[of name as t] by (force simp: brushNames_def)

lemma extract_names:
  "extractBrushName [] ''code Brush-C++ x'' = Some ''c++''"
  "extractBrushName (add_alias ''clang'' [''cpp'', ''c''] []) ''syntax c'' = Some ''clang''"
  "extractBrushName (add_alias ''clang'' [''cpp'', ''c''] []) ''c'' = None"
  by code_simp+

end
