(* ===== verification/Spec2Isabelle.thy ===== *)
theory Spec2Isabelle
  imports Stats_Files App_Laws Monitor_Base Xcomet_Admin White_Board Websocket_Wrapper Socket_Movie Form_Upload Jq_Deferred Syntax_Clang Syntax_Loader
begin

text \<open>
  A verification of the JavaScript of the ipush repository: the tools around the push server, the scripts of
  their pages, and the syntax highlighter of the documentation pages under \<open>deps\<close>. All paths are under
  \<open>src/\<close>.

  \<^bold>\<open>The program.\<close> The push server itself is written in C++. Around it stand three tools for Node. The monitor
  (\<open>tools/monitor\<close>) asks the stats page of every server node once a minute, keeps the answers in daily log
  files, adds them up over nodes and minutes, and shows them on pages with live updates. The admin client
  (\<open>tools/node-xcomet-admin\<close>) publishes messages to the node a user belongs to. The white board
  (\<open>tools/white_board\<close>) is a sample application: a small server with uploads, and pages that reach the push
  server through a socket in a Flash movie, with a WebSocket built on top of it, and that send forms with
  jQuery and a form plug-in.

  \<^bold>\<open>The language.\<close> \<open>Js_Prelude\<close> has the results that may be an exception, the fact collections and shared
  lemmas; \<open>Js_Number\<close>, \<open>Js_Text\<close>, \<open>Js_Value\<close>, \<open>Js_Json\<close>, \<open>Js_Date\<close>, \<open>Js_Strings\<close> and \<open>Js_Regex\<close> model the
  numbers, strings, objects, JSON texts, dates, string methods and regular expressions of the language as far
  as the sources use them; \<open>Node_Path\<close>, \<open>Node_Url\<close> and \<open>Base64\<close> the modules of Node. \<open>Dom\<close> is the document of a
  page. \<open>Runs\<close> has the interfaces \<open>machine\<close> and \<open>output_log\<close> of event-driven components: an invariant every
  handler keeps holds on every run.

  \<^bold>\<open>The monitor.\<close> \<open>Monitor_Stats\<close> is the statistics half of \<open>monitor.js\<close> (\<open>accumulateObj\<close>, \<open>subtractObj\<close>,
  \<open>parseDailyStat\<close>, \<open>getStatsOfDay\<close>, \<open>getDailyStats\<close>), \<open>Monitor_Core\<close> its running half (nodes, timer, queries,
  log, clients), with one definition per function and a record for the module's variables. \<open>Stats_Laws\<close> reads a
  statistics object as a function from paths to counters and shows that the two object functions add and
  subtract it; \<open>Log_Lines\<close> has the interface of the log format, interpreted by the JSON printer and parser;
  \<open>Stats_Reports\<close> and \<open>Stats_Minutes\<close> show what the readers of a log return, with \<open>Grouping\<close> as the interface of
  merging items of one minute; \<open>Stats_Files\<close> is about the names of the daily files. \<open>Monitor_Laws\<close> takes the
  monitor as a state machine: its invariant, one round of queries a minute, what answers and failures do, and
  that a logged item is read back. \<open>Monitor_App\<close> and \<open>App_Laws\<close> are \<open>app.js\<close> with \<open>config.js\<close>, \<open>Monitor_Base\<close> the
  page scripts \<open>base.js\<close> and \<open>chart.js\<close>.

  \<^bold>\<open>The admin client and the white board.\<close> \<open>Xcomet_Admin\<close> is \<open>index.js\<close> and \<open>example.js\<close> of the client.
  \<open>White_Board\<close> is the server of the white board. \<open>Jsocket\<close> is the Flash socket (\<open>jsocket.js\<close>,
  \<open>jsocket.advanced.js\<close>, \<open>jquery.socket.js\<close>) as a machine of page calls, callbacks of the movie and timers;
  \<open>Websocket_Wrapper\<close> the WebSocket over it; \<open>Swfobject\<close> the embedding of movies (\<open>swfobject.js\<close>); \<open>Socket_Movie\<close>
  puts socket and embedding together.

  \<^bold>\<open>jQuery and forms.\<close> \<open>Jq_Core\<close> has the utilities of \<open>jquery-1.9.1.js\<close> with deep copies, \<open>Jq_Callbacks\<close> the
  callback lists, \<open>Jq_Deferred\<close> the deferreds: the callbacks of a page are programs that act on lists and
  deferreds while these are firing, and the laws hold whatever they do. \<open>Form_Fields\<close>, \<open>Form_Submit\<close> and
  \<open>Form_Upload\<close> are \<open>jquery.form.js\<close>: the values of controls and their encoding, what a submission sends, and the
  upload through a hidden frame as a machine of loads, timers and aborts.

  \<^bold>\<open>The highlighter.\<close> \<open>Syntax_Match\<close> is the syntax tree of \<open>jquery.syntax.core.js\<close> with insertion and
  reduction to HTML, \<open>Syntax_Bisect\<close> the bisection of trees and the split into lines, \<open>Syntax_Brush\<close> the rules and
  the extraction of matches, \<open>Syntax_Tabs\<close> the expansion of tabs and the table of offsets, \<open>Syntax_Highlight\<close>
  the function \<open>highlightText\<close> with links and ranges of the page, \<open>Syntax_Clang\<close> the brush for C, and
  \<open>Syntax_Loader\<close> the loader of \<open>jquery.syntax.js\<close>. The laws: insertion and bisection keep trees well-formed over
  their text, highlighting ends and loses no text, the table of offsets says where characters have moved, and
  the loader neither loses nor repeats a callback.

  \<^bold>\<open>Parameters.\<close> Code outside the repository is an argument of the definitions that use it: the hash ring and the
  HTTP client of the admin client, the file system and the environment of the date functions, the Flash movie's
  answers, the HTML parser of the browser, the processing functions of brushes, and the engine that runs the
  patterns of brushes. The last one has the interface \<open>regexp_engine\<close>, interpreted by the matcher of \<open>Js_Regex\<close>.

  \<^bold>\<open>Bounds.\<close> The JSON parser and the loop over the matches of a global pattern take fuel computed from the length
  of the text, which is enough because each step consumes a character or moves on. Running callbacks of a page,
  and the loop of \<open>MatchPattern\<close>, may not end and are partial functions whose value is then \<open>None\<close>; that they end
  is proved where it is claimed. The extraction of matches takes the depth to which brushes are nested;
  the laws assume a depth that suffices (\<open>nested\<close>). Dates are exact integers of milliseconds; numbers are the
  binary64 values, rounded after every operation.

  \<^bold>\<open>Not modelled.\<close> The C++ server under \<open>src/\<close> and the C and C++ libraries under \<open>deps/\<close>, which are other programs;
  the views, style sheets and images; the minified and third-party scripts of the pages (Highcharts, socket.io,
  jQuery UI, Bootstrap, \<open>ref.js\<close>, the older jQuery and \<open>yelp.js\<close> of the documentation), which the modelled code
  only calls; of \<open>jquery-1.9.1.js\<close> the selector engine, events, manipulation of the document, styles, effects and
  transports, which depend on the behaviour of many browsers; the ActionScript of the Flash movies; of the
  highlighter the method \<open>_insert\<close>, which no call reaches, the mode line, layouts and themes, and the insertion of
  script and style elements into the page. Output to consoles and loggers is left out except where a law is
  about it.
\<close>

end
